(* ===== verification/Prelude.thy ===== *)
theory Prelude
  imports Complex_Main "HOL-Library.Word"
begin

text \<open>
  Shared vocabulary of the development.

  \<^item> \<open>proc\<close> is the shape of every effectful routine of the program: atomic state changes (\<open>Act\<close>) up to a
    result or a thrown value (\<open>Finish\<close>), suspended at each \<open>await\<close> (\<open>Pause\<close>). A throw keeps the state changes
    made before it, as JavaScript does.
  \<^item> \<open>run\<close> executes a routine with nothing else happening at its awaits; \<open>advance\<close> executes it up to its next
    await, which is what the event loop of the browser does in one turn.
  \<^item> \<open>wp\<close> reads off what holds after an undisturbed run, for the normal and for the thrown outcome; its
    equations (collection \<open>wp_simps\<close>) evaluate a routine step by step.
  \<^item> \<open>wp_frame\<close> composes a summary of a called routine with the rest of the caller.
  \<^item> \<open>keeps\<close> says that a routine keeps an invariant; the rules \<open>keeps_intros\<close> follow its text.
  \<^item> generic list facts used by the byte encoders.
\<close>

unbundle bit_operations_syntax

named_theorems wp_simps "equations that evaluate wp on the combinators"
named_theorems run_simps "equations that evaluate run on the combinators"

section \<open>Effectful routines\<close>

datatype ('s, 'e, 'a) proc =
    Finish "'e + 'a"
  | Act "'s \<Rightarrow> 's" "'s \<Rightarrow> ('s, 'e, 'a) proc"
  | Pause "('s, 'e, 'a) proc"

definition ret :: "'a \<Rightarrow> ('s, 'e, 'a) proc" where
  "ret x = Finish (Inr x)"

definition throw :: "'e \<Rightarrow> ('s, 'e, 'a) proc" where
  "throw e = Finish (Inl e)"

primrec andThen :: "('s, 'e, 'a) proc \<Rightarrow> ('a \<Rightarrow> ('s, 'e, 'b) proc) \<Rightarrow> ('s, 'e, 'b) proc" where
  "andThen (Finish r) f = (case r of Inl e \<Rightarrow> Finish (Inl e) | Inr x \<Rightarrow> f x)"
| "andThen (Act u k) f = Act u (\<lambda>s. andThen (k s) f)"
| "andThen (Pause k) f = Pause (andThen k f)"

primrec catch :: "('s, 'e, 'a) proc \<Rightarrow> ('e \<Rightarrow> ('s, 'e, 'a) proc) \<Rightarrow> ('s, 'e, 'a) proc" where
  "catch (Finish r) h = (case r of Inl e \<Rightarrow> h e | Inr x \<Rightarrow> Finish (Inr x))"
| "catch (Act u k) h = Act u (\<lambda>s. catch (k s) h)"
| "catch (Pause k) h = Pause (catch k h)"

text \<open>\<open>await m\<close>: whatever \<open>m\<close> ends with is seen in a later turn of the event loop.\<close>

primrec await :: "('s, 'e, 'a) proc \<Rightarrow> ('s, 'e, 'a) proc" where
  "await (Finish r) = Pause (Finish r)"
| "await (Act u k) = Act u (\<lambda>s. await (k s))"
| "await (Pause k) = Pause (await k)"

definition gets :: "('s \<Rightarrow> 'a) \<Rightarrow> ('s, 'e, 'a) proc" where
  "gets f = Act (\<lambda>s. s) (\<lambda>s. ret (f s))"

definition modify :: "('s \<Rightarrow> 's) \<Rightarrow> ('s, 'e, unit) proc" where
  "modify f = Act f (\<lambda>_. ret ())"

definition guardE :: "bool \<Rightarrow> ('s, 'e, unit) proc \<Rightarrow> ('s, 'e, unit) proc" where
  "guardE c m = (if c then ret () else m)"

section \<open>Execution\<close>

primrec run :: "('s, 'e, 'a) proc \<Rightarrow> 's \<Rightarrow> ('e + 'a) \<times> 's" where
  "run (Finish r) s = (r, s)"
| "run (Act u k) s = run (k s) (u s)"
| "run (Pause k) s = run k s"

primrec advance :: "('s, 'e, 'a) proc \<Rightarrow> 's \<Rightarrow> ('s, 'e, 'a) proc \<times> 's" where
  "advance (Finish r) s = (Finish r, s)"
| "advance (Act u k) s = advance (k s) (u s)"
| "advance (Pause k) s = (Pause k, s)"

lemma run_andThen [run_simps]:
  "run (andThen m f) s = (case run m s of (Inl e, s') \<Rightarrow> (Inl e, s') | (Inr x, s') \<Rightarrow> run (f x) s')"
  by (induction m arbitrary: s) (auto split: sum.split)

lemma run_catch [run_simps]:
  "run (catch m h) s = (case run m s of (Inl e, s') \<Rightarrow> run (h e) s' | (Inr x, s') \<Rightarrow> (Inr x, s'))"
  by (induction m arbitrary: s) (auto split: sum.split)

lemma run_await [run_simps]: "run (await m) s = run m s"
  by (induction m arbitrary: s) auto

lemma run_basic [run_simps]:
  "run (ret x) s = (Inr x, s)" "run (throw e) s = (Inl e, s)" "run (gets f) s = (Inr (f s), s)"
  "run (modify f') s = (Inr (), f' s)" "run (guardE c m) s = (if c then (Inr (), s) else run m s)"
  by (simp_all add: ret_def throw_def gets_def modify_def guardE_def)

text \<open>A turn of the event loop leads to the same end as the whole run.\<close>

lemma advance_run: "advance m s = (m', s') \<Longrightarrow> run m' s' = run m s"
  by (induction m arbitrary: s) auto

section \<open>Weakest preconditions\<close>

definition wp :: "('s, 'e, 'a) proc \<Rightarrow> ('a \<Rightarrow> 's \<Rightarrow> bool) \<Rightarrow> ('e \<Rightarrow> 's \<Rightarrow> bool) \<Rightarrow> 's \<Rightarrow> bool" where
  "wp m Q R s = (case run m s of (Inl e, s') \<Rightarrow> R e s' | (Inr x, s') \<Rightarrow> Q x s')"

lemma wp_ret [wp_simps]: "wp (ret x) Q R s = Q x s"
  by (simp add: wp_def run_simps)

lemma wp_throw [wp_simps]: "wp (throw e) Q R s = R e s"
  by (simp add: wp_def run_simps)

lemma wp_andThen [wp_simps]: "wp (andThen m f) Q R s = wp m (\<lambda>x. wp (f x) Q R) R s"
  by (simp add: wp_def run_simps split: prod.split sum.split)

lemma wp_catch [wp_simps]: "wp (catch m h) Q R s = wp m Q (\<lambda>e. wp (h e) Q R) s"
  by (simp add: wp_def run_simps split: prod.split sum.split)

lemma wp_await [wp_simps]: "wp (await m) Q R s = wp m Q R s"
  by (simp add: wp_def run_simps)

lemma wp_gets [wp_simps]: "wp (gets f) Q R s = Q (f s) s"
  by (simp add: wp_def run_simps)

lemma wp_modify [wp_simps]: "wp (modify f) Q R s = Q () (f s)"
  by (simp add: wp_def run_simps)

lemma wp_guardE [wp_simps]: "wp (guardE c m) Q R s = (if c then Q () s else wp m Q R s)"
  by (simp add: guardE_def wp_ret)

lemma wp_if [wp_simps]: "wp (if c then m else n) Q R s = (if c then wp m Q R s else wp n Q R s)"
  by simp

lemma wp_case_option [wp_simps]:
  "wp (case opt of None \<Rightarrow> m | Some x \<Rightarrow> n x) Q R s
     = (case opt of None \<Rightarrow> wp m Q R s | Some x \<Rightarrow> wp (n x) Q R s)"
  by (cases opt) simp_all

lemma wp_case_list [wp_simps]:
  "wp (case xs of [] \<Rightarrow> m | y # ys \<Rightarrow> n y ys) Q R s
     = (case xs of [] \<Rightarrow> wp m Q R s | y # ys \<Rightarrow> wp (n y ys) Q R s)"
  by (cases xs) simp_all

lemma wp_frame:
  assumes "wp m Q R s" and "\<And>x s'. Q x s' \<Longrightarrow> Q' x s'" and "\<And>e s'. R e s' \<Longrightarrow> R' e s'"
  shows "wp m Q' R' s"
  using assms by (auto simp: wp_def split: prod.splits sum.splits)

lemma wp_run: "wp m Q R s \<Longrightarrow> run m s = (Inr x, s') \<Longrightarrow> Q x s'"
  by (simp add: wp_def)

lemma wp_run_throw: "wp m Q R s \<Longrightarrow> run m s = (Inl e, s') \<Longrightarrow> R e s'"
  by (simp add: wp_def)

lemma wp_snd: "wp m (\<lambda>_. Q) (\<lambda>_. Q) s \<Longrightarrow> Q (snd (run m s))"
  by (auto simp: wp_def split: prod.splits sum.splits)

lemma wp_I_snd: "Q (snd (run m s)) \<Longrightarrow> wp m (\<lambda>_. Q) (\<lambda>_. Q) s"
  by (auto simp: wp_def split: prod.splits sum.splits)

lemma wp_exact: "wp m (\<lambda>_ s'. s' = t) (\<lambda>_ _. False) s \<Longrightarrow> run m s = (Inr (), t)"
  by (auto simp: wp_def split: prod.splits sum.splits)

section \<open>Invariants of routines\<close>

text \<open>\<open>keeps I m\<close>: the routine keeps \<open>I\<close>, whether it returns or throws. The rules follow its text.\<close>

definition keeps :: "('s \<Rightarrow> bool) \<Rightarrow> ('s, 'e, 'a) proc \<Rightarrow> bool" where
  "keeps I m \<longleftrightarrow> (\<forall>s. I s \<longrightarrow> wp m (\<lambda>_. I) (\<lambda>_. I) s)"

named_theorems keeps_intros "rules that show a routine keeps"

lemma keepsI: "(\<And>s. I s \<Longrightarrow> wp m (\<lambda>_. I) (\<lambda>_. I) s) \<Longrightarrow> keeps I m"
  by (simp add: keeps_def)

lemma keepsD: "keeps I m \<Longrightarrow> I s \<Longrightarrow> wp m (\<lambda>_. I) (\<lambda>_. I) s"
  by (simp add: keeps_def)

lemma keeps_snd: "keeps I m \<Longrightarrow> I s \<Longrightarrow> I (snd (run m s))"
  by (blast dest: keepsD intro: wp_snd)

lemma keeps_andThen [keeps_intros]: "keeps I m \<Longrightarrow> (\<And>x. keeps I (f x)) \<Longrightarrow> keeps I (andThen m f)"
  unfolding keeps_def wp_andThen by (blast intro: wp_frame)

lemma keeps_catch [keeps_intros]: "keeps I m \<Longrightarrow> (\<And>e. keeps I (h e)) \<Longrightarrow> keeps I (catch m h)"
  unfolding keeps_def wp_catch by (blast intro: wp_frame)

lemma keeps_await [keeps_intros]: "keeps I m \<Longrightarrow> keeps I (await m)"
  by (simp add: keeps_def wp_await)

lemma keeps_basic [keeps_intros]: "keeps I (ret x)" "keeps I (throw e)" "keeps I (gets g)"
  by (simp_all add: keeps_def wp_simps)

lemma keeps_modify [keeps_intros]: "(\<And>s. I s \<Longrightarrow> I (f s)) \<Longrightarrow> keeps I (modify f)"
  by (simp add: keeps_def wp_simps)

lemma keeps_branches [keeps_intros]:
  "keeps I h \<Longrightarrow> keeps I (guardE c h)"
  "keeps I m \<Longrightarrow> keeps I n \<Longrightarrow> keeps I (if c then m else n)"
  "keeps I m \<Longrightarrow> (\<And>x. keeps I (j x)) \<Longrightarrow> keeps I (case opt of None \<Rightarrow> m | Some x \<Rightarrow> j x)"
  "keeps I m \<Longrightarrow> (\<And>y ys. keeps I (k y ys)) \<Longrightarrow> keeps I (case xs of [] \<Rightarrow> m | y # ys \<Rightarrow> k y ys)"
  by (simp_all add: guardE_def keeps_basic split: option.split list.split)

section \<open>Lists\<close>

lemma list_update_append_ge:
  "length xs \<le> i \<Longrightarrow> (xs @ ys)[i := v] = xs @ ys[i - length xs := v]"
  by (simp add: list_update_append)

end
