(* ===== verification/JsString.thy ===== *)
theory JsString
  imports Prelude
begin

text \<open>
  JavaScript strings. A string is the sequence of its UTF-16 code units, so \<open>length\<close>, indexing and
  slicing count what the language counts. \<open>lit\<close> writes an ASCII literal of the source.

  The string operations the wallet uses: \<open>trim\<close> (every ECMAScript WhiteSpace and LineTerminator
  code unit), \<open>toLowerCase\<close>, \<open>includes\<close> (here \<open>includesStr\<close>), \<open>startsWith\<close>, \<open>split\<close> (here \<open>splitOn\<close>) on a one-unit separator.
  \<open>toLowerCase\<close> is exact on ASCII strings; on a string with a unit above 127 its result is the
  Unicode case table's, the parameter \<open>U\<close>.
\<close>

type_synonym unit16 = "16 word"
type_synonym jstring = "unit16 list"
type_synonym unicode_lower = "jstring \<Rightarrow> jstring"

section \<open>Literals\<close>

definition lit :: "string \<Rightarrow> jstring" where
  "lit s = map (\<lambda>c. of_nat (of_char c)) s"

lemma unat_lit_unit: "unat (of_nat (of_char c) :: unit16) = of_char c"
proof -
  have "(of_char c :: nat) < 2 ^ 16"
    by (rule less_trans [OF nat_of_char_less_256]) simp
  then show ?thesis by (simp add: of_nat_inverse)
qed

lemma inj_lit_unit: "inj (\<lambda>c. of_nat (of_char c) :: unit16)"
proof (rule injI)
  fix x y :: char
  assume "(of_nat (of_char x) :: unit16) = of_nat (of_char y)"
  then have "unat (of_nat (of_char x) :: unit16) = unat (of_nat (of_char y) :: unit16)" by simp
  then have "(of_char x :: nat) = of_char y" by (simp only: unat_lit_unit)
  then show "x = y" by simp
qed

lemma lit_eq_iff [simp]: "lit a = lit b \<longleftrightarrow> a = b"
  by (simp add: lit_def inj_map_eq_map [OF inj_lit_unit])

lemma lit_Nil_iff [simp]: "lit a = [] \<longleftrightarrow> a = []" "[] = lit a \<longleftrightarrow> a = []"
  by (auto simp: lit_def)

lemma lit_append: "lit (a @ b) = lit a @ lit b"
  by (simp add: lit_def)

lemma length_lit [simp]: "length (lit a) = length a"
  by (simp add: lit_def)

section \<open>Trimming\<close>

definition is_space :: "unit16 \<Rightarrow> bool" where
  "is_space c \<longleftrightarrow> (9 \<le> c \<and> c \<le> 13) \<or> c = 32 \<or> c = 160 \<or> c = 5760 \<or> (8192 \<le> c \<and> c \<le> 8202)
     \<or> c = 8232 \<or> c = 8233 \<or> c = 8239 \<or> c = 8287 \<or> c = 12288 \<or> c = 65279"

definition trim :: "jstring \<Rightarrow> jstring" where
  "trim s = rev (dropWhile is_space (rev (dropWhile is_space s)))"

definition trimmed :: "jstring \<Rightarrow> bool" where
  "trimmed s \<longleftrightarrow> s = [] \<or> (\<not> is_space (hd s) \<and> \<not> is_space (last s))"

lemma trimmed_fixpoint: "trimmed s \<Longrightarrow> trim s = s"
proof (cases s)
  case Nil
  then show ?thesis by (simp add: trim_def)
next
  case (Cons c cs)
  assume "trimmed s"
  with Cons have hd: "\<not> is_space c" and la: "\<not> is_space (last s)" by (auto simp: trimmed_def)
  from hd Cons have 1: "dropWhile is_space s = s" by simp
  from Cons have "rev s \<noteq> []" by simp
  then obtain d ds where d: "rev s = d # ds" by (cases "rev s") auto
  then have "last s = d" using Cons by (metis hd_rev list.sel(1))
  with la d have "dropWhile is_space (rev s) = rev s" by simp
  with 1 show ?thesis by (simp add: trim_def)
qed

lemma hd_rev_dropWhile_rev:
  assumes "xs = [] \<or> \<not> P (hd xs)"
  shows "rev (dropWhile P (rev xs)) = [] \<or> hd (rev (dropWhile P (rev xs))) = hd xs"
proof (cases "rev (dropWhile P (rev xs)) = []")
  case False
  have "xs = rev (takeWhile P (rev xs) @ dropWhile P (rev xs))" by simp
  also have "\<dots> = rev (dropWhile P (rev xs)) @ rev (takeWhile P (rev xs))"
    by (simp only: rev_append)
  finally show ?thesis using False by (metis hd_append2)
qed simp

lemma trimmed_trim [simp]: "trimmed (trim s)"
proof (cases "trim s = []")
  case True
  then show ?thesis by (simp add: trimmed_def)
next
  case False
  let ?d = "dropWhile is_space s"
  from False have d: "?d \<noteq> []" unfolding trim_def by (metis dropWhile.simps(1) rev.simps(1))
  then have h: "\<not> is_space (hd ?d)" by (rule hd_dropWhile)
  have "trim s = [] \<or> hd (trim s) = hd ?d"
    unfolding trim_def using h by (intro hd_rev_dropWhile_rev) simp
  with h False have 1: "\<not> is_space (hd (trim s))" by simp
  from False have ne: "dropWhile is_space (rev ?d) \<noteq> []" unfolding trim_def by simp
  then have "\<not> is_space (hd (dropWhile is_space (rev ?d)))" by (rule hd_dropWhile)
  then have 2: "\<not> is_space (last (trim s))" using ne by (simp add: trim_def last_rev)
  from 1 2 show ?thesis by (simp add: trimmed_def)
qed

lemma trim_idem [simp]: "trim (trim s) = trim s"
  by (rule trimmed_fixpoint) simp

section \<open>Case, search, splitting\<close>

definition ascii_lower :: "unit16 \<Rightarrow> unit16" where
  "ascii_lower c = (if 65 \<le> c \<and> c \<le> 90 then c + 32 else c)"

definition is_ascii :: "jstring \<Rightarrow> bool" where
  "is_ascii s \<longleftrightarrow> list_all (\<lambda>c. c < 128) s"

definition toLowerCase :: "unicode_lower \<Rightarrow> jstring \<Rightarrow> jstring" where
  "toLowerCase U s = (if is_ascii s then map ascii_lower s else U s)"

fun startsWith :: "jstring \<Rightarrow> jstring \<Rightarrow> bool" where
  "startsWith s [] = True"
| "startsWith [] (p # ps) = False"
| "startsWith (c # cs) (p # ps) = (c = p \<and> startsWith cs ps)"

fun includesStr :: "jstring \<Rightarrow> jstring \<Rightarrow> bool" where
  "includesStr [] p = (p = [])"
| "includesStr (c # cs) p = (startsWith (c # cs) p \<or> includesStr cs p)"

fun splitOn :: "unit16 \<Rightarrow> jstring \<Rightarrow> jstring list" where
  "splitOn d [] = [[]]"
| "splitOn d (c # cs) =
     (if c = d then [] # splitOn d cs
      else (case splitOn d cs of [] \<Rightarrow> [[c]] | p # ps \<Rightarrow> (c # p) # ps))"

lemma startsWith_iff: "startsWith s p \<longleftrightarrow> (\<exists>r. s = p @ r)"
  by (induction s p rule: startsWith.induct) auto

lemma startsWith_append [simp]: "startsWith (p @ r) p"
  by (auto simp: startsWith_iff)

lemma includesStr_iff: "includesStr s p \<longleftrightarrow> (\<exists>a b. s = a @ p @ b)"
proof (induction s)
  case Nil
  then show ?case by auto
next
  case (Cons c cs)
  show ?case
  proof
    assume "includesStr (c # cs) p"
    then consider (now) "startsWith (c # cs) p" | (later) "includesStr cs p" by auto
    then show "\<exists>a b. c # cs = a @ p @ b"
    proof cases
      case now
      then obtain r where "c # cs = p @ r" by (auto simp: startsWith_iff)
      then have "c # cs = [] @ p @ r" by simp
      then show ?thesis by blast
    next
      case later
      then obtain a b where "cs = a @ p @ b" using Cons.IH by auto
      then have "c # cs = (c # a) @ p @ b" by simp
      then show ?thesis by blast
    qed
  next
    assume "\<exists>a b. c # cs = a @ p @ b"
    then obtain a b where ab: "c # cs = a @ p @ b" by blast
    show "includesStr (c # cs) p"
    proof (cases a)
      case Nil
      with ab have "startsWith (c # cs) p" by (auto simp: startsWith_iff)
      then show ?thesis by simp
    next
      case (Cons x xs)
      with ab have "cs = xs @ p @ b" by simp
      then show ?thesis using Cons.IH by auto
    qed
  qed
qed

lemma splitOn_not_Nil [simp]: "splitOn d s \<noteq> []"
  by (cases s) (auto split: list.split)

lemma splitOn_no_sep: "p \<in> set (splitOn d s) \<Longrightarrow> d \<notin> set p"
proof (induction s arbitrary: p)
  case (Cons c cs)
  show ?case
  proof (cases "c = d")
    case True
    with Cons show ?thesis by auto
  next
    case False
    obtain q qs where q: "splitOn d cs = q # qs" by (cases "splitOn d cs") auto
    with False Cons.prems have "p = c # q \<or> p \<in> set qs" by auto
    with False q Cons.IH [of q] Cons.IH [of p] show ?thesis by auto
  qed
qed simp

text \<open>\<open>join\<close> is the inverse the splitter is measured against.\<close>

fun join :: "unit16 \<Rightarrow> jstring list \<Rightarrow> jstring" where
  "join d [] = []"
| "join d [p] = p"
| "join d (p # q # qs) = p @ d # join d (q # qs)"

lemma join_splitOn: "join d (splitOn d s) = s"
proof (induction s)
  case (Cons c cs)
  obtain q qs where q: "splitOn d cs = q # qs" by (cases "splitOn d cs") auto
  with Cons show ?case by (cases qs) auto
qed simp

end
