(* ===== verification/JsNumber.thy ===== *)
theory JsNumber
  imports JsString
begin

text \<open>
  JavaScript numbers. A Number is a NaN, an infinity or a finite double; a finite double is kept as
  the rational it denotes. The sign of zero is not kept: no operation the wallet applies to a number
  (comparison, \<open>Number.isInteger\<close>, \<open>String\<close>, \<open>Long.fromValue\<close>, \<open>||\<close>) tells the two zeros apart.

  \<open>round_double\<close> is the IEEE binary64 rounding (to nearest, ties to even, gradual underflow,
  overflow to infinity). \<open>toNumber\<close> is \<open>Number(string)\<close>, \<open>numToString\<close> is \<open>String(number)\<close> on
  integers, \<open>dateUTC\<close> is \<open>Date.UTC\<close> with a year, a month and a day. All of them compute.
\<close>

datatype js_number = NaN | PosInf | NegInf | Fin rat

section \<open>Rounding to binary64\<close>

function ilog2 :: "int \<Rightarrow> int" where
  "ilog2 n = (if n < 2 then 0 else 1 + ilog2 (n div 2))"
  by pat_completeness auto
termination
  by (relation "measure nat") auto

declare ilog2.simps [simp del]

definition floor_log2 :: "rat \<Rightarrow> int" where
  "floor_log2 q =
     (let (n, d) = quotient_of q;
          k = ilog2 n - ilog2 d
      in if 2 powi k \<le> q then k else k - 1)"

definition round_half_even :: "rat \<Rightarrow> int" where
  "round_half_even q =
     (let f = \<lfloor>q\<rfloor>; r = q - of_int f
      in if r < 1 / 2 then f else if 1 / 2 < r then f + 1 else if even f then f else f + 1)"

definition round_pos :: "rat \<Rightarrow> rat" where
  "round_pos q =
     (let u = max (floor_log2 q - 52) (- 1074)
      in of_int (round_half_even (q / 2 powi u)) * 2 powi u)"

definition round_double :: "rat \<Rightarrow> js_number" where
  "round_double q =
     (if q = 0 then Fin 0
      else if 0 < q then (let r = round_pos q in if 1024 \<le> floor_log2 r then PosInf else Fin r)
      else (let r = round_pos (- q) in if 1024 \<le> floor_log2 r then NegInf else Fin (- r)))"

section \<open>Number(string)\<close>

definition is_digit :: "unit16 \<Rightarrow> bool" where
  "is_digit c \<longleftrightarrow> 48 \<le> c \<and> c \<le> 57"

definition digit_val :: "unit16 \<Rightarrow> int" where
  "digit_val c = uint c - 48"

definition dec_val :: "jstring \<Rightarrow> int" where
  "dec_val s = foldl (\<lambda>a c. 10 * a + digit_val c) 0 s"

definition radix_digit :: "int \<Rightarrow> unit16 \<Rightarrow> int option" where
  "radix_digit r c =
     (let v = (if 48 \<le> c \<and> c \<le> 57 then uint c - 48
               else if 97 \<le> c \<and> c \<le> 122 then uint c - 87
               else if 65 \<le> c \<and> c \<le> 90 then uint c - 55 else 36)
      in if v < r then Some v else None)"

fun radix_val :: "int \<Rightarrow> int \<Rightarrow> jstring \<Rightarrow> int option" where
  "radix_val r a [] = Some a"
| "radix_val r a (c # cs) =
     (case radix_digit r c of None \<Rightarrow> None | Some v \<Rightarrow> radix_val r (r * a + v) cs)"

text \<open>The exponent part of a decimal literal: \<open>None\<close> is a syntax error.\<close>

definition exponent_part :: "jstring \<Rightarrow> int option" where
  "exponent_part s =
     (case s of
        [] \<Rightarrow> Some 0
      | c # cs \<Rightarrow>
          if c = 101 \<or> c = 69 then
            (let (neg, ds) = (case cs of [] \<Rightarrow> (False, [])
                              | x # xs \<Rightarrow> if x = 45 then (True, xs) else if x = 43 then (False, xs)
                                          else (False, cs))
             in if ds \<noteq> [] \<and> list_all is_digit ds
                then Some (if neg then - dec_val ds else dec_val ds) else None)
          else None)"

definition unsigned_decimal :: "jstring \<Rightarrow> rat option" where
  "unsigned_decimal s =
     (let ip = takeWhile is_digit s; r1 = dropWhile is_digit s;
          (fp, r2) = (case r1 of [] \<Rightarrow> ([], [])
                      | c # cs \<Rightarrow> if c = 46 then (takeWhile is_digit cs, dropWhile is_digit cs)
                                  else ([], r1))
      in if ip = [] \<and> fp = [] then None
         else (case exponent_part r2 of None \<Rightarrow> None
               | Some e \<Rightarrow> Some (of_int (dec_val (ip @ fp)) * 10 powi (e - int (length fp)))))"

definition str_decimal :: "jstring \<Rightarrow> js_number" where
  "str_decimal s =
     (let (neg, b) = (case s of [] \<Rightarrow> (False, [])
                      | c # cs \<Rightarrow> if c = 45 then (True, cs) else if c = 43 then (False, cs)
                                  else (False, s))
      in if b = lit ''Infinity'' then (if neg then NegInf else PosInf)
         else (case unsigned_decimal b of None \<Rightarrow> NaN
               | Some q \<Rightarrow> round_double (if neg then - q else q)))"

definition radix_literal :: "int \<Rightarrow> jstring \<Rightarrow> js_number" where
  "radix_literal r ds =
     (if ds = [] then NaN
      else case radix_val r 0 ds of None \<Rightarrow> NaN | Some n \<Rightarrow> round_double (of_int n))"

definition toNumber :: "jstring \<Rightarrow> js_number" where
  "toNumber str =
     (let s = trim str
      in if s = [] then Fin 0
         else (case s of
                 a # b # ds \<Rightarrow>
                   if a = 48 \<and> (b = 120 \<or> b = 88) then radix_literal 16 ds
                   else if a = 48 \<and> (b = 111 \<or> b = 79) then radix_literal 8 ds
                   else if a = 48 \<and> (b = 98 \<or> b = 66) then radix_literal 2 ds
                   else str_decimal s
               | _ \<Rightarrow> str_decimal s))"

section \<open>Predicates and arithmetic\<close>

definition isFinite :: "js_number \<Rightarrow> bool" where
  "isFinite n = (case n of Fin _ \<Rightarrow> True | _ \<Rightarrow> False)"

definition isInteger :: "js_number \<Rightarrow> bool" where
  "isInteger n = (case n of Fin q \<Rightarrow> q = of_int \<lfloor>q\<rfloor> | _ \<Rightarrow> False)"

fun num_less :: "js_number \<Rightarrow> js_number \<Rightarrow> bool" where
  "num_less NaN _ = False"
| "num_less _ NaN = False"
| "num_less (Fin a) (Fin b) = (a < b)"
| "num_less NegInf b = (b \<noteq> NegInf)"
| "num_less (Fin a) b = (b = PosInf)"
| "num_less PosInf b = False"

definition num_le :: "js_number \<Rightarrow> js_number \<Rightarrow> bool" where
  "num_le a b \<longleftrightarrow> num_less a b \<or> (a = b \<and> a \<noteq> NaN)"

definition truthy :: "js_number \<Rightarrow> bool" where
  "truthy n \<longleftrightarrow> n \<noteq> NaN \<and> n \<noteq> Fin 0"

definition num_plus_int :: "js_number \<Rightarrow> int \<Rightarrow> js_number" where
  "num_plus_int n k = (case n of Fin q \<Rightarrow> round_double (q + of_int k) | _ \<Rightarrow> n)"

section \<open>String(number) on integers\<close>

function dec_digits :: "int \<Rightarrow> jstring" where
  "dec_digits n =
     (if n < 10 then [of_int (48 + n)] else dec_digits (n div 10) @ [of_int (48 + n mod 10)])"
  by pat_completeness auto
termination
  by (relation "measure nat") auto

declare dec_digits.simps [simp del]

text \<open>
  \<open>shortest\<close> finds the decimal \<open>s * 10 ^ p\<close> with the fewest significant digits that still denotes
  the double \<open>v\<close>: it tries the coarsest power of ten first; of the two neighbours of \<open>v\<close> at that
  power the nearer one that denotes \<open>v\<close> wins.
\<close>

definition denotes :: "int \<Rightarrow> nat \<Rightarrow> int \<Rightarrow> bool" where
  "denotes s p v \<longleftrightarrow> round_double (of_int (s * 10 ^ p)) = Fin (of_int v)"

definition candidate :: "nat \<Rightarrow> int \<Rightarrow> int option" where
  "candidate p v =
     (let lo = v div 10 ^ p; hi = lo + 1; r = v mod 10 ^ p;
          okl = denotes lo p v; okh = denotes hi p v
      in if okl \<and> okh then Some (if 2 * r < 10 ^ p then lo else if 10 ^ p < 2 * r then hi
                                 else if even lo then lo else hi)
         else if okl then Some lo else if okh then Some hi else None)"

fun shortest :: "nat \<Rightarrow> int \<Rightarrow> int \<times> nat" where
  "shortest 0 v = (v, 0)"
| "shortest (Suc p) v =
     (case candidate (Suc p) v of Some s \<Rightarrow> (s, Suc p) | None \<Rightarrow> shortest p v)"

definition nat_to_string :: "int \<Rightarrow> jstring" where
  "nat_to_string v =
     (let (s, p) = (if v = 0 then (0, 0) else shortest (length (dec_digits v)) v);
          ds = dec_digits s; n = length ds + p
      in if n \<le> 21 then ds @ replicate p 48
         else (case ds of
                 [] \<Rightarrow> []
               | [d] \<Rightarrow> [d] @ lit ''e+'' @ dec_digits (int n - 1)
               | d # dr \<Rightarrow> [d] @ lit ''.'' @ dr @ lit ''e+'' @ dec_digits (int n - 1)))"

definition numToString :: "js_number \<Rightarrow> jstring" where
  "numToString n =
     (case n of NaN \<Rightarrow> lit ''NaN'' | PosInf \<Rightarrow> lit ''Infinity'' | NegInf \<Rightarrow> lit ''-Infinity''
      | Fin q \<Rightarrow> (if q < 0 then lit ''-'' @ nat_to_string \<lfloor>- q\<rfloor> else nat_to_string \<lfloor>q\<rfloor>))"

section \<open>Date.UTC\<close>

definition day_from_year :: "int \<Rightarrow> int" where
  "day_from_year y = 365 * (y - 1970) + (y - 1969) div 4 - (y - 1901) div 100 + (y - 1601) div 400"

definition leap_year :: "int \<Rightarrow> bool" where
  "leap_year y \<longleftrightarrow> (y mod 4 = 0 \<and> y mod 100 \<noteq> 0) \<or> y mod 400 = 0"

definition month_start :: "int \<Rightarrow> int \<Rightarrow> int" where
  "month_start y m =
     [0, 31, 59, 90, 120, 151, 181, 212, 243, 273, 304, 334] ! nat m
       + (if leap_year y \<and> 2 \<le> m then 1 else 0)"

definition make_day :: "int \<Rightarrow> int \<Rightarrow> int \<Rightarrow> int" where
  "make_day y m d =
     (let ym = y + m div 12; mn = m mod 12 in day_from_year ym + month_start ym mn + d - 1)"

definition toIntegerOrInfinity :: "rat \<Rightarrow> int" where
  "toIntegerOrInfinity q = (if q < 0 then - \<lfloor>- q\<rfloor> else \<lfloor>q\<rfloor>)"

definition dateUTC :: "js_number \<Rightarrow> js_number \<Rightarrow> js_number \<Rightarrow> int option" where
  "dateUTC y m d =
     (case (y, m, d) of
        (Fin yq, Fin mq, Fin dq) \<Rightarrow>
          (let yi = toIntegerOrInfinity yq; yr = (if 0 \<le> yi \<and> yi \<le> 99 then 1900 + yi else yi);
               ms = make_day yr (toIntegerOrInfinity mq) (toIntegerOrInfinity dq) * 86400000
           in if \<bar>ms\<bar> \<le> 8640000000000000 then Some ms else None)
      | _ \<Rightarrow> None)"

section \<open>Rounding is exact on safe integers\<close>

lemma ilog2_bounds: "1 \<le> n \<Longrightarrow> 0 \<le> ilog2 n \<and> 2 ^ nat (ilog2 n) \<le> n \<and> n < 2 * 2 ^ nat (ilog2 n)"
proof (induction n rule: ilog2.induct)
  case (1 n)
  show ?case
  proof (cases "n < 2")
    case True
    with 1 show ?thesis by (simp add: ilog2.simps [of n])
  next
    case False
    then have IH: "0 \<le> ilog2 (n div 2) \<and> 2 ^ nat (ilog2 (n div 2)) \<le> n div 2
        \<and> n div 2 < 2 * 2 ^ nat (ilog2 (n div 2))" using 1 by simp
    from False have e: "ilog2 n = 1 + ilog2 (n div 2)" by (simp add: ilog2.simps [of n])
    from IH have "nat (1 + ilog2 (n div 2)) = Suc (nat (ilog2 (n div 2)))"
      by (simp add: Suc_nat_eq_nat_zadd1)
    moreover have "2 * (n div 2) \<le> n" "n < 2 * (n div 2) + 2" by simp_all
    moreover have "n div 2 + 1 \<le> 2 * 2 ^ nat (ilog2 (n div 2))" using IH by linarith
    ultimately show ?thesis using e IH by (auto simp del: minus_mod_eq_mult_div)
  qed
qed

lemma ilog2_one [simp]: "ilog2 1 = 0"
  by (simp add: ilog2.simps)

lemma quotient_of_of_int: "quotient_of (of_int n) = (n, 1)"
  by (metis Rat.of_int_def quotient_of_int)

lemma floor_log2_int: "1 \<le> n \<Longrightarrow> floor_log2 (of_int n) = ilog2 n"
proof -
  assume n: "1 \<le> n"
  then have b: "0 \<le> ilog2 n" "2 ^ nat (ilog2 n) \<le> n" using ilog2_bounds by auto
  have "(2::rat) powi ilog2 n = of_int (2 ^ nat (ilog2 n))" using b by (simp add: power_int_def)
  also have "\<dots> \<le> of_int n" using b(2) by (simp only: of_int_le_iff)
  finally show ?thesis by (simp add: floor_log2_def quotient_of_of_int)
qed

lemma round_half_even_int [simp]: "round_half_even (of_int n) = n"
  by (simp add: round_half_even_def)

lemma ilog2_less: assumes "1 \<le> n" "n < 2 ^ k" shows "ilog2 n < int k"
proof -
  have b: "0 \<le> ilog2 n" "2 ^ nat (ilog2 n) \<le> n" using ilog2_bounds assms(1) by auto
  with assms(2) have "(2::int) ^ nat (ilog2 n) < 2 ^ k" by linarith
  then have "nat (ilog2 n) < k" by simp
  with b(1) show ?thesis by linarith
qed

lemma round_pos_small_int: assumes "1 \<le> n" "n < 2 ^ 53" shows "round_pos (of_int n) = of_int n"
proof -
  let ?u = "max (ilog2 n - 52) (- 1074)"
  have l: "ilog2 n < 53" using ilog2_less [OF assms(1), of 53] assms(2) by simp
  have u: "?u \<le> 0" using l by simp
  have e: "(of_int n :: rat) / 2 powi ?u = of_int (n * 2 ^ nat (- ?u))"
    using u by (simp add: power_int_def field_simps)
  have "of_int (n * 2 ^ nat (- ?u)) * (2::rat) powi ?u = of_int n"
    using e by (metis nonzero_mult_div_cancel_left power_int_eq_0_iff times_divide_eq_left zero_neq_numeral mult.commute)
  then show ?thesis using assms(1) by (simp add: round_pos_def floor_log2_int Let_def e del: of_int_mult of_int_power)
qed

lemma round_double_small_nat:
  assumes "0 \<le> n" "n < 2 ^ 53" shows "round_double (of_int n) = Fin (of_int n)"
proof (cases "n = 0")
  case False
  with assms have "1 \<le> n" by simp
  moreover have "ilog2 n < 53" using ilog2_less [of n 53] assms(2) calculation by simp
  ultimately show ?thesis using assms by (simp add: round_double_def round_pos_small_int floor_log2_int)
qed (simp add: round_double_def)


lemma round_pos_large:
  assumes "2 ^ 53 \<le> n" shows "2 ^ 53 \<le> round_pos (of_int n)"
proof -
  have n1: "1 \<le> n" using assms by simp
  let ?l = "ilog2 n"
  have b: "0 \<le> ?l" "2 ^ nat ?l \<le> n" "n < 2 * 2 ^ nat ?l" using ilog2_bounds [OF n1] by auto
  have "(2::int) ^ 53 < 2 ^ Suc (nat ?l)" using assms b(3) by simp
  then have l53: "53 \<le> nat ?l" using power_less_imp_less_exp [of "2::int" 53 "Suc (nat ?l)"] by simp
  then have u: "max (?l - 52) (- 1074) = ?l - 52" by simp
  have p: "(2::rat) powi (?l - 52) = 2 ^ (nat ?l - 52)"
    using l53 by (simp add: power_int_def nat_diff_distrib)
  have split52: "(2::rat) ^ 52 * 2 ^ (nat ?l - 52) = 2 ^ nat ?l"
    using l53 by (simp only: flip: power_add) simp
  have "(2::rat) ^ nat ?l \<le> of_int n" using b(2) by (metis of_int_le_iff of_int_numeral of_int_power)
  then have "(2::rat) ^ 52 \<le> of_int n / 2 ^ (nat ?l - 52)"
    unfolding split52 [symmetric] by (simp only: pos_le_divide_eq zero_less_power zero_less_numeral)
  then have "(2::int) ^ 52 \<le> \<lfloor>of_int n / (2::rat) ^ (nat ?l - 52)\<rfloor>" by (simp add: le_floor_iff)
  then have r: "(2::int) ^ 52 \<le> round_half_even (of_int n / 2 ^ (nat ?l - 52))"
    by (auto simp: round_half_even_def Let_def)
  have "(2::rat) ^ 53 \<le> 2 ^ 52 * 2 ^ (nat ?l - 52)"
  proof -
    have "(2::rat) ^ 53 \<le> 2 ^ nat ?l" using l53 by (intro power_increasing) simp_all
    then show ?thesis unfolding split52 .
  qed
  also have "\<dots> \<le> of_int (round_half_even (of_int n / 2 ^ (nat ?l - 52))) * 2 ^ (nat ?l - 52)"
    using r by (intro mult_right_mono) (simp_all add: le_of_int_ceiling)
  finally show ?thesis using n1 by (simp add: round_pos_def floor_log2_int u p Let_def)
qed

lemma denotes_exact:
  assumes "denotes s p v" "0 \<le> s" "0 \<le> v" "v < 2 ^ 53" shows "s * 10 ^ p = v"
proof (cases "s * 10 ^ p < 2 ^ 53")
  case True
  have "0 \<le> s * 10 ^ p" using assms(2) by simp
  with True have "round_double (of_int (s * 10 ^ p)) = Fin (of_int (s * 10 ^ p))"
    by (intro round_double_small_nat)
  with assms(1) have "(of_int (s * 10 ^ p) :: rat) = of_int v" unfolding denotes_def by simp
  then show ?thesis by (simp only: of_int_eq_iff)
next
  case False
  then have ge: "2 ^ 53 \<le> s * 10 ^ p" by simp
  then have "2 ^ 53 \<le> round_pos (of_int (s * 10 ^ p))" by (rule round_pos_large)
  moreover have "(0::rat) < of_int (s * 10 ^ p)" 
  proof -
    have "(0::int) < 2 ^ 53" by simp
    with ge have "0 < s * 10 ^ p" by (rule less_le_trans [rotated])
    then show ?thesis by (simp only: of_int_0_less_iff)
  qed
  ultimately have "round_double (of_int (s * 10 ^ p)) \<noteq> Fin (of_int v)"
  proof -
    have "(of_int v :: rat) < 2 ^ 53" using assms(4) by (metis of_int_less_iff of_int_numeral of_int_power)
    with \<open>2 ^ 53 \<le> round_pos (of_int (s * 10 ^ p))\<close> \<open>(0::rat) < of_int (s * 10 ^ p)\<close>
    show ?thesis unfolding round_double_def by (auto simp: Let_def simp del: of_int_mult of_int_power)
  qed
  with assms(1) show ?thesis by (simp add: denotes_def)
qed

lemma candidate_exact:
  "candidate p v = Some s \<Longrightarrow> 0 \<le> v \<Longrightarrow> v < 2 ^ 53 \<Longrightarrow> 0 \<le> s \<and> s * 10 ^ p = v"
proof -
  assume c: "candidate p v = Some s" and v: "0 \<le> v" "v < 2 ^ 53"
  have lo: "0 \<le> v div 10 ^ p" using v by (simp add: pos_imp_zdiv_nonneg_iff)
  from c have "(s = v div 10 ^ p \<or> s = v div 10 ^ p + 1) \<and> denotes s p v"
    by (auto simp: candidate_def Let_def split: if_splits)
  with lo v denotes_exact [of s p v] show ?thesis by auto
qed

lemma shortest_exact: "0 \<le> v \<Longrightarrow> v < 2 ^ 53 \<Longrightarrow> shortest k v = (s, p) \<Longrightarrow> 0 \<le> s \<and> s * 10 ^ p = v"
proof (induction k)
  case (Suc k)
  then show ?case using candidate_exact [of "Suc k" v] by (auto split: option.splits)
qed simp

section \<open>Decimal digits print and parse back\<close>

lemma digit_unit [simp]:
  assumes "0 \<le> k" "k < 10"
  shows "is_digit (of_int (48 + k))" and "digit_val (of_int (48 + k)) = k"
proof -
  have u: "uint (of_int (48 + k) :: unit16) = 48 + k"
    using assms by (simp add: unsigned_of_int take_bit_int_eq_self del: of_int_add)
  show "is_digit (of_int (48 + k))" using assms u by (simp add: is_digit_def word_le_def)
  show "digit_val (of_int (48 + k)) = k" using u by (simp add: digit_val_def)
qed

lemma dec_val_snoc: "dec_val (xs @ [c]) = 10 * dec_val xs + digit_val c"
  by (simp add: dec_val_def)

lemma dec_digits_spec:
  "0 \<le> n \<Longrightarrow> dec_digits n \<noteq> [] \<and> list_all is_digit (dec_digits n) \<and> dec_val (dec_digits n) = n"
proof (induction n rule: dec_digits.induct)
  case (1 n)
  show ?case
  proof (cases "n < 10")
    case True
    with 1 show ?thesis by (simp add: dec_digits.simps [of n] dec_val_def del: of_int_add)
  next
    case False
    with 1 have IH: "list_all is_digit (dec_digits (n div 10))" "dec_val (dec_digits (n div 10)) = n div 10"
      by simp_all
    have m: "0 \<le> n mod 10" "n mod 10 < 10" by simp_all
    show ?thesis using False IH digit_unit [OF m]
      by (simp add: dec_digits.simps [of n] dec_val_snoc del: of_int_add digit_unit)
  qed
qed

lemma dec_digits_times_10: "0 < s \<Longrightarrow> dec_digits (s * 10) = dec_digits s @ [48]"
  by (simp add: dec_digits.simps [of "s * 10"])

lemma dec_digits_pow10: "0 < s \<Longrightarrow> dec_digits (s * 10 ^ p) = dec_digits s @ replicate p 48"
proof (induction p)
  case (Suc p)
  have "dec_digits (s * 10 ^ Suc p) = dec_digits ((s * 10 ^ p) * 10)" by (simp add: mult_ac)
  also have "\<dots> = dec_digits (s * 10 ^ p) @ [48]" using Suc.prems by (intro dec_digits_times_10) simp
  also have "\<dots> = dec_digits s @ replicate (Suc p) 48" using Suc by (simp add: replicate_append_same)
  finally show ?case .
qed simp

lemma length_dec_digits: "0 \<le> n \<Longrightarrow> n < 10 ^ k \<Longrightarrow> 0 < k \<Longrightarrow> length (dec_digits n) \<le> k"
proof (induction n arbitrary: k rule: dec_digits.induct)
  case (1 n)
  show ?case
  proof (cases "n < 10")
    case True
    with 1 show ?thesis by (simp add: dec_digits.simps [of n])
  next
    case False
    with 1 obtain j where k: "k = Suc j" by (cases k) auto
    with False 1 have "0 < j" by (cases j) auto
    moreover have "n div 10 < 10 ^ j" using 1 k by (simp add: int_div_less_self less_mult_imp_div_less mult.commute)
    ultimately have "length (dec_digits (n div 10)) \<le> j" using 1 False by simp
    with False k show ?thesis by (simp add: dec_digits.simps [of n])
  qed
qed

lemma nat_to_string_small: assumes "0 \<le> v" "v < 2 ^ 53" shows "nat_to_string v = dec_digits v"
proof (cases "v = 0")
  case True
  then show ?thesis by (simp add: nat_to_string_def dec_digits.simps)
next
  case False
  obtain s p where sp: "shortest (length (dec_digits v)) v = (s, p)" by fastforce
  with assms have e: "0 \<le> s" "s * 10 ^ p = v" using shortest_exact by auto
  with False have s: "0 < s" by (cases "s = 0") auto
  from e(2) s have d: "dec_digits v = dec_digits s @ replicate p 48" using dec_digits_pow10 by metis
  have "length (dec_digits v) \<le> 16" using assms by (intro length_dec_digits) simp_all
  with d have "length (dec_digits s) + p \<le> 21" by simp
  with False sp d show ?thesis by (simp add: nat_to_string_def)
qed

lemma numToString_small: "0 \<le> v \<Longrightarrow> v < 2 ^ 53 \<Longrightarrow> numToString (Fin (of_int v)) = dec_digits v"
  by (simp add: numToString_def nat_to_string_small)

lemma digit_not_space: "is_digit c \<Longrightarrow> \<not> is_space c"
  by (auto simp: is_digit_def is_space_def word_le_def)

lemma trim_digits: "list_all is_digit s \<Longrightarrow> trim s = s"
  by (rule trimmed_fixpoint) (auto simp: trimmed_def list_all_iff digit_not_space)

lemma str_decimal_digits:
  assumes "list_all is_digit s" "s \<noteq> []" shows "str_decimal s = round_double (of_int (dec_val s))"
proof -
  obtain c cs where s: "s = c # cs" using assms(2) by (cases s) auto
  have c: "c \<noteq> 45" "c \<noteq> 43" "s \<noteq> lit ''Infinity''"
    using assms(1) s by (auto simp: is_digit_def lit_def)
  have t: "takeWhile is_digit s = s" "dropWhile is_digit s = []"
    using assms(1) by (auto simp: list_all_iff)
  have "unsigned_decimal s = Some (of_int (dec_val s))"
    using assms(2) unfolding unsigned_decimal_def Let_def t by (simp add: exponent_part_def)
  with c s show ?thesis by (simp add: str_decimal_def)
qed

lemma toNumber_digits:
  assumes "list_all is_digit s" "s \<noteq> []" shows "toNumber s = round_double (of_int (dec_val s))"
proof -
  have "toNumber s = str_decimal s"
    using assms trim_digits [OF assms(1)]
    by (auto simp: toNumber_def Let_def is_digit_def split: list.split)
  with assms show ?thesis by (simp add: str_decimal_digits)
qed

lemma toNumber_dec_digits: "0 \<le> n \<Longrightarrow> n < 2 ^ 53 \<Longrightarrow> toNumber (dec_digits n) = Fin (of_int n)"
  using dec_digits_spec [of n] by (simp add: toNumber_digits round_double_small_nat)

section \<open>Rounding above 2 ^ 53\<close>

lemma round_pos_between:
  assumes "2 ^ 53 \<le> n" "n < 2 ^ 54" shows "round_pos (of_int n) = of_int (2 * round_half_even (of_int n / 2))"
proof -
  have n: "1 \<le> n" using assms(1) by simp
  have b: "0 \<le> ilog2 n" "n < 2 * 2 ^ nat (ilog2 n)" using ilog2_bounds [OF n] by auto
  have "(2::int) ^ 53 < 2 ^ Suc (nat (ilog2 n))" using assms(1) b(2) by simp
  then have "53 \<le> nat (ilog2 n)" using power_less_imp_less_exp [of "2::int" 53 "Suc (nat (ilog2 n))"] by simp
  moreover have "ilog2 n < 54" using ilog2_less [OF n, of 54] assms(2) by simp
  ultimately have "ilog2 n = 53" by linarith
  then show ?thesis using n by (simp add: round_pos_def floor_log2_int)
qed

lemma round_double_between:
  assumes "2 ^ 53 \<le> n" "n < 2 ^ 54" "round_half_even (of_int n / 2) = k" "2 * k < 2 ^ 54" "0 < k"
  shows "round_double (of_int n) = Fin (of_int (2 * k))"
proof -
  have r: "round_pos (of_int n) = of_int (2 * k)" using round_pos_between [OF assms(1,2)] assms(3) by (simp only:)
  have f: "floor_log2 (of_int (2 * k)) = ilog2 (2 * k)" using assms(5) by (intro floor_log2_int) simp
  have "ilog2 (2 * k) < 54" using ilog2_less [of "2 * k" 54] assms(4,5) by simp
  then have l: "\<not> 1024 \<le> floor_log2 (of_int (2 * k))" unfolding f by simp
  have p: "(of_int n :: rat) \<noteq> 0" "0 < (of_int n :: rat)" using assms(1) by simp_all
  show ?thesis unfolding round_double_def Let_def r using l p by presburger
qed

text \<open>Neighbours above 2 ^ 53: an odd number is rounded to the neighbour that is a multiple of four.\<close>

definition merged_with :: "int \<Rightarrow> int" where
  "merged_with n = (if n mod 4 = 1 then n - 1 else n + 1)"

lemma round_odd:
  assumes "odd n" "2 ^ 53 < n" "n + 1 < 2 ^ 54"
  shows "round_double (of_int n) = Fin (of_int (merged_with n))"
    and "round_double (of_int (merged_with n)) = Fin (of_int (merged_with n))"
proof -
  let ?m = "merged_with n"
  obtain j where j: "n = 2 * j + 1" using assms(1) by (rule oddE)
  define k where "k = (if even j then j else j + 1)"
  have "(2 * j + 1) mod 4 = 1 \<longleftrightarrow> even j" by presburger
  then have k: "?m = 2 * k" "k = (if even j then j else j + 1)" by (simp_all add: merged_with_def j k_def)
  have half: "of_int n / 2 = (of_int j :: rat) + 1 / 2" "of_int ?m / 2 = (of_int k :: rat)" by (simp add: j add_divide_distrib, simp add: k(1))
  have f: "\<lfloor>of_int j + 1 / (2 :: rat)\<rfloor> = j" by (simp add: floor_eq_iff)
  have "round_half_even (of_int n / 2) = k" unfolding half round_half_even_def Let_def f by (simp add: k(2))
  moreover have "round_half_even (of_int ?m / 2) = k" unfolding half round_half_even_def by simp
  moreover have "2 ^ 53 \<le> ?m" "?m < 2 ^ 54" "0 < k" using assms(2,3) k j by (auto split: if_splits)
  ultimately show "round_double (of_int n) = Fin (of_int ?m)" "round_double (of_int ?m) = Fin (of_int ?m)"
    using round_double_between [of n k] round_double_between [of ?m k] assms(2,3) k(1) by simp_all
qed

lemma toNumber_merged:
  assumes "odd n" "2 ^ 53 < n" "n + 1 < 2 ^ 54"
  shows "toNumber (dec_digits n) = Fin (of_int (merged_with n))" "toNumber (dec_digits (merged_with n)) = Fin (of_int (merged_with n))"
proof -
  have "0 \<le> n" "0 \<le> merged_with n" using assms by (auto simp: merged_with_def)
  then show "toNumber (dec_digits n) = Fin (of_int (merged_with n))" "toNumber (dec_digits (merged_with n)) = Fin (of_int (merged_with n))"
    using dec_digits_spec [of n] dec_digits_spec [of "merged_with n"] round_odd [OF assms] by (simp_all add: toNumber_digits)
qed

end
