(* ===== verification/Proto.thy ===== *)
theory Proto
  imports JsNumber
begin

text \<open>
  The protobuf writer the wallet's message codecs call: \<open>_m0.Writer\<close>, \<open>_m0.util.LongBits\<close>,
  \<open>_m0.util.utf8\<close> and \<open>Long\<close> of \<open>static/wallet-deps.bundle.mjs\<close> (protobufjs minimal and long.js in
  minified form; the exported writer is the class \<open>oo\<close>, the 64-bit halves are \<open>ja\<close>).

  The writer queues operations, each a function that will write some bytes and the length it
  announces; \<open>finish\<close> allocates the sum of the announced lengths and lets every operation write at
  its offset. The announced lengths come from separate routines (\<open>LongBits_length\<close>,
  \<open>utf8_length\<close>, the ladder in \<open>uint32\<close>), and the theory proves that they agree with what is
  written, so that \<open>finish\<close> is the plain concatenation, and that the two-halves varint loop
  computes the base-128 expansion \<open>varint\<close> of the 64-bit value.

  The methods are polymorphic in the record's extension: the second writer of the bundle (theory
  \<open>Binary\<close>) has the same queue, \<open>uint32\<close> and \<open>string\<close>, and more state.
\<close>

type_synonym byte = "8 word"
type_synonym u32 = "32 word"
type_synonym long = "64 word"

section \<open>Long\<close>

definition long_MAX :: long where "long_MAX = 9223372036854775807"
definition long_MIN :: long where "long_MIN = 9223372036854775808"

definition Long_fromNumber :: "js_number \<Rightarrow> long" where
  "Long_fromNumber n =
     (case n of NaN \<Rightarrow> 0 | PosInf \<Rightarrow> long_MAX | NegInf \<Rightarrow> long_MIN
      | Fin q \<Rightarrow> if q \<le> - (2 ^ 63) then long_MIN
                 else if num_le (Fin (2 ^ 63)) (num_plus_int n 1) then long_MAX
                 else if q < 0 then - of_int \<lfloor>- q\<rfloor> else of_int \<lfloor>q\<rfloor>)"

text \<open>\<open>Long.fromValue\<close> takes a number or a Long.\<close>

datatype long_arg = LNum js_number | LLong long

definition Long_fromValue :: "long_arg \<Rightarrow> long" where
  "Long_fromValue v = (case v of LNum n \<Rightarrow> Long_fromNumber n | LLong l \<Rightarrow> l)"

section \<open>The queue of operations\<close>

record writer =
  ops :: "(byte list \<times> nat) list"
  wlen :: nat

definition create :: writer where
  "create = \<lparr>ops = [], wlen = 0\<rparr>"

definition push :: "byte list \<Rightarrow> nat \<Rightarrow> 'a writer_scheme \<Rightarrow> 'a writer_scheme" where
  "push bs n w = w\<lparr>ops := ops w @ [(bs, n)], wlen := wlen w + n\<rparr>"

fun write_at :: "byte list \<Rightarrow> nat \<Rightarrow> byte list \<Rightarrow> byte list" where
  "write_at buf i [] = buf"
| "write_at buf i (b # bs) = write_at (buf[i := b]) (Suc i) bs"

fun run_ops :: "(byte list \<times> nat) list \<Rightarrow> nat \<Rightarrow> byte list \<Rightarrow> byte list" where
  "run_ops [] i buf = buf"
| "run_ops ((bs, n) # xs) i buf = run_ops xs (i + n) (write_at buf i bs)"

definition finish :: "'a writer_scheme \<Rightarrow> byte list" where
  "finish w = run_ops (ops w) 0 (replicate (wlen w) 0)"

section \<open>Varints\<close>

function writeVarint32 :: "u32 \<Rightarrow> byte list" where
  "writeVarint32 e =
     (if 127 < e then ucast (e AND 127 OR 128) # writeVarint32 (drop_bit 7 e) else [ucast e])"
  by pat_completeness auto
termination
proof (relation "measure unat")
  fix e :: u32
  assume "127 < e"
  then have "127 < unat e" by (simp add: word_less_nat_alt)
  then show "(drop_bit 7 e, e) \<in> measure unat"
    by (simp add: drop_bit_eq_div unat_div)
qed simp

text \<open>A 64-bit value as two unsigned 32-bit halves.\<close>

record longbits =
  lo :: u32
  hi :: u32

definition LongBits_from :: "long \<Rightarrow> longbits" where
  "LongBits_from v = \<lparr>lo = ucast v, hi = ucast (drop_bit 32 v)\<rparr>"

definition LongBits_fromNumber :: "int \<Rightarrow> longbits" where
  "LongBits_fromNumber t =
     (if t = 0 then \<lparr>lo = 0, hi = 0\<rparr>
      else let a = \<bar>t\<bar>; f = of_int a; c = of_int (a div 4294967296)
           in if t < 0 then \<lparr>lo = NOT f + 1, hi = (if NOT f + 1 = 0 then NOT c + 1 else NOT c)\<rparr>
              else \<lparr>lo = f, hi = c\<rparr>)"

definition LongBits_length :: "longbits \<Rightarrow> nat" where
  "LongBits_length b =
     (let t = lo b; i = drop_bit 28 (lo b) OR push_bit 4 (hi b); f = drop_bit 24 (hi b)
      in if f = 0 then
           (if i = 0 then (if t < 16384 then (if t < 128 then 1 else 2) else if t < 2097152 then 3 else 4)
            else if i < 16384 then (if i < 128 then 5 else 6) else if i < 2097152 then 7 else 8)
         else if f < 128 then 9 else 10)"

function writeVarint64 :: "longbits \<Rightarrow> byte list" where
  "writeVarint64 b =
     (if hi b \<noteq> 0 then
        ucast (lo b AND 127 OR 128)
          # writeVarint64 \<lparr>lo = drop_bit 7 (lo b) OR push_bit 25 (hi b), hi = drop_bit 7 (hi b)\<rparr>
      else writeVarint32 (lo b))"
  by pat_completeness auto
termination
proof (relation "measure (\<lambda>b. unat (hi b))")
  fix b :: longbits
  assume "hi b \<noteq> 0"
  then have "0 < unat (hi b)" by (simp add: unat_gt_0)
  then show "(\<lparr>lo = drop_bit 7 (lo b) OR push_bit 25 (hi b), hi = drop_bit 7 (hi b)\<rparr>, b)
      \<in> measure (\<lambda>b. unat (hi b))"
    by (simp add: drop_bit_eq_div unat_div)
qed simp

declare writeVarint32.simps [simp del] writeVarint64.simps [simp del]

section \<open>UTF-8\<close>

definition is_high_surrogate :: "unit16 \<Rightarrow> bool" where
  "is_high_surrogate c \<longleftrightarrow> c AND 64512 = 55296"

definition is_low_surrogate :: "unit16 \<Rightarrow> bool" where
  "is_low_surrogate c \<longleftrightarrow> c AND 64512 = 56320"

fun utf8_length :: "jstring \<Rightarrow> nat" where
  "utf8_length [] = 0"
| "utf8_length (c # cs) =
     (if c < 128 then 1 + utf8_length cs
      else if c < 2048 then 2 + utf8_length cs
      else (case cs of
              d # ds \<Rightarrow> if is_high_surrogate c \<and> is_low_surrogate d then 4 + utf8_length ds
                        else 3 + utf8_length cs
            | [] \<Rightarrow> 3 + utf8_length cs))"

definition utf8_two :: "unit16 \<Rightarrow> byte list" where
  "utf8_two c = [ucast (drop_bit 6 c OR 192), ucast (c AND 63 OR 128)]"

definition utf8_three :: "unit16 \<Rightarrow> byte list" where
  "utf8_three c = [ucast (drop_bit 12 c OR 224), ucast (drop_bit 6 c AND 63 OR 128), ucast (c AND 63 OR 128)]"

definition utf8_four :: "unit16 \<Rightarrow> unit16 \<Rightarrow> byte list" where
  "utf8_four c d =
     (let l = 65536 + push_bit 10 (ucast (c AND 1023)) + ucast (d AND 1023) :: u32
      in [ucast (drop_bit 18 l OR 240), ucast (drop_bit 12 l AND 63 OR 128),
          ucast (drop_bit 6 l AND 63 OR 128), ucast (l AND 63 OR 128)])"

fun utf8_write :: "jstring \<Rightarrow> byte list" where
  "utf8_write [] = []"
| "utf8_write (c # cs) =
     (if c < 128 then ucast c # utf8_write cs
      else if c < 2048 then utf8_two c @ utf8_write cs
      else (case cs of
              d # ds \<Rightarrow> if is_high_surrogate c \<and> is_low_surrogate d then utf8_four c d @ utf8_write ds
                        else utf8_three c @ utf8_write cs
            | [] \<Rightarrow> utf8_three c @ utf8_write cs))"

section \<open>The writer's methods\<close>

definition varint32_len :: "u32 \<Rightarrow> nat" where
  "varint32_len t =
     (if t < 128 then 1 else if t < 16384 then 2 else if t < 2097152 then 3
      else if t < 268435456 then 4 else 5)"

definition uint32 :: "u32 \<Rightarrow> 'a writer_scheme \<Rightarrow> 'a writer_scheme" where
  "uint32 t = push (writeVarint32 t) (varint32_len t)"

definition int32 :: "int \<Rightarrow> 'a writer_scheme \<Rightarrow> 'a writer_scheme" where
  "int32 t = (if t < 0 then push (writeVarint64 (LongBits_fromNumber t)) 10 else uint32 (of_int t))"

definition int64 :: "long \<Rightarrow> 'a writer_scheme \<Rightarrow> 'a writer_scheme" where
  "int64 v = (let b = LongBits_from v in push (writeVarint64 b) (LongBits_length b))"

definition string :: "jstring \<Rightarrow> 'a writer_scheme \<Rightarrow> 'a writer_scheme" where
  "string s w =
     (let i = utf8_length s
      in if i \<noteq> 0 then push (utf8_write s) i (uint32 (of_nat i) w) else push [0] 1 w)"

section \<open>The base-128 expansion\<close>

text \<open>The reference: least significant group first, the high bit marks continuation.\<close>

function varint :: "int \<Rightarrow> byte list" where
  "varint n = (if n < 128 then [of_int n] else of_int (n mod 128 + 128) # varint (n div 128))"
  by pat_completeness auto
termination
  by (relation "measure nat") auto

declare varint.simps [simp del]

definition longbits_val :: "longbits \<Rightarrow> int" where
  "longbits_val b = uint (lo b) + 4294967296 * uint (hi b)"

section \<open>finish concatenates\<close>

definition wf_writer :: "'a writer_scheme \<Rightarrow> bool" where
  "wf_writer w \<longleftrightarrow> list_all (\<lambda>(bs, n). length bs = n) (ops w) \<and> wlen w = sum_list (map snd (ops w))"

definition bytes_of :: "'a writer_scheme \<Rightarrow> byte list" where
  "bytes_of w = concat (map fst (ops w))"

lemma write_at_middle:
  "length mid = length bs \<Longrightarrow> write_at (pre @ mid @ post) (length pre) bs = pre @ bs @ post"
proof (induction bs arbitrary: pre mid)
  case (Cons b bs)
  then obtain m ms where m: "mid = m # ms" "length ms = length bs" by (cases mid) auto
  have "write_at (pre @ mid @ post) (length pre) (b # bs)
      = write_at ((pre @ [b]) @ ms @ post) (length (pre @ [b])) bs" using m by simp
  also have "\<dots> = (pre @ [b]) @ bs @ post" using m(2) by (rule Cons.IH)
  finally show ?case by simp
qed simp

lemma run_ops_concat:
  "list_all (\<lambda>(bs, n). length bs = n) xs \<Longrightarrow>
   run_ops xs (length pre) (pre @ replicate (sum_list (map snd xs)) 0) = pre @ concat (map fst xs)"
proof (induction xs arbitrary: pre)
  case (Cons x xs)
  obtain bs n where x: "x = (bs, n)" by (cases x)
  with Cons.prems have n: "n = length bs" and ok: "list_all (\<lambda>(bs, n). length bs = n) xs" by auto
  let ?post = "replicate (sum_list (map snd xs)) (0::byte)"
  have "write_at (pre @ replicate (length bs) 0 @ ?post) (length pre) bs = pre @ bs @ ?post"
    by (rule write_at_middle) simp
  with x n Cons.IH [OF ok, of "pre @ bs"] show ?case by (simp add: replicate_add)
qed simp

lemma finish_bytes_of: "wf_writer w \<Longrightarrow> finish w = bytes_of w"
  using run_ops_concat [of "ops w" "[]"] by (simp add: wf_writer_def finish_def bytes_of_def)

lemma wf_create [simp]: "wf_writer create" "bytes_of create = []"
  by (simp_all add: wf_writer_def create_def bytes_of_def)

lemma wf_push: "wf_writer w \<Longrightarrow> length bs = n \<Longrightarrow> wf_writer (push bs n w)"
  by (simp add: wf_writer_def push_def)

lemma bytes_of_push [simp]: "bytes_of (push bs n w) = bytes_of w @ bs"
  by (simp add: bytes_of_def push_def)

section \<open>The varint loops compute the base-128 expansion\<close>

lemma take_bit_or_exp: "take_bit n x OR 2 ^ n = take_bit n x + 2 ^ n" for x :: "'a::len word"
proof -
  have "take_bit n x AND 2 ^ n = 0"
    by (rule bit_word_eqI) (simp add: bit_and_iff bit_take_bit_iff bit_exp_iff)
  then show ?thesis by (simp add: disjunctive_add_eq_or)
qed

lemma low7: "(ucast (e AND 127 OR 128) :: byte) = of_int (uint e mod 128 + 128)" for e :: u32
proof -
  have a: "e AND 127 = take_bit 7 e"
    by (simp add: take_bit_eq_mask mask_eq_exp_minus_1)
  have "e AND 127 OR 128 = take_bit 7 e + 128" using a take_bit_or_exp [of 7 e] by simp
  moreover have "uint (take_bit 7 e) = uint e mod 128" by (simp add: take_bit_eq_mod uint_mod)
  moreover have "uint (take_bit 7 e + 128) = uint e mod 128 + 128"
    using calculation(2) by (simp add: uint_word_ariths)
  ultimately show ?thesis by (metis ucast_eq)
qed

lemma writeVarint32_varint: "writeVarint32 e = varint (uint e)"
proof (induction e rule: writeVarint32.induct)
  case (1 e)
  show ?case
  proof (cases "127 < e")
    case True
    then have "\<not> uint e < 128" by (simp add: word_less_def)
    moreover have "uint (drop_bit 7 e) = uint e div 128"
      by (simp add: drop_bit_eq_div uint_div)
    ultimately show ?thesis using 1 True
      by (simp add: writeVarint32.simps [of e] varint.simps [of "uint e"] low7 del: of_int_add)
  next
    case False
    then have "uint e < 128" by (simp add: word_less_def)
    then show ?thesis using False
      by (simp add: writeVarint32.simps [of e] varint.simps [of "uint e"])
  qed
qed

lemma div_less_iff_mult: "0 < c \<Longrightarrow> n div c < m \<longleftrightarrow> n < c * m" for n c m :: int
proof -
  assume c: "0 < c"
  then have d: "n = c * (n div c) + n mod c" "0 \<le> n mod c" "n mod c < c" by simp_all
  show "n div c < m \<longleftrightarrow> n < c * m"
  proof
    assume "n div c < m"
    then have "c * (n div c + 1) \<le> c * m" using c by (intro mult_left_mono) simp_all
    with d show "n < c * m" unfolding distrib_left by linarith
  next
    assume "n < c * m"
    with d have "c * (n div c) < c * m" by linarith
    with c show "n div c < m" by simp
  qed
qed

lemma length_varint_pos: "0 < length (varint n)"
  by (subst varint.simps) simp

lemma length_varint_le: "0 \<le> n \<Longrightarrow> 0 < k \<Longrightarrow> length (varint n) \<le> k \<longleftrightarrow> n < 128 ^ k"
proof (induction n arbitrary: k rule: varint.induct)
  case (1 n)
  obtain j where k: "k = Suc j" using 1 by (cases k) auto
  show ?case
  proof (cases "n < 128")
    case True
    have "(128::int) ^ 1 \<le> 128 ^ k" using k by (intro power_increasing) simp_all
    with True have "n < 128 ^ k" unfolding power_one_right by linarith
    with True 1(3) show ?thesis by (simp add: varint.simps [of n])
  next
    case False
    show ?thesis
    proof (cases j)
      case 0
      with False k length_varint_pos [of "n div 128"] show ?thesis
        by (simp add: varint.simps [of n])
    next
      case (Suc i)
      with 1 False have "length (varint (n div 128)) \<le> j \<longleftrightarrow> n div 128 < 128 ^ j" by simp
      also have "\<dots> \<longleftrightarrow> n < 128 ^ k" unfolding k power_Suc by (simp add: div_less_iff_mult)
      finally show ?thesis using False k by (simp add: varint.simps [of n])
    qed
  qed
qed

lemma length_varint_eq:
  assumes "0 \<le> n" "0 < k" "n < 128 ^ Suc k" "128 ^ k \<le> n" shows "length (varint n) = Suc k"
  using length_varint_le [of n "Suc k"] length_varint_le [of n k] assms by simp

lemma varint32_len_correct: "varint32_len t = length (varint (uint t))"
proof -
  have b: "uint t < 4294967296" using uint_lt2p [of t] by simp
  have "length (varint (uint t)) \<le> 1 \<longleftrightarrow> uint t < 128" "length (varint (uint t)) \<le> 2 \<longleftrightarrow> uint t < 16384"
    "length (varint (uint t)) \<le> 3 \<longleftrightarrow> uint t < 2097152" "length (varint (uint t)) \<le> 4 \<longleftrightarrow> uint t < 268435456"
    "length (varint (uint t)) \<le> 5"
    using length_varint_le [of "uint t" 1] length_varint_le [of "uint t" 2] length_varint_le [of "uint t" 3]
      length_varint_le [of "uint t" 4] length_varint_le [of "uint t" 5] b by auto
  moreover have "1 \<le> length (varint (uint t))" using length_varint_pos [of "uint t"] by linarith
  ultimately show ?thesis unfolding varint32_len_def word_less_def by (simp split: if_splits) linarith
qed


lemma uint_drop_bit_div: "uint (drop_bit j l) = uint l div 2 ^ j" for l :: "'a::len word"
  unfolding unsigned_drop_bit_eq by (simp add: drop_bit_eq_div take_bit_eq_mod)

lemma word_or_add: "a AND b = 0 \<Longrightarrow> a OR b = a + b" for a b :: "'a::len word"
  by (simp add: disjunctive_add_eq_or)

lemma funnel:
  fixes l h :: u32
  assumes k: "j + k = 32"
  shows "uint (drop_bit j l OR push_bit k h) = (uint l + 4294967296 * uint h) div 2 ^ j mod 4294967296"
proof -
  have d: "drop_bit j l AND push_bit k h = 0"
    by (rule bit_word_eqI) (use k in \<open>auto simp: bit_and_iff bit_push_bit_iff bit_drop_bit_eq dest: bit_imp_le_length\<close>)
  have p: "(4294967296::int) = 2 ^ j * 2 ^ k" using k by (simp flip: power_add)
  have b: "uint (push_bit k h) = uint h * 2 ^ k mod 4294967296"
    unfolding unsigned_push_bit_eq by (simp add: take_bit_eq_mod push_bit_eq_mult)
  have "uint (drop_bit j l OR push_bit k h) = (uint l div 2 ^ j + uint h * 2 ^ k mod 4294967296) mod 4294967296"
    using d by (simp add: word_or_add uint_word_ariths uint_drop_bit_div b del: mod_add_right_eq)
  also have "\<dots> = (uint l div 2 ^ j + uint h * 2 ^ k) mod 4294967296" by (rule mod_add_right_eq)
  also have "uint l div 2 ^ j + uint h * 2 ^ k = (uint l + 2 ^ j * (2 ^ k * uint h)) div 2 ^ j"
    by simp
  finally show ?thesis by (simp only: p mult.assoc)
qed

lemma longbits_val_bounds: "0 \<le> longbits_val b" "longbits_val b < 2 ^ 64"
  using uint_lt2p [of "lo b"] uint_lt2p [of "hi b"] by (auto simp: longbits_val_def)

lemma longbits_step:
  "longbits_val \<lparr>lo = drop_bit 7 (lo b) OR push_bit 25 (hi b), hi = drop_bit 7 (hi b)\<rparr> = longbits_val b div 128"
proof -
  have h: "uint (drop_bit 7 (hi b)) = uint (hi b) div 128" by (simp add: drop_bit_eq_div uint_div)
  have "longbits_val b div 128 div 4294967296 = longbits_val b div 4294967296 div 128"
    by (simp flip: zdiv_zmult2_eq)
  also have "longbits_val b div 4294967296 = uint (hi b)"
    using uint_lt2p [of "lo b"] by (simp add: longbits_val_def)
  finally show ?thesis using funnel [of 7 25 "lo b" "hi b"] h
      mult_div_mod_eq [of 4294967296 "longbits_val b div 128"]
    by (simp add: longbits_val_def)
qed

lemma writeVarint64_varint: "writeVarint64 b = varint (longbits_val b)"
proof (induction b rule: writeVarint64.induct)
  case (1 b)
  have m: "longbits_val b mod 128 = uint (lo b) mod 128"
  proof -
    have "longbits_val b = uint (lo b) + 128 * (33554432 * uint (hi b))" by (simp add: longbits_val_def)
    then show ?thesis by (simp only: mod_mult_self2)
  qed
  show ?case
  proof (cases "hi b = 0")
    case True
    then show ?thesis by (simp add: writeVarint64.simps [of b] writeVarint32_varint longbits_val_def)
  next
    case False
    then have "0 < uint (hi b)" using uint_ge_0 [of "hi b"] by (simp add: order_less_le uint_0_iff)
    then have "\<not> longbits_val b < 128" using uint_ge_0 [of "lo b"] unfolding longbits_val_def by linarith
    with 1 [OF False] False show ?thesis
      by (simp add: writeVarint64.simps [of b] varint.simps [of "longbits_val b"] low7 m longbits_step
          del: of_int_add)
  qed
qed

lemma LongBits_length_correct: "LongBits_length b = length (varint (longbits_val b))"
proof -
  let ?v = "longbits_val b"
  let ?i = "drop_bit 28 (lo b) OR push_bit 4 (hi b)"
  have f: "uint (drop_bit 24 (hi b)) = ?v div 2 ^ 56"
  proof -
    have "?v div 2 ^ 56 = ?v div 4294967296 div 2 ^ 24" by (simp flip: zdiv_zmult2_eq)
    also have "?v div 4294967296 = uint (hi b)"
      using uint_lt2p [of "lo b"] by (simp add: longbits_val_def)
    finally show ?thesis by (simp only: uint_drop_bit_div)
  qed
  have i: "uint ?i = ?v div 2 ^ 28 mod 4294967296"
    using funnel [of 28 4 "lo b" "hi b"] by (simp add: longbits_val_def)
  have l: "uint (lo b) = ?v mod 4294967296"
    using uint_lt2p [of "lo b"] by (simp add: longbits_val_def)
  have le: "length (varint ?v) \<le> k \<longleftrightarrow> ?v < 128 ^ k" if "0 < k" for k
    using longbits_val_bounds(1) that by (rule length_varint_le)
  have z: "x = 0 \<longleftrightarrow> uint x < 1" for x :: u32
  proof -
    have "x = 0 \<longleftrightarrow> uint x = 0" by (simp add: uint_0_iff)
    with uint_ge_0 [of x] show ?thesis by linarith
  qed
  have pos: "1 \<le> length (varint ?v)" using length_varint_pos [of ?v] by linarith
  show ?thesis
  proof (cases "?v < 2 ^ 56")
    case False
    with le [of 8] le [of 9] le [of 10] longbits_val_bounds(2) [of b] show ?thesis
      unfolding LongBits_length_def Let_def z word_less_def f by (simp add: div_less_iff_mult) linarith
  next
    case True
    then have "?v div 2 ^ 28 < 4294967296" by (simp add: div_less_iff_mult)
    then have i': "uint ?i = ?v div 2 ^ 28" using i longbits_val_bounds(1) [of b] by simp
    show ?thesis
    proof (cases "?v < 2 ^ 28")
      case True
      then have "uint (lo b) = ?v" using l longbits_val_bounds(1) [of b] by simp
      with True le [of 1] le [of 2] le [of 3] le [of 4] pos show ?thesis
        unfolding LongBits_length_def Let_def z word_less_def f i' by (simp add: div_less_iff_mult) linarith
    next
      case False
      with True le [of 4] le [of 5] le [of 6] le [of 7] le [of 8] show ?thesis
        unfolding LongBits_length_def Let_def z word_less_def f i' by (simp add: div_less_iff_mult) linarith
    qed
  qed
qed


lemma longbits_val_from: "longbits_val (LongBits_from v) = uint v"
proof -
  have "uint v div 4294967296 < 4294967296" using uint_lt2p [of v] by (simp add: div_less_iff_mult)
  then have h: "uint v div 4294967296 mod 4294967296 = uint v div 4294967296"
    by (simp add: mod_pos_pos_trivial pos_imp_zdiv_nonneg_iff)
  have "uint (ucast (drop_bit 32 v) :: u32) = uint v div 4294967296"
    by (simp only: unsigned_ucast_eq uint_drop_bit_div take_bit_eq_mod) (simp add: h)
  moreover have "uint (ucast v :: u32) = uint v mod 4294967296"
    by (simp add: unsigned_ucast_eq take_bit_eq_mod)
  ultimately show ?thesis by (simp add: longbits_val_def LongBits_from_def del: drop_bit_eq_div)
qed

lemma longbits_val_fromNumber:
  assumes "- (2 ^ 63) \<le> t" "t < 0"
  shows "longbits_val (LongBits_fromNumber t) = t + 2 ^ 64"
proof -
  define a where "a = - t"
  have a: "0 < a" "a < 2 ^ 64" using assms by (simp_all add: a_def)
  let ?f = "word_of_int a :: u32" and ?c = "word_of_int (a div 4294967296) :: u32"
  have f: "uint ?f = a mod 4294967296" by (simp add: uint_word_of_int)
  have c: "uint ?c = a div 4294967296" using a
    by (simp add: uint_word_of_int mod_pos_pos_trivial div_less_iff_mult pos_imp_zdiv_nonneg_iff)
  have nf: "uint (NOT ?f + 1) = (if a mod 4294967296 = 0 then 0 else 4294967296 - a mod 4294967296)"
    by (simp add: uint_word_ariths f zmod_zminus1_eq_if flip: minus_eq_not_plus_1)
  have nc: "uint (NOT x) = 4294967295 - uint x" for x :: u32
  proof -
    have "uint (- 1 - x) = uint (- 1 :: u32) - uint x"
      using word_n1_ge [of x] by (simp only: uint_minus_simple_alt)
    moreover have "NOT x = - 1 - x" by (simp add: not_eq_complement)
    moreover have "uint (- 1 :: u32) = 4294967295" by (simp add: unsigned_minus_1_eq_mask mask_eq_exp_minus_1)
    ultimately show ?thesis by simp
  qed
  have nc1: "uint (NOT ?c + 1) = (if a div 4294967296 = 0 then 0 else 4294967296 - a div 4294967296)"
    using uint_lt2p [of ?c] uint_ge_0 [of ?c]
    by (simp add: uint_word_ariths c zmod_zminus1_eq_if mod_pos_pos_trivial flip: minus_eq_not_plus_1)
  have z: "NOT ?f + 1 = 0 \<longleftrightarrow> a mod 4294967296 = 0"
    using nf pos_mod_bound [of 4294967296 a] by (simp add: uint_0_iff [symmetric] del: uint_0_iff split: if_splits)
  have d: "a = 4294967296 * (a div 4294967296) + a mod 4294967296" by simp
  have e: "LongBits_fromNumber t = \<lparr>lo = NOT ?f + 1, hi = (if NOT ?f + 1 = 0 then NOT ?c + 1 else NOT ?c)\<rparr>"
    using assms by (simp add: LongBits_fromNumber_def a_def Let_def)
  define q r where "q = a div 4294967296" and "r = a mod 4294967296"
  have t: "t = - (4294967296 * q + r)" "0 < 4294967296 * q + r"
    using d a(1) a_def unfolding q_def r_def by linarith+
  show ?thesis
    unfolding e longbits_val_def longbits.simps z nf c nc if_distrib [of uint] nc1
    unfolding q_def [symmetric] r_def [symmetric] using t by (simp split: if_splits)
qed

section \<open>UTF-8 lengths agree with what is written\<close>

lemma utf8_length_correct: "utf8_length s = length (utf8_write s)"
proof (induction s rule: utf8_length.induct)
  case (2 c cs)
  then show ?case
    by (cases cs) (simp_all add: utf8_two_def utf8_three_def utf8_four_def Let_def)
qed simp

section \<open>The methods append their encodings\<close>

lemma wf_uint32: "wf_writer w \<Longrightarrow> wf_writer (uint32 t w)"
  by (simp add: uint32_def wf_push writeVarint32_varint varint32_len_correct)

lemma bytes_of_uint32 [simp]: "bytes_of (uint32 t w) = bytes_of w @ varint (uint t)"
  by (simp add: uint32_def writeVarint32_varint)

lemma wf_int64: "wf_writer w \<Longrightarrow> wf_writer (int64 v w)"
  by (simp add: int64_def Let_def wf_push writeVarint64_varint LongBits_length_correct)

lemma bytes_of_int64 [simp]: "bytes_of (int64 v w) = bytes_of w @ varint (uint v)"
  by (simp add: int64_def Let_def writeVarint64_varint longbits_val_from)

lemma wf_string: "wf_writer w \<Longrightarrow> wf_writer (string s w)"
  by (simp add: string_def Let_def wf_push wf_uint32 utf8_length_correct)

lemma bytes_of_string:
  assumes "utf8_length s < 2 ^ 32"
  shows "bytes_of (string s w) = bytes_of w @ varint (int (utf8_length s)) @ utf8_write s"
proof -
  have "uint (of_nat (utf8_length s) :: u32) = int (utf8_length s)"
    using assms by (simp add: unsigned_of_nat take_bit_nat_eq_self)
  then show ?thesis
    by (cases "utf8_length s = 0") (simp_all add: string_def Let_def utf8_length_correct varint.simps [of 0])
qed


lemma wf_int32: "wf_writer w \<Longrightarrow> - (2 ^ 63) \<le> t \<Longrightarrow> wf_writer (int32 t w)"
proof -
  assume w: "wf_writer w" and t: "- (2 ^ 63) \<le> t"
  have "length (varint (t + 2 ^ 64)) = 10" if "t < 0"
    using length_varint_eq [of "t + 2 ^ 64" 9] t that by simp
  with w t show ?thesis
    by (simp add: int32_def wf_uint32 wf_push writeVarint64_varint longbits_val_fromNumber)
qed

lemma bytes_of_int32:
  assumes "- (2 ^ 63) \<le> t" "t < 2 ^ 32"
  shows "bytes_of (int32 t w) = bytes_of w @ varint (if t < 0 then t + 2 ^ 64 else t)"
  using assms by (simp add: int32_def writeVarint64_varint longbits_val_fromNumber uint_word_of_int)

end
