(* ===== verification/Wire.thy ===== *)
theory Wire
  imports Proto
begin

text \<open>
  The protobuf wire format, read: the reference the writer's output is measured against. A message
  is a sequence of fields; a field is a key (field number times 8 plus wire type) and a varint
  (type 0) or a length-delimited byte string (type 2). Strings are decoded from UTF-8 with
  arithmetic on the byte values; surrogates that stand alone are three-byte sequences, as the
  writer emits them.

  Main results: \<open>read_varint\<close> inverts \<open>varint\<close>, \<open>utf8_decode\<close> inverts \<open>utf8_write\<close> on every
  JavaScript string, and \<open>parse_fields\<close> reads back what one field of the writer appends
  (\<open>parses\<close>, which composes over concatenation).
\<close>

section \<open>Reading\<close>

fun read_varint :: "byte list \<Rightarrow> (int \<times> byte list) option" where
  "read_varint [] = None"
| "read_varint (b # bs) =
     (if b < 128 then Some (uint b, bs)
      else case read_varint bs of None \<Rightarrow> None | Some (v, r) \<Rightarrow> Some (uint b - 128 + 128 * v, r))"

lemma read_varint_shorter: "read_varint bs = Some (v, r) \<Longrightarrow> length r < length bs"
  by (induction bs arbitrary: v r) (auto split: if_splits option.splits)

datatype wire = WVarint int | WBytes "byte list"

function parse_fields :: "byte list \<Rightarrow> (int \<times> wire) list option" where
  "parse_fields bs =
     (if bs = [] then Some []
      else case read_varint bs of
        None \<Rightarrow> None
      | Some (key, r) \<Rightarrow>
          (case read_varint r of
             None \<Rightarrow> None
           | Some (v, r') \<Rightarrow>
               if key mod 8 = 0 then map_option (Cons (key div 8, WVarint v)) (parse_fields r')
               else if key mod 8 = 2 \<and> v \<le> int (length r') then
                 map_option (Cons (key div 8, WBytes (take (nat v) r'))) (parse_fields (drop (nat v) r'))
               else None))"
  by pat_completeness auto
termination
  by (relation "measure length") (auto dest!: read_varint_shorter)

declare parse_fields.simps [simp del]

fun utf8_decode :: "byte list \<Rightarrow> jstring option" where
  "utf8_decode [] = Some []"
| "utf8_decode (a # bs) =
     (if a < 128 then map_option (Cons (ucast a)) (utf8_decode bs)
      else if a < 224 then
        (case bs of
           b # r \<Rightarrow> map_option (Cons (of_int ((uint a - 192) * 64 + (uint b - 128)))) (utf8_decode r)
         | _ \<Rightarrow> None)
      else if a < 240 then
        (case bs of
           b # c # r \<Rightarrow>
             map_option (Cons (of_int ((uint a - 224) * 4096 + (uint b - 128) * 64 + (uint c - 128)))) (utf8_decode r)
         | _ \<Rightarrow> None)
      else
        (case bs of
           b # c # d # r \<Rightarrow>
             (let v = (uint a - 240) * 262144 + (uint b - 128) * 4096 + (uint c - 128) * 64 + (uint d - 128) - 65536
              in map_option (\<lambda>s. of_int (55296 + v div 1024) # of_int (56320 + v mod 1024) # s) (utf8_decode r))
         | _ \<Rightarrow> None))"

section \<open>Varints\<close>

lemma read_varint_varint [simp]: "0 \<le> n \<Longrightarrow> read_varint (varint n @ r) = Some (n, r)"
proof (induction n rule: varint.induct)
  case (1 n)
  show ?case
  proof (cases "n < 128")
    case True
    then show ?thesis using 1 by (simp add: varint.simps [of n] word_less_def uint_word_of_int)
  next
    case False
    have "uint (word_of_int (n mod 128 + 128) :: byte) = n mod 128 + 128"
      by (simp add: uint_word_of_int mod_pos_pos_trivial del: of_int_add)
    moreover from this have "\<not> (word_of_int (n mod 128 + 128) :: byte) < 128"
      using pos_mod_sign [of 128 n] unfolding word_less_def by simp
    ultimately show ?thesis using 1 False
      by (simp add: varint.simps [of n] pos_imp_zdiv_nonneg_iff del: of_int_add)
  qed
qed

section \<open>UTF-8\<close>

lemma int_or_shift: "0 \<le> x \<Longrightarrow> x < 2 ^ k \<Longrightarrow> x OR (m * 2 ^ k) = x + m * 2 ^ k" for x m :: int
proof -
  assume "0 \<le> x" "x < 2 ^ k"
  then have t: "take_bit k x = x" by (simp add: take_bit_int_eq_self)
  have "take_bit k x AND push_bit k m = 0"
    by (rule bit_eqI) (simp add: bit_and_iff bit_take_bit_iff bit_push_bit_iff)
  then show ?thesis using t by (simp add: disjunctive_add_eq_or push_bit_eq_mult)
qed

lemma uint_or_shift:
  fixes x :: "'a::len word"
  assumes "uint x < 2 ^ k" "uint m = j * 2 ^ k"
  shows "uint (x OR m) = uint x + uint m"
  using assms int_or_shift [of "uint x" k j] by (simp add: uint_or)

lemma int_and_mask: "x AND 63 = x mod 64" "x AND 1023 = x mod 1024" for x :: int
proof -
  have "x AND 63 = take_bit 6 x" "x AND 1023 = take_bit 10 x"
    by (simp_all add: take_bit_eq_mask mask_eq_exp_minus_1)
  then show "x AND 63 = x mod 64" "x AND 1023 = x mod 1024" by (simp_all add: take_bit_eq_mod)
qed

lemma uint_byte: "uint w < 256 \<Longrightarrow> uint (ucast w :: byte) = uint w" for w :: "'a::len word"
  by (simp add: unsigned_ucast_eq take_bit_int_eq_self)

lemma lead_byte:
  fixes x :: "'a::len word"
  assumes "uint x < 2 ^ k" "uint m = j * 2 ^ k" "uint x + uint m < 256"
  shows "uint (ucast (x OR m) :: byte) = uint x + uint m"
  using uint_or_shift [OF assms(1,2)] assms(3) by (simp add: uint_byte)

lemma cont_byte16: "uint (ucast (x AND 63 OR 128) :: byte) = uint x mod 64 + 128" for x :: unit16
proof -
  have e: "uint (x AND 63) = uint x mod 64" by (simp add: uint_and int_and_mask)
  then show ?thesis using lead_byte [of "x AND 63" 6 128 2] by simp
qed

lemma cont_byte32: "uint (ucast (x AND 63 OR 128) :: byte) = uint x mod 64 + 128" for x :: u32
proof -
  have e: "uint (x AND 63) = uint x mod 64" by (simp add: uint_and int_and_mask)
  then show ?thesis using lead_byte [of "x AND 63" 6 128 2] by simp
qed

lemma int_and_upper: "0 \<le> x \<Longrightarrow> x < 65536 \<Longrightarrow> x AND 64512 = 1024 * (x div 1024)" for x :: int
proof -
  assume x: "0 \<le> x" "x < 65536"
  have "x AND 65535 = take_bit 16 x" by (simp add: take_bit_eq_mask mask_eq_exp_minus_1)
  with x have "x = x AND (64512 OR 1023)" by (simp add: take_bit_int_eq_self)
  also have "\<dots> = x AND 64512 OR x AND 1023" by (rule bit.conj_disj_distrib)
  also have "\<dots> = (x AND 64512) + (x AND 1023)"
  proof -
    have "(x AND 64512) AND (x AND 1023) = x AND (x AND (64512 AND 1023))"
      by (simp only: ac_simps)
    then have "(x AND 64512) AND (x AND 1023) = 0" by simp
    then show ?thesis by (simp add: disjunctive_add_eq_or)
  qed
  finally have "x = (x AND 64512) + x mod 1024" by (simp only: int_and_mask)
  then show ?thesis using mult_div_mod_eq [of 1024 x] by linarith
qed

lemma surrogate_div:
  "is_high_surrogate c \<longleftrightarrow> uint c div 1024 = 54" "is_low_surrogate c \<longleftrightarrow> uint c div 1024 = 55"
proof -
  have b: "uint c < 65536" using uint_lt2p [of c] by simp
  have "uint (c AND 64512) = 1024 * (uint c div 1024)"
    using b int_and_upper [of "uint c"] by (simp add: uint_and)
  moreover have "x = y \<longleftrightarrow> uint x = uint y" for x y :: unit16 by (simp add: word_uint_eq_iff)
  ultimately show "is_high_surrogate c \<longleftrightarrow> uint c div 1024 = 54" "is_low_surrogate c \<longleftrightarrow> uint c div 1024 = 55"
    by (simp_all add: is_high_surrogate_def is_low_surrogate_def)
qed

lemma uint_inverse16: "word_of_int (uint c) = c" for c :: unit16
  by simp

lemma decode_step_two:
  assumes "uint a = x + 192" "uint b = y + 128" "0 \<le> x" "x < 32"
  shows "utf8_decode (a # b # r) = map_option (Cons (word_of_int (x * 64 + y))) (utf8_decode r)"
proof -
  have "\<not> a < 128" "a < 224" using assms by (simp_all add: word_less_def)
  then show ?thesis using assms by (simp del: of_int_add of_int_mult)
qed

lemma decode_step_three:
  assumes "uint a = x + 224" "uint b = y + 128" "uint c = z + 128" "0 \<le> x" "x < 16"
  shows "utf8_decode (a # b # c # r) = map_option (Cons (word_of_int (x * 4096 + y * 64 + z))) (utf8_decode r)"
proof -
  have "\<not> a < 128" "\<not> a < 224" "a < 240" using assms by (simp_all add: word_less_def)
  then show ?thesis using assms by (simp del: of_int_add of_int_mult)
qed

lemma decode_step_four:
  assumes "uint a = x + 240" "uint b = y + 128" "uint c = z + 128" "uint d = t + 128" "0 \<le> x"
    and "x * 262144 + y * 4096 + z * 64 + t - 65536 = q + p * 1024" "0 \<le> q" "q < 1024"
  shows "utf8_decode (a # b # c # d # r)
    = map_option (\<lambda>s. word_of_int (55296 + p) # word_of_int (56320 + q) # s) (utf8_decode r)"
proof -
  have "\<not> a < 128" "\<not> a < 224" "\<not> a < 240" using assms(1,5) by (simp_all add: word_less_def)
  moreover have "(q + p * 1024) div 1024 = p" "(q + p * 1024) mod 1024 = q" using assms(7,8) by simp_all
  moreover have "(uint a - 240) * 262144 + (uint b - 128) * 4096 + (uint c - 128) * 64 + (uint d - 128) - 65536
      = q + p * 1024" using assms(1-4,6) by simp
  ultimately show ?thesis by (simp only: utf8_decode.simps list.case if_False Let_def)
qed

text \<open>The bytes of a character.\<close>

lemma utf8_two_bytes:
  assumes "\<not> c < 128" "c < 2048"
  obtains a b where "utf8_two c = [a, b]" "uint a = uint c div 64 + 192" "uint b = uint c mod 64 + 128"
    "0 \<le> uint c div 64" "uint c div 64 < 32"
proof -
  have n: "uint c < 2048" using assms by (simp add: word_less_def)
  then have d: "uint (drop_bit 6 c) = uint c div 64" "uint c div 64 < 32"
    by (simp_all add: uint_drop_bit_div div_less_iff_mult)
  have "uint (ucast (drop_bit 6 c OR 192) :: byte) = uint c div 64 + 192"
    using lead_byte [of "drop_bit 6 c" 6 192 3] d by simp
  from that [OF utf8_two_def this cont_byte16 _ d(2)] show ?thesis by (simp add: pos_imp_zdiv_nonneg_iff)
qed

lemma utf8_three_bytes:
  assumes "\<not> c < 2048"
  obtains a b d where "utf8_three c = [a, b, d]" "uint a = uint c div 4096 + 224" "uint b = uint c div 64 mod 64 + 128"
    "uint d = uint c mod 64 + 128" "0 \<le> uint c div 4096" "uint c div 4096 < 16"
proof -
  have n: "uint c < 65536" using uint_lt2p [of c] by simp
  then have d: "uint (drop_bit 12 c) = uint c div 4096" "uint c div 4096 < 16"
    by (simp_all add: uint_drop_bit_div div_less_iff_mult)
  have a: "uint (ucast (drop_bit 12 c OR 224) :: byte) = uint c div 4096 + 224"
    using lead_byte [of "drop_bit 12 c" 5 224 7] d by simp
  have b: "uint (ucast (drop_bit 6 c AND 63 OR 128) :: byte) = uint c div 64 mod 64 + 128"
    using cont_byte16 [of "drop_bit 6 c"] by (simp only: uint_drop_bit_div) simp
  from that [OF utf8_three_def a b cont_byte16 _ d(2)] show ?thesis by (simp add: pos_imp_zdiv_nonneg_iff)
qed

lemma utf8_four_bytes:
  assumes "is_high_surrogate c" "is_low_surrogate d"
  obtains a1 a2 a3 a4 and n p q :: int where "utf8_four c d = [a1, a2, a3, a4]"
    "uint a1 = n div 262144 + 240" "uint a2 = n div 4096 mod 64 + 128" "uint a3 = n div 64 mod 64 + 128"
    "uint a4 = n mod 64 + 128" "n = 65536 + p * 1024 + q" "0 \<le> p" "p < 1024" "0 \<le> q" "q < 1024"
    "uint c = 55296 + p" "uint d = 56320 + q"
proof -
  define l :: u32 where "l = 65536 + push_bit 10 (ucast (c AND 1023)) + ucast (d AND 1023)"
  define p q where "p = uint c mod 1024" and "q = uint d mod 1024"
  have b: "0 \<le> p" "p < 1024" "0 \<le> q" "q < 1024" by (simp_all add: p_def q_def)
  have cd: "uint c = 55296 + p" "uint d = 56320 + q"
    using assms mult_div_mod_eq [of 1024 "uint c"] mult_div_mod_eq [of 1024 "uint d"]
    by (simp_all add: surrogate_div p_def q_def)
  have u: "uint (ucast (x AND 1023) :: u32) = uint x mod 1024" for x :: unit16
    by (simp add: unsigned_ucast_eq uint_and int_and_mask take_bit_int_eq_self)
  have "uint (push_bit 10 (ucast (c AND 1023)) :: u32) = p * 1024"
    unfolding unsigned_push_bit_eq using b u [of c]
    by (simp add: push_bit_eq_mult take_bit_int_eq_self p_def)
  then have l: "uint l = 65536 + p * 1024 + q"
    using b u [of d] by (simp add: l_def uint_word_ariths q_def mod_pos_pos_trivial)
  have l0: "uint l div 262144 < 16" using l b by (simp add: div_less_iff_mult)
  have w: "uint (drop_bit 18 l) = uint l div 262144" "uint (drop_bit 12 l) = uint l div 4096"
    "uint (drop_bit 6 l) = uint l div 64" by (simp_all only: uint_drop_bit_div) simp_all
  have by1: "uint (ucast (drop_bit 18 l OR 240) :: byte) = uint l div 262144 + 240"
    using lead_byte [of "drop_bit 18 l" 4 240 15] l0 w by (simp del: drop_bit_eq_div)
  note by2 = cont_byte32 [of "drop_bit 12 l", unfolded w] cont_byte32 [of "drop_bit 6 l", unfolded w]
  have "utf8_four c d = [ucast (drop_bit 18 l OR 240), ucast (drop_bit 12 l AND 63 OR 128),
      ucast (drop_bit 6 l AND 63 OR 128), ucast (l AND 63 OR 128)]"
    by (simp only: utf8_four_def Let_def l_def)
  from that [OF this by1 by2 cont_byte32 l b cd] show ?thesis .
qed

lemma decode_two:
  assumes "\<not> c < 128" "c < 2048"
  shows "utf8_decode (utf8_two c @ r) = map_option (Cons c) (utf8_decode r)"
proof -
  from utf8_two_bytes [OF assms] obtain a b where ab: "utf8_two c = [a, b]" "uint a = uint c div 64 + 192"
    "uint b = uint c mod 64 + 128" "0 \<le> uint c div 64" "uint c div 64 < 32" by blast
  from decode_step_two [OF ab(2-5)] show ?thesis by (simp add: ab(1) del: of_int_add of_int_mult)
qed

lemma base64: "x div 4096 * 4096 + x div 64 mod 64 * 64 + x mod 64 = x" for x :: int
proof -
  have "x div 4096 = x div 64 div 64" by (simp flip: zdiv_zmult2_eq)
  then show ?thesis using mult_div_mod_eq [of 64 x] mult_div_mod_eq [of 64 "x div 64"] by linarith
qed

lemma decode_three:
  assumes "\<not> c < 2048"
  shows "utf8_decode (utf8_three c @ r) = map_option (Cons c) (utf8_decode r)"
proof -
  from utf8_three_bytes [OF assms] obtain a b d where ab: "utf8_three c = [a, b, d]" "uint a = uint c div 4096 + 224"
    "uint b = uint c div 64 mod 64 + 128" "uint d = uint c mod 64 + 128" "0 \<le> uint c div 4096" "uint c div 4096 < 16" by blast
  from decode_step_three [OF ab(2-6)] show ?thesis by (simp add: ab(1) base64 del: of_int_add of_int_mult)
qed

lemma four_groups: "n div 262144 * 262144 + n div 4096 mod 64 * 4096 + n div 64 mod 64 * 64 + n mod 64 = n" for n :: int
proof -
  have "n div 262144 = n div 4096 div 64" by (simp flip: zdiv_zmult2_eq)
  then show ?thesis using base64 [of n] mult_div_mod_eq [of 64 "n div 4096"] by linarith
qed

lemma decode_four:
  assumes "is_high_surrogate c" "is_low_surrogate d"
  shows "utf8_decode (utf8_four c d @ r) = map_option (\<lambda>s. c # d # s) (utf8_decode r)"
proof -
  from utf8_four_bytes [OF assms] obtain a1 a2 a3 a4 and n p q :: int where f: "utf8_four c d = [a1, a2, a3, a4]"
    "uint a1 = n div 262144 + 240" "uint a2 = n div 4096 mod 64 + 128" "uint a3 = n div 64 mod 64 + 128"
    "uint a4 = n mod 64 + 128" "n = 65536 + p * 1024 + q" "0 \<le> p" "p < 1024" "0 \<le> q" "q < 1024"
    "uint c = 55296 + p" "uint d = 56320 + q" by blast
  have n: "0 \<le> n div 262144" using f(6,7,9) by (simp add: pos_imp_zdiv_nonneg_iff)
  have v: "n div 262144 * 262144 + n div 4096 mod 64 * 4096 + n div 64 mod 64 * 64 + n mod 64 - 65536 = q + p * 1024"
    using four_groups [of n] f(6) by linarith
  have "word_of_int (55296 + p) = c" "word_of_int (56320 + q) = d"
    by (simp_all only: f(11,12) [symmetric] word_of_int_uint)
  then show ?thesis using decode_step_four [OF f(2-5) n v f(9,10), of r] f(1) by simp
qed

lemma utf8_decode_write [simp]: "utf8_decode (utf8_write s) = Some s"
proof (induction s rule: utf8_write.induct)
  case (2 c cs)
  have one: "utf8_decode (ucast c # r) = map_option (Cons c) (utf8_decode r)" if "c < 128" for r
  proof -
    have "uint (ucast c :: byte) = uint c" using that by (simp add: uint_byte word_less_def)
    moreover from this have "(ucast (ucast c :: byte) :: unit16) = c"
      by (metis ucast_eq word_of_int_uint)
    ultimately show ?thesis using that by (simp add: word_less_def)
  qed
  note steps = decode_two [of c "[]"] decode_three [of c "[]"] decode_two decode_three decode_four
  show ?case using 2 by (cases cs) (auto simp: one steps [simplified] simp del: utf8_decode.simps(2))
qed simp

section \<open>Fields\<close>

definition parses :: "byte list \<Rightarrow> (int \<times> wire) list \<Rightarrow> bool" where
  "parses bs fs \<longleftrightarrow> (\<forall>r. parse_fields (bs @ r) = map_option (\<lambda>gs. fs @ gs) (parse_fields r))"

named_theorems parses_intros "what the writer's steps append, read back"

lemma parses_Nil [parses_intros]: "parses [] []"
  by (simp add: parses_def option.map_ident)

lemma parses_append [parses_intros]: "parses a f \<Longrightarrow> parses b g \<Longrightarrow> parses (a @ b) (f @ g)"
  by (simp add: parses_def option.map_comp comp_def)

lemma varint_not_Nil [simp]: "varint n \<noteq> []"
  using length_varint_pos [of n] by auto

lemma parses_varint:
  "0 \<le> n \<Longrightarrow> 0 \<le> v \<Longrightarrow> parses (varint (n * 8) @ varint v) [(n, WVarint v)]"
  by (simp add: parses_def parse_fields.simps [of "varint (n * 8) @ _"])

lemma parses_bytes:
  "0 \<le> n \<Longrightarrow> parses (varint (n * 8 + 2) @ varint (int (length bs)) @ bs) [(n, WBytes bs)]"
  by (simp add: parses_def parse_fields.simps [of "varint (n * 8 + 2) @ _"])

lemma parses_fields: "parses bs fs \<Longrightarrow> parse_fields bs = Some fs"
  using parse_fields.simps [of "[]"] by (auto simp: parses_def dest: spec [of _ "[]"])

end
