(* ===== verification/WalletMsgs.thy ===== *)
theory WalletMsgs
  imports Wire
begin

text \<open>
  The four message codecs of \<open>static/wallet.js\<close> (\<open>makeMsgCreateSlot\<close>, \<open>makeMsgUpdateSlotStatus\<close>,
  \<open>makeMsgLeaseSlot\<close>, \<open>makeMsgRegisterPublisher\<close>) and the type registry \<open>loadWalletDeps\<close> fills.

  A codec is a pair of functions: \<open>fromPartial\<close> completes a partial object (absent properties are
  \<open>None\<close>) to a message record, \<open>encode\<close> queues its fields on a protobuf writer, leaving out fields
  that hold their default. The locale \<open>message_codec\<close> is the contract a codec offers its callers
  (a reader of the wire format gets the message back); it is interpreted for the four codecs
  against readers that follow \<open>contentgrid/registry/v1/tx.proto\<close>.
\<close>

section \<open>Field writers\<close>

text \<open>\<open>if (message.f !== "") writer.uint32(tag).string(message.f)\<close> and its integer variants.\<close>

definition str_field :: "u32 \<Rightarrow> jstring \<Rightarrow> 'a writer_scheme \<Rightarrow> 'a writer_scheme" where
  "str_field tag s w = (if s \<noteq> [] then string s (uint32 tag w) else w)"

definition long_field :: "u32 \<Rightarrow> long \<Rightarrow> writer \<Rightarrow> writer" where
  "long_field tag v w = (if v \<noteq> 0 then int64 v (uint32 tag w) else w)"

definition int32_field :: "u32 \<Rightarrow> int \<Rightarrow> writer \<Rightarrow> writer" where
  "int32_field tag v w = (if v \<noteq> 0 then int32 v (uint32 tag w) else w)"

definition long_or_zero :: "long_arg option \<Rightarrow> long" where
  "long_or_zero v = (case v of Some a \<Rightarrow> Long_fromValue a | None \<Rightarrow> 0)"

definition orEmpty :: "jstring option \<Rightarrow> jstring" where
  "orEmpty v = (case v of Some s \<Rightarrow> s | None \<Rightarrow> [])"

section \<open>MsgCreateSlot\<close>

record MsgCreateSlot =
  cs_publisher :: jstring
  cs_domain :: jstring
  cs_label :: jstring
  cs_summary :: jstring
  cs_category :: jstring
  cs_placement :: jstring
  cs_size :: jstring
  cs_rateDenom :: jstring
  cs_rateAmount :: jstring
  cs_unitSeconds :: long
  cs_minDurationSeconds :: long
  cs_maxDurationSeconds :: long
  cs_tags :: "jstring list"

record MsgCreateSlotPartial =
  pcs_publisher :: "jstring option"
  pcs_domain :: "jstring option"
  pcs_label :: "jstring option"
  pcs_summary :: "jstring option"
  pcs_category :: "jstring option"
  pcs_placement :: "jstring option"
  pcs_size :: "jstring option"
  pcs_rateDenom :: "jstring option"
  pcs_rateAmount :: "jstring option"
  pcs_unitSeconds :: "long_arg option"
  pcs_minDurationSeconds :: "long_arg option"
  pcs_maxDurationSeconds :: "long_arg option"
  pcs_tags :: "jstring list option"

definition MsgCreateSlot_encode :: "MsgCreateSlot \<Rightarrow> writer \<Rightarrow> writer" where
  "MsgCreateSlot_encode m w =
     (let w = str_field 10 (cs_publisher m) w;
          w = str_field 18 (cs_domain m) w;
          w = str_field 26 (cs_label m) w;
          w = str_field 34 (cs_summary m) w;
          w = str_field 42 (cs_category m) w;
          w = str_field 50 (cs_placement m) w;
          w = str_field 58 (cs_size m) w;
          w = str_field 66 (cs_rateDenom m) w;
          w = str_field 74 (cs_rateAmount m) w;
          w = long_field 80 (cs_unitSeconds m) w;
          w = long_field 88 (cs_minDurationSeconds m) w;
          w = long_field 96 (cs_maxDurationSeconds m) w
      in fold (\<lambda>v w. string v (uint32 106 w)) (cs_tags m) w)"

definition MsgCreateSlot_fromPartial :: "MsgCreateSlotPartial \<Rightarrow> MsgCreateSlot" where
  "MsgCreateSlot_fromPartial object =
     \<lparr>cs_publisher = orEmpty (pcs_publisher object),
      cs_domain = orEmpty (pcs_domain object),
      cs_label = orEmpty (pcs_label object),
      cs_summary = orEmpty (pcs_summary object),
      cs_category = orEmpty (pcs_category object),
      cs_placement = orEmpty (pcs_placement object),
      cs_size = orEmpty (pcs_size object),
      cs_rateDenom = orEmpty (pcs_rateDenom object),
      cs_rateAmount = orEmpty (pcs_rateAmount object),
      cs_unitSeconds = long_or_zero (pcs_unitSeconds object),
      cs_minDurationSeconds = long_or_zero (pcs_minDurationSeconds object),
      cs_maxDurationSeconds = long_or_zero (pcs_maxDurationSeconds object),
      cs_tags = (case pcs_tags object of Some ts \<Rightarrow> map (\<lambda>e. e) ts | None \<Rightarrow> [])\<rparr>"

section \<open>MsgUpdateSlotStatus\<close>

record MsgUpdateSlotStatus =
  us_publisher :: jstring
  us_slotId :: jstring
  us_status :: int

record MsgUpdateSlotStatusPartial =
  pus_publisher :: "jstring option"
  pus_slotId :: "jstring option"
  pus_status :: "int option"

definition MsgUpdateSlotStatus_encode :: "MsgUpdateSlotStatus \<Rightarrow> writer \<Rightarrow> writer" where
  "MsgUpdateSlotStatus_encode m w =
     (let w = str_field 10 (us_publisher m) w;
          w = str_field 18 (us_slotId m) w
      in int32_field 24 (us_status m) w)"

definition MsgUpdateSlotStatus_fromPartial :: "MsgUpdateSlotStatusPartial \<Rightarrow> MsgUpdateSlotStatus" where
  "MsgUpdateSlotStatus_fromPartial object =
     \<lparr>us_publisher = orEmpty (pus_publisher object),
      us_slotId = orEmpty (pus_slotId object),
      us_status = (case pus_status object of Some n \<Rightarrow> n | None \<Rightarrow> 0)\<rparr>"

section \<open>MsgLeaseSlot\<close>

record MsgLeaseSlot =
  ls_lessee :: jstring
  ls_slotId :: jstring
  ls_targetUrl :: jstring
  ls_startsAtUnix :: long
  ls_durationSeconds :: long

record MsgLeaseSlotPartial =
  pls_lessee :: "jstring option"
  pls_slotId :: "jstring option"
  pls_targetUrl :: "jstring option"
  pls_startsAtUnix :: "long_arg option"
  pls_durationSeconds :: "long_arg option"

definition MsgLeaseSlot_encode :: "MsgLeaseSlot \<Rightarrow> writer \<Rightarrow> writer" where
  "MsgLeaseSlot_encode m w =
     (let w = str_field 10 (ls_lessee m) w;
          w = str_field 18 (ls_slotId m) w;
          w = str_field 26 (ls_targetUrl m) w;
          w = long_field 32 (ls_startsAtUnix m) w
      in long_field 40 (ls_durationSeconds m) w)"

definition MsgLeaseSlot_fromPartial :: "MsgLeaseSlotPartial \<Rightarrow> MsgLeaseSlot" where
  "MsgLeaseSlot_fromPartial object =
     \<lparr>ls_lessee = orEmpty (pls_lessee object),
      ls_slotId = orEmpty (pls_slotId object),
      ls_targetUrl = orEmpty (pls_targetUrl object),
      ls_startsAtUnix = long_or_zero (pls_startsAtUnix object),
      ls_durationSeconds = long_or_zero (pls_durationSeconds object)\<rparr>"

section \<open>MsgRegisterPublisher\<close>

record MsgRegisterPublisher =
  rp_owner :: jstring
  rp_domain :: jstring
  rp_metadataUri :: jstring
  rp_proof :: jstring
  rp_verifier :: jstring
  rp_referrer :: jstring

record MsgRegisterPublisherPartial =
  prp_owner :: "jstring option"
  prp_domain :: "jstring option"
  prp_metadataUri :: "jstring option"
  prp_proof :: "jstring option"
  prp_verifier :: "jstring option"
  prp_referrer :: "jstring option"

definition MsgRegisterPublisher_encode :: "MsgRegisterPublisher \<Rightarrow> writer \<Rightarrow> writer" where
  "MsgRegisterPublisher_encode m w =
     (let w = str_field 10 (rp_owner m) w;
          w = str_field 18 (rp_domain m) w;
          w = str_field 26 (rp_metadataUri m) w;
          w = str_field 34 (rp_proof m) w;
          w = str_field 42 (rp_verifier m) w
      in str_field 50 (rp_referrer m) w)"

definition MsgRegisterPublisher_fromPartial :: "MsgRegisterPublisherPartial \<Rightarrow> MsgRegisterPublisher" where
  "MsgRegisterPublisher_fromPartial object =
     \<lparr>rp_owner = orEmpty (prp_owner object),
      rp_domain = orEmpty (prp_domain object),
      rp_metadataUri = orEmpty (prp_metadataUri object),
      rp_proof = orEmpty (prp_proof object),
      rp_verifier = orEmpty (prp_verifier object),
      rp_referrer = orEmpty (prp_referrer object)\<rparr>"

section \<open>The registry\<close>

text \<open>
  An encode object pairs a type URL with a partial value. \<open>DefaultType\<close> stands for the types the
  bundle's \<open>defaultRegistryTypes\<close> brings, which the wallet never encodes.
\<close>

datatype codec = CreateSlotCodec | UpdateSlotStatusCodec | LeaseSlotCodec | RegisterPublisherCodec | DefaultType

datatype msg_value =
    CreateSlotValue MsgCreateSlotPartial
  | UpdateSlotStatusValue MsgUpdateSlotStatusPartial
  | LeaseSlotValue MsgLeaseSlotPartial
  | RegisterPublisherValue MsgRegisterPublisherPartial

record encode_object =
  typeUrl :: jstring
  msgValue :: msg_value

type_synonym registry = "jstring \<rightharpoonup> codec"

definition url_CreateSlot :: jstring where "url_CreateSlot = lit ''/contentgrid.registry.v1.MsgCreateSlot''"
definition url_UpdateSlotStatus :: jstring where "url_UpdateSlotStatus = lit ''/contentgrid.registry.v1.MsgUpdateSlotStatus''"
definition url_LeaseSlot :: jstring where "url_LeaseSlot = lit ''/contentgrid.registry.v1.MsgLeaseSlot''"
definition url_RegisterPublisher :: jstring where "url_RegisterPublisher = lit ''/contentgrid.registry.v1.MsgRegisterPublisher''"

definition register :: "jstring \<Rightarrow> codec \<Rightarrow> registry \<Rightarrow> registry" where
  "register url c r = r(url \<mapsto> c)"

text \<open>\<open>defaults\<close> are the type URLs of \<open>defaultRegistryTypes\<close>.\<close>

definition walletRegistry :: "jstring list \<Rightarrow> registry" where
  "walletRegistry defaults =
     (let r = (\<lambda>u. if u \<in> set defaults then Some DefaultType else None);
          r = register url_CreateSlot CreateSlotCodec r;
          r = register url_UpdateSlotStatus UpdateSlotStatusCodec r;
          r = register url_LeaseSlot LeaseSlotCodec r
      in register url_RegisterPublisher RegisterPublisherCodec r)"

datatype encode_error = UnregisteredType jstring | ShapeMismatch

text \<open>
  \<open>Registry.encode\<close>: look the type up, complete the value, encode, finish. A value of another
  message's shape is \<open>ShapeMismatch\<close>; no caller builds one (\<open>well_typed\<close>).
\<close>

definition registry_encode :: "registry \<Rightarrow> encode_object \<Rightarrow> encode_error + byte list" where
  "registry_encode r obj =
     (case r (typeUrl obj) of
        None \<Rightarrow> Inl (UnregisteredType (typeUrl obj))
      | Some c \<Rightarrow>
          (case (c, msgValue obj) of
             (CreateSlotCodec, CreateSlotValue p) \<Rightarrow>
               Inr (finish (MsgCreateSlot_encode (MsgCreateSlot_fromPartial p) create))
           | (UpdateSlotStatusCodec, UpdateSlotStatusValue p) \<Rightarrow>
               Inr (finish (MsgUpdateSlotStatus_encode (MsgUpdateSlotStatus_fromPartial p) create))
           | (LeaseSlotCodec, LeaseSlotValue p) \<Rightarrow>
               Inr (finish (MsgLeaseSlot_encode (MsgLeaseSlot_fromPartial p) create))
           | (RegisterPublisherCodec, RegisterPublisherValue p) \<Rightarrow>
               Inr (finish (MsgRegisterPublisher_encode (MsgRegisterPublisher_fromPartial p) create))
           | _ \<Rightarrow> Inl ShapeMismatch))"

definition well_typed :: "encode_object \<Rightarrow> bool" where
  "well_typed obj =
     (case msgValue obj of
        CreateSlotValue _ \<Rightarrow> typeUrl obj = url_CreateSlot
      | UpdateSlotStatusValue _ \<Rightarrow> typeUrl obj = url_UpdateSlotStatus
      | LeaseSlotValue _ \<Rightarrow> typeUrl obj = url_LeaseSlot
      | RegisterPublisherValue _ \<Rightarrow> typeUrl obj = url_RegisterPublisher)"

section \<open>Readers\<close>

text \<open>
  The reader of a message folds over its fields: a known field sets its slot (the last one wins),
  a repeated one accumulates, an unknown one is skipped, a string that is not UTF-8 fails.
\<close>

fun fold_fields :: "('m \<Rightarrow> int \<times> wire \<Rightarrow> 'm option) \<Rightarrow> 'm \<Rightarrow> (int \<times> wire) list \<Rightarrow> 'm option" where
  "fold_fields f m [] = Some m"
| "fold_fields f m (x # xs) = (case f m x of None \<Rightarrow> None | Some m' \<Rightarrow> fold_fields f m' xs)"

definition read_message :: "('m \<Rightarrow> int \<times> wire \<Rightarrow> 'm option) \<Rightarrow> 'm \<Rightarrow> byte list \<Rightarrow> 'm option" where
  "read_message f m bs = (case parse_fields bs of None \<Rightarrow> None | Some fs \<Rightarrow> fold_fields f m fs)"

definition on_field :: "(int \<Rightarrow> jstring \<Rightarrow> 'm \<Rightarrow> 'm) \<Rightarrow> (int \<Rightarrow> int \<Rightarrow> 'm \<Rightarrow> 'm) \<Rightarrow> 'm \<Rightarrow> int \<times> wire \<Rightarrow> 'm option" where
  "on_field fs fi m x =
     (case x of
        (n, WBytes b) \<Rightarrow> (case utf8_decode b of None \<Rightarrow> None | Some s \<Rightarrow> Some (fs n s m))
      | (n, WVarint v) \<Rightarrow> Some (fi n v m))"

definition set_CreateSlot_str :: "int \<Rightarrow> jstring \<Rightarrow> MsgCreateSlot \<Rightarrow> MsgCreateSlot" where
  "set_CreateSlot_str n s m =
     (if n = 1 then m\<lparr>cs_publisher := s\<rparr> else if n = 2 then m\<lparr>cs_domain := s\<rparr>
      else if n = 3 then m\<lparr>cs_label := s\<rparr> else if n = 4 then m\<lparr>cs_summary := s\<rparr>
      else if n = 5 then m\<lparr>cs_category := s\<rparr> else if n = 6 then m\<lparr>cs_placement := s\<rparr>
      else if n = 7 then m\<lparr>cs_size := s\<rparr> else if n = 8 then m\<lparr>cs_rateDenom := s\<rparr>
      else if n = 9 then m\<lparr>cs_rateAmount := s\<rparr> else if n = 13 then m\<lparr>cs_tags := cs_tags m @ [s]\<rparr> else m)"

definition set_CreateSlot_int :: "int \<Rightarrow> int \<Rightarrow> MsgCreateSlot \<Rightarrow> MsgCreateSlot" where
  "set_CreateSlot_int n v m =
     (if n = 10 then m\<lparr>cs_unitSeconds := of_int v\<rparr> else if n = 11 then m\<lparr>cs_minDurationSeconds := of_int v\<rparr>
      else if n = 12 then m\<lparr>cs_maxDurationSeconds := of_int v\<rparr> else m)"

definition decode_CreateSlot :: "byte list \<Rightarrow> MsgCreateSlot option" where
  "decode_CreateSlot = read_message (on_field set_CreateSlot_str set_CreateSlot_int)
     \<lparr>cs_publisher = [], cs_domain = [], cs_label = [], cs_summary = [], cs_category = [], cs_placement = [],
      cs_size = [], cs_rateDenom = [], cs_rateAmount = [], cs_unitSeconds = 0, cs_minDurationSeconds = 0,
      cs_maxDurationSeconds = 0, cs_tags = []\<rparr>"

definition set_UpdateSlotStatus_str :: "int \<Rightarrow> jstring \<Rightarrow> MsgUpdateSlotStatus \<Rightarrow> MsgUpdateSlotStatus" where
  "set_UpdateSlotStatus_str n s m =
     (if n = 1 then m\<lparr>us_publisher := s\<rparr> else if n = 2 then m\<lparr>us_slotId := s\<rparr> else m)"

text \<open>An int32 or enum field keeps the low 32 bits of its varint, read as a signed number.\<close>

definition set_UpdateSlotStatus_int :: "int \<Rightarrow> int \<Rightarrow> MsgUpdateSlotStatus \<Rightarrow> MsgUpdateSlotStatus" where
  "set_UpdateSlotStatus_int n v m = (if n = 3 then m\<lparr>us_status := signed_take_bit 31 v\<rparr> else m)"

definition decode_UpdateSlotStatus :: "byte list \<Rightarrow> MsgUpdateSlotStatus option" where
  "decode_UpdateSlotStatus = read_message (on_field set_UpdateSlotStatus_str set_UpdateSlotStatus_int)
     \<lparr>us_publisher = [], us_slotId = [], us_status = 0\<rparr>"

definition set_LeaseSlot_str :: "int \<Rightarrow> jstring \<Rightarrow> MsgLeaseSlot \<Rightarrow> MsgLeaseSlot" where
  "set_LeaseSlot_str n s m =
     (if n = 1 then m\<lparr>ls_lessee := s\<rparr> else if n = 2 then m\<lparr>ls_slotId := s\<rparr>
      else if n = 3 then m\<lparr>ls_targetUrl := s\<rparr> else m)"

definition set_LeaseSlot_int :: "int \<Rightarrow> int \<Rightarrow> MsgLeaseSlot \<Rightarrow> MsgLeaseSlot" where
  "set_LeaseSlot_int n v m =
     (if n = 4 then m\<lparr>ls_startsAtUnix := of_int v\<rparr> else if n = 5 then m\<lparr>ls_durationSeconds := of_int v\<rparr> else m)"

definition decode_LeaseSlot :: "byte list \<Rightarrow> MsgLeaseSlot option" where
  "decode_LeaseSlot = read_message (on_field set_LeaseSlot_str set_LeaseSlot_int)
     \<lparr>ls_lessee = [], ls_slotId = [], ls_targetUrl = [], ls_startsAtUnix = 0, ls_durationSeconds = 0\<rparr>"

definition set_RegisterPublisher_str :: "int \<Rightarrow> jstring \<Rightarrow> MsgRegisterPublisher \<Rightarrow> MsgRegisterPublisher" where
  "set_RegisterPublisher_str n s m =
     (if n = 1 then m\<lparr>rp_owner := s\<rparr> else if n = 2 then m\<lparr>rp_domain := s\<rparr>
      else if n = 3 then m\<lparr>rp_metadataUri := s\<rparr> else if n = 4 then m\<lparr>rp_proof := s\<rparr>
      else if n = 5 then m\<lparr>rp_verifier := s\<rparr> else if n = 6 then m\<lparr>rp_referrer := s\<rparr> else m)"

definition decode_RegisterPublisher :: "byte list \<Rightarrow> MsgRegisterPublisher option" where
  "decode_RegisterPublisher = read_message (on_field set_RegisterPublisher_str (\<lambda>_ _ m. m))
     \<lparr>rp_owner = [], rp_domain = [], rp_metadataUri = [], rp_proof = [], rp_verifier = [], rp_referrer = []\<rparr>"

section \<open>What a codec's writer emits\<close>

definition emits :: "'a writer_scheme \<Rightarrow> (int \<times> wire) list \<Rightarrow> bool" where
  "emits w fs \<longleftrightarrow> wf_writer w \<and> parses (bytes_of w) fs"

definition sfield :: "int \<Rightarrow> jstring \<Rightarrow> (int \<times> wire) list" where
  "sfield n s = (if s = [] then [] else [(n, WBytes (utf8_write s))])"

definition ifield :: "int \<Rightarrow> int \<Rightarrow> (int \<times> wire) list" where
  "ifield n v = (if v = 0 then [] else [(n, WVarint v)])"

definition short :: "jstring \<Rightarrow> bool" where
  "short s \<longleftrightarrow> utf8_length s < 2 ^ 32"

named_theorems emits_intros "one rule per field writer"

lemma emits_create [emits_intros]: "emits create []"
  by (simp add: emits_def parses_Nil)

lemma emits_one:
  assumes "emits w fs" "wf_writer w'" "bytes_of w' = bytes_of w @ bs" "parses bs gs"
  shows "emits w' (fs @ gs)"
  using assms by (simp add: emits_def parses_append)

lemma emits_string:
  assumes "emits w fs" "short s" "uint tag = n * 8 + 2" "0 \<le> n"
  shows "emits (string s (uint32 tag w)) (fs @ [(n, WBytes (utf8_write s))])"
proof (rule emits_one [OF assms(1)])
  show "wf_writer (string s (uint32 tag w))"
    using assms(1) by (simp add: emits_def wf_string wf_uint32)
  show "bytes_of (string s (uint32 tag w)) = bytes_of w @ varint (n * 8 + 2) @ varint (int (length (utf8_write s))) @ utf8_write s"
    using assms(2,3) by (simp add: bytes_of_string short_def utf8_length_correct)
qed (rule parses_bytes [OF assms(4)])

lemma emits_str_field:
  assumes "emits w fs" "short s" "uint tag = n * 8 + 2" "0 \<le> n"
  shows "emits (str_field tag s w) (fs @ sfield n s)"
  using emits_string [OF assms] assms(1) by (simp add: str_field_def sfield_def)

lemma emits_long_field:
  assumes "emits w fs" "uint tag = n * 8" "0 \<le> n"
  shows "emits (long_field tag v w) (fs @ ifield n (uint v))"
proof (cases "v = 0")
  case False
  have "emits (int64 v (uint32 tag w)) (fs @ [(n, WVarint (uint v))])"
  proof (rule emits_one [OF assms(1)])
    show "wf_writer (int64 v (uint32 tag w))" using assms(1) by (simp add: emits_def wf_int64 wf_uint32)
    show "bytes_of (int64 v (uint32 tag w)) = bytes_of w @ varint (n * 8) @ varint (uint v)"
      using assms(2) by simp
  qed (rule parses_varint [OF assms(3) uint_ge_0])
  with False show ?thesis by (simp add: long_field_def ifield_def uint_0_iff)
qed (use assms(1) in \<open>simp add: long_field_def ifield_def\<close>)

lemma emits_int32_field:
  assumes "emits w fs" "uint tag = n * 8" "0 \<le> n" "- (2 ^ 31) \<le> v" "v < 2 ^ 31"
  shows "emits (int32_field tag v w) (fs @ ifield n (if v < 0 then v + 2 ^ 64 else v))"
proof (cases "v = 0")
  case False
  let ?u = "if v < 0 then v + 2 ^ 64 else v"
  have "emits (int32 v (uint32 tag w)) (fs @ [(n, WVarint ?u)])"
  proof (rule emits_one [OF assms(1)])
    show "wf_writer (int32 v (uint32 tag w))" using assms(1,4) by (simp add: emits_def wf_int32 wf_uint32)
    show "bytes_of (int32 v (uint32 tag w)) = bytes_of w @ varint (n * 8) @ varint ?u"
      using assms(2,4,5) by (simp add: bytes_of_int32)
    show "parses (varint (n * 8) @ varint ?u) [(n, WVarint ?u)]"
      using assms(3,4) by (intro parses_varint) auto
  qed
  with False assms(4) show ?thesis by (simp add: int32_field_def ifield_def)
qed (use assms(1) in \<open>simp add: int32_field_def ifield_def\<close>)

lemma emits_tags:
  "emits w fs \<Longrightarrow> list_all short ts \<Longrightarrow> uint tag = n * 8 + 2 \<Longrightarrow> 0 \<le> n \<Longrightarrow>
   emits (fold (\<lambda>v w. string v (uint32 tag w)) ts w) (fs @ map (\<lambda>t. (n, WBytes (utf8_write t))) ts)"
proof (induction ts arbitrary: w fs)
  case (Cons t ts)
  then have "emits (string t (uint32 tag w)) (fs @ [(n, WBytes (utf8_write t))])"
    by (intro emits_string) simp_all
  from Cons.IH [OF this] Cons.prems show ?case by simp
qed simp

lemma emits_read:
  "emits w fs \<Longrightarrow> read_message f m (finish w) = fold_fields f m fs"
  by (auto simp: emits_def read_message_def finish_bytes_of dest: parses_fields)

lemma fold_fields_append:
  "fold_fields f m (xs @ ys) = (case fold_fields f m xs of None \<Rightarrow> None | Some m' \<Rightarrow> fold_fields f m' ys)"
  by (induction xs arbitrary: m) (auto split: option.split)

lemma fold_sfield: "fold_fields (on_field fs fi) m (sfield n s) = Some (if s = [] then m else fs n s m)"
  by (simp add: sfield_def on_field_def)

lemma fold_ifield: "fold_fields (on_field fs fi) m (ifield n v) = Some (if v = 0 then m else fi n v m)"
  by (simp add: ifield_def on_field_def)

lemma fold_tags:
  "fold_fields (on_field set_CreateSlot_str fi) m (map (\<lambda>t. (13, WBytes (utf8_write t))) ts)
     = Some (m\<lparr>cs_tags := cs_tags m @ ts\<rparr>)"
  by (induction ts arbitrary: m) (simp_all add: on_field_def set_CreateSlot_str_def)

section \<open>The contract of a codec\<close>

locale message_codec =
  fixes encode :: "'m \<Rightarrow> writer \<Rightarrow> writer"
    and decode :: "byte list \<Rightarrow> 'm option"
    and encodable :: "'m \<Rightarrow> bool"
  assumes decode_encode: "encodable m \<Longrightarrow> decode (finish (encode m create)) = Some m"
begin

lemma encode_inject:
  "encodable m \<Longrightarrow> encodable m' \<Longrightarrow> finish (encode m create) = finish (encode m' create) \<longleftrightarrow> m = m'"
  using decode_encode by (metis option.inject)

end

definition encodable_CreateSlot :: "MsgCreateSlot \<Rightarrow> bool" where
  "encodable_CreateSlot m \<longleftrightarrow>
     list_all short [cs_publisher m, cs_domain m, cs_label m, cs_summary m, cs_category m, cs_placement m,
                     cs_size m, cs_rateDenom m, cs_rateAmount m] \<and> list_all short (cs_tags m)"

definition encodable_UpdateSlotStatus :: "MsgUpdateSlotStatus \<Rightarrow> bool" where
  "encodable_UpdateSlotStatus m \<longleftrightarrow>
     short (us_publisher m) \<and> short (us_slotId m) \<and> - (2 ^ 31) \<le> us_status m \<and> us_status m < 2 ^ 31"

definition encodable_LeaseSlot :: "MsgLeaseSlot \<Rightarrow> bool" where
  "encodable_LeaseSlot m \<longleftrightarrow> list_all short [ls_lessee m, ls_slotId m, ls_targetUrl m]"

definition encodable_RegisterPublisher :: "MsgRegisterPublisher \<Rightarrow> bool" where
  "encodable_RegisterPublisher m \<longleftrightarrow>
     list_all short [rp_owner m, rp_domain m, rp_metadataUri m, rp_proof m, rp_verifier m, rp_referrer m]"

lemma if_nil_upd [simp]: "(if s = [] then [] else s) = s"
  by simp

lemma fold_CreateSlot_str:
  "fold_fields (on_field set_CreateSlot_str fi) m (sfield 1 s) = Some (m\<lparr>cs_publisher := if s = [] then cs_publisher m else s\<rparr>)"
  "fold_fields (on_field set_CreateSlot_str fi) m (sfield 2 s) = Some (m\<lparr>cs_domain := if s = [] then cs_domain m else s\<rparr>)"
  "fold_fields (on_field set_CreateSlot_str fi) m (sfield 3 s) = Some (m\<lparr>cs_label := if s = [] then cs_label m else s\<rparr>)"
  "fold_fields (on_field set_CreateSlot_str fi) m (sfield 4 s) = Some (m\<lparr>cs_summary := if s = [] then cs_summary m else s\<rparr>)"
  "fold_fields (on_field set_CreateSlot_str fi) m (sfield 5 s) = Some (m\<lparr>cs_category := if s = [] then cs_category m else s\<rparr>)"
  "fold_fields (on_field set_CreateSlot_str fi) m (sfield 6 s) = Some (m\<lparr>cs_placement := if s = [] then cs_placement m else s\<rparr>)"
  "fold_fields (on_field set_CreateSlot_str fi) m (sfield 7 s) = Some (m\<lparr>cs_size := if s = [] then cs_size m else s\<rparr>)"
  "fold_fields (on_field set_CreateSlot_str fi) m (sfield 8 s) = Some (m\<lparr>cs_rateDenom := if s = [] then cs_rateDenom m else s\<rparr>)"
  "fold_fields (on_field set_CreateSlot_str fi) m (sfield 9 s) = Some (m\<lparr>cs_rateAmount := if s = [] then cs_rateAmount m else s\<rparr>)"
  by (simp_all add: fold_sfield set_CreateSlot_str_def)

lemma fold_CreateSlot_int:
  "fold_fields (on_field fs set_CreateSlot_int) m (ifield 10 v) = Some (m\<lparr>cs_unitSeconds := if v = 0 then cs_unitSeconds m else word_of_int v\<rparr>)"
  "fold_fields (on_field fs set_CreateSlot_int) m (ifield 11 v) = Some (m\<lparr>cs_minDurationSeconds := if v = 0 then cs_minDurationSeconds m else word_of_int v\<rparr>)"
  "fold_fields (on_field fs set_CreateSlot_int) m (ifield 12 v) = Some (m\<lparr>cs_maxDurationSeconds := if v = 0 then cs_maxDurationSeconds m else word_of_int v\<rparr>)"
  by (simp_all add: fold_ifield set_CreateSlot_int_def)

lemma fold_UpdateSlotStatus_str:
  "fold_fields (on_field set_UpdateSlotStatus_str fi) m (sfield 1 s) = Some (m\<lparr>us_publisher := if s = [] then us_publisher m else s\<rparr>)"
  "fold_fields (on_field set_UpdateSlotStatus_str fi) m (sfield 2 s) = Some (m\<lparr>us_slotId := if s = [] then us_slotId m else s\<rparr>)"
  by (simp_all add: fold_sfield set_UpdateSlotStatus_str_def)

lemma fold_UpdateSlotStatus_int:
  "fold_fields (on_field fs set_UpdateSlotStatus_int) m (ifield 3 v) = Some (m\<lparr>us_status := if v = 0 then us_status m else signed_take_bit 31 v\<rparr>)"
  by (simp_all add: fold_ifield set_UpdateSlotStatus_int_def)

lemma fold_LeaseSlot_str:
  "fold_fields (on_field set_LeaseSlot_str fi) m (sfield 1 s) = Some (m\<lparr>ls_lessee := if s = [] then ls_lessee m else s\<rparr>)"
  "fold_fields (on_field set_LeaseSlot_str fi) m (sfield 2 s) = Some (m\<lparr>ls_slotId := if s = [] then ls_slotId m else s\<rparr>)"
  "fold_fields (on_field set_LeaseSlot_str fi) m (sfield 3 s) = Some (m\<lparr>ls_targetUrl := if s = [] then ls_targetUrl m else s\<rparr>)"
  by (simp_all add: fold_sfield set_LeaseSlot_str_def)

lemma fold_LeaseSlot_int:
  "fold_fields (on_field fs set_LeaseSlot_int) m (ifield 4 v) = Some (m\<lparr>ls_startsAtUnix := if v = 0 then ls_startsAtUnix m else word_of_int v\<rparr>)"
  "fold_fields (on_field fs set_LeaseSlot_int) m (ifield 5 v) = Some (m\<lparr>ls_durationSeconds := if v = 0 then ls_durationSeconds m else word_of_int v\<rparr>)"
  by (simp_all add: fold_ifield set_LeaseSlot_int_def)

lemma fold_RegisterPublisher_str:
  "fold_fields (on_field set_RegisterPublisher_str fi) m (sfield 1 s) = Some (m\<lparr>rp_owner := if s = [] then rp_owner m else s\<rparr>)"
  "fold_fields (on_field set_RegisterPublisher_str fi) m (sfield 2 s) = Some (m\<lparr>rp_domain := if s = [] then rp_domain m else s\<rparr>)"
  "fold_fields (on_field set_RegisterPublisher_str fi) m (sfield 3 s) = Some (m\<lparr>rp_metadataUri := if s = [] then rp_metadataUri m else s\<rparr>)"
  "fold_fields (on_field set_RegisterPublisher_str fi) m (sfield 4 s) = Some (m\<lparr>rp_proof := if s = [] then rp_proof m else s\<rparr>)"
  "fold_fields (on_field set_RegisterPublisher_str fi) m (sfield 5 s) = Some (m\<lparr>rp_verifier := if s = [] then rp_verifier m else s\<rparr>)"
  "fold_fields (on_field set_RegisterPublisher_str fi) m (sfield 6 s) = Some (m\<lparr>rp_referrer := if s = [] then rp_referrer m else s\<rparr>)"
  by (simp_all add: fold_sfield set_RegisterPublisher_str_def)

lemma decode_encode_CreateSlot:
  assumes "encodable_CreateSlot m"
  shows "decode_CreateSlot (finish (MsgCreateSlot_encode m create)) = Some m"
proof -
  have "emits (MsgCreateSlot_encode m create)
    (((((((((((((([] @ sfield 1 (cs_publisher m)) @ sfield 2 (cs_domain m)) @ sfield 3 (cs_label m)) @ sfield 4 (cs_summary m)) @ sfield 5 (cs_category m)) @ sfield 6 (cs_placement m)) @ sfield 7 (cs_size m)) @ sfield 8 (cs_rateDenom m)) @ sfield 9 (cs_rateAmount m)) @ ifield 10 (uint (cs_unitSeconds m))) @ ifield 11 (uint (cs_minDurationSeconds m))) @ ifield 12 (uint (cs_maxDurationSeconds m))) @ map (\<lambda>t. (13, WBytes (utf8_write t))) (cs_tags m)))"
    unfolding MsgCreateSlot_encode_def Let_def
    using assms by (intro emits_tags emits_long_field emits_str_field emits_create) (simp_all add: encodable_CreateSlot_def)
  note e = emits_read [OF this]
  show ?thesis unfolding decode_CreateSlot_def e
    by (simp add: fold_fields_append fold_CreateSlot_str fold_CreateSlot_int fold_tags uint_0_iff)
qed

lemma low32:
  fixes v :: int
  assumes "- (2 ^ 31) \<le> v" "v < 2 ^ 31"
  shows "signed_take_bit 31 (v + 2 ^ 64) = v" "signed_take_bit 31 v = v"
proof -
  show s: "signed_take_bit 31 v = v" using assms by (intro signed_take_bit_int_eq_self) simp_all
  have "(v + 2 ^ 64) mod 2 ^ 32 = (v + 4294967296 * 2 ^ 32) mod 2 ^ 32" by simp
  then have "take_bit 32 (v + 2 ^ 64) = take_bit 32 v" by (simp only: take_bit_eq_mod mod_mult_self1)
  then have "signed_take_bit 31 (v + 2 ^ 64) = signed_take_bit 31 v"
    by (simp add: signed_take_bit_eq_iff_take_bit_eq)
  with s show "signed_take_bit 31 (v + 2 ^ 64) = v" by simp
qed

lemma decode_encode_UpdateSlotStatus:
  assumes "encodable_UpdateSlotStatus m"
  shows "decode_UpdateSlotStatus (finish (MsgUpdateSlotStatus_encode m create)) = Some m"
proof -
  have "emits (MsgUpdateSlotStatus_encode m create)
    (((([] @ sfield 1 (us_publisher m)) @ sfield 2 (us_slotId m)) @ ifield 3 (if us_status m < 0 then us_status m + 2 ^ 64 else us_status m)))"
    unfolding MsgUpdateSlotStatus_encode_def Let_def
    using assms by (intro emits_int32_field emits_str_field emits_create) (simp_all add: encodable_UpdateSlotStatus_def)
  note e = emits_read [OF this]
  show ?thesis unfolding decode_UpdateSlotStatus_def e
    using low32 [of "us_status m"] assms
    by (simp add: fold_fields_append fold_UpdateSlotStatus_str fold_UpdateSlotStatus_int
        encodable_UpdateSlotStatus_def)
qed

lemma decode_encode_LeaseSlot:
  assumes "encodable_LeaseSlot m"
  shows "decode_LeaseSlot (finish (MsgLeaseSlot_encode m create)) = Some m"
proof -
  have "emits (MsgLeaseSlot_encode m create)
    (((((([] @ sfield 1 (ls_lessee m)) @ sfield 2 (ls_slotId m)) @ sfield 3 (ls_targetUrl m)) @ ifield 4 (uint (ls_startsAtUnix m))) @ ifield 5 (uint (ls_durationSeconds m))))"
    unfolding MsgLeaseSlot_encode_def Let_def
    using assms by (intro emits_long_field emits_str_field emits_create) (simp_all add: encodable_LeaseSlot_def)
  note e = emits_read [OF this]
  show ?thesis unfolding decode_LeaseSlot_def e
    by (simp add: fold_fields_append fold_LeaseSlot_str fold_LeaseSlot_int uint_0_iff)
qed

lemma decode_encode_RegisterPublisher:
  assumes "encodable_RegisterPublisher m"
  shows "decode_RegisterPublisher (finish (MsgRegisterPublisher_encode m create)) = Some m"
proof -
  have "emits (MsgRegisterPublisher_encode m create)
    ((((((([] @ sfield 1 (rp_owner m)) @ sfield 2 (rp_domain m)) @ sfield 3 (rp_metadataUri m)) @ sfield 4 (rp_proof m)) @ sfield 5 (rp_verifier m)) @ sfield 6 (rp_referrer m)))"
    unfolding MsgRegisterPublisher_encode_def Let_def
    using assms by (intro emits_str_field emits_create) (simp_all add: encodable_RegisterPublisher_def)
  note e = emits_read [OF this]
  show ?thesis unfolding decode_RegisterPublisher_def e
    by (simp add: fold_fields_append fold_RegisterPublisher_str uint_0_iff)
qed

interpretation create_slot: message_codec MsgCreateSlot_encode decode_CreateSlot encodable_CreateSlot
  by unfold_locales (rule decode_encode_CreateSlot)

interpretation update_slot_status: message_codec MsgUpdateSlotStatus_encode decode_UpdateSlotStatus encodable_UpdateSlotStatus
  by unfold_locales (rule decode_encode_UpdateSlotStatus)

interpretation lease_slot: message_codec MsgLeaseSlot_encode decode_LeaseSlot encodable_LeaseSlot
  by unfold_locales (rule decode_encode_LeaseSlot)

interpretation register_publisher: message_codec MsgRegisterPublisher_encode decode_RegisterPublisher encodable_RegisterPublisher
  by unfold_locales (rule decode_encode_RegisterPublisher)

end
