(* ===== verification/Binary.thy ===== *)
theory Binary
  imports WalletMsgs
begin

text \<open>
  \<open>BinaryWriter\<close> of \<open>static/wallet-deps.bundle.mjs\<close>, the second protobuf writer of the bundle: the codecs of
  transactions (theory \<open>TxCodec\<close>) use it. It has the queue, \<open>uint32\<close> and \<open>string\<close> of \<open>Proto\<close>, nested messages
  (\<open>fork\<close>, \<open>ldelim\<close>) with a stack of suspended queues, and 64-bit integers that pass through a decimal string and
  two halves (\<open>int64FromString\<close>).

  The halves are signed 32-bit numbers, and the varint loop compares the low one as it is. So a value
  from 2 ^ 31 to 2 ^ 32 - 1 is written as one byte where five are announced; all other values below 2 ^ 64 are
  written right (\<open>u64_ok\<close>).

  \<open>appends enc fs\<close> is the contract of everything that writes to such a writer: it appends bytes that read back
  as the fields \<open>fs\<close>, whatever the writer holds, and leaves the stack alone. It composes, and a nested
  message is one length-delimited field of what its encoder appends.
\<close>

section \<open>The writer\<close>

record bin_writer = writer +
  states :: "((byte list \<times> nat) list \<times> nat) list"

definition bcreate :: bin_writer where
  "bcreate = \<lparr>ops = [], wlen = 0, states = []\<rparr>"

definition fork :: "bin_writer \<Rightarrow> bin_writer" where
  "fork w = w\<lparr>ops := [], wlen := 0, states := (ops w, wlen w) # states w\<rparr>"

definition reset :: "bin_writer \<Rightarrow> bin_writer" where
  "reset w =
     (case states w of
        (os, n) # rest \<Rightarrow> w\<lparr>ops := os, wlen := n, states := rest\<rparr>
      | [] \<Rightarrow> w\<lparr>ops := [], wlen := 0\<rparr>)"

definition ldelim :: "bin_writer \<Rightarrow> bin_writer" where
  "ldelim w =
     (let f = wlen w; w' = uint32 (of_nat f) (reset w)
      in if f \<noteq> 0 then w'\<lparr>ops := ops w' @ ops w, wlen := wlen w' + f\<rparr> else w')"

definition bin_bytes :: "byte list \<Rightarrow> bin_writer \<Rightarrow> bin_writer" where
  "bin_bytes t w =
     (let i = length t in if i \<noteq> 0 then push t i (uint32 (of_nat i) w) else push [0] 1 w)"

section \<open>64-bit integers\<close>

text \<open>\<open>e.slice(-a, -b)\<close> and \<open>BigInt.toString\<close>.\<close>

definition slice_end :: "nat \<Rightarrow> nat \<Rightarrow> jstring \<Rightarrow> jstring" where
  "slice_end a b e = (let n = length e in take ((n - b) - (n - a)) (drop (n - a) e))"

definition bigint_string :: "int \<Rightarrow> jstring" where
  "bigint_string t = (if t < 0 then 45 # dec_digits (- t) else dec_digits t)"

text \<open>\<open>x | 0\<close>: the signed 32-bit value.\<close>

definition to_int32 :: "int \<Rightarrow> int" where
  "to_int32 x = sint (of_int x :: u32)"

definition add_group :: "jstring \<Rightarrow> int \<times> int \<Rightarrow> int \<times> int" where
  "add_group ds fc =
     (let c = snd fc * 1000000; f = fst fc * 1000000 + dec_val ds
      in if 4294967296 \<le> f then (f mod 4294967296, c + f div 4294967296) else (f, c))"

text \<open>The two halves as JavaScript numbers.\<close>

record halves =
  half_lo :: int
  half_hi :: int

definition newBits :: "int \<Rightarrow> int \<Rightarrow> halves" where
  "newBits e t = \<lparr>half_lo = to_int32 e, half_hi = to_int32 t\<rparr>"

definition negate :: "int \<Rightarrow> int \<Rightarrow> halves" where
  "negate e t =
     (let t = - to_int32 t - 1
      in if e \<noteq> 0 then newBits (- to_int32 e - 1 + 1) t else newBits e (t + 1))"

definition int64FromString :: "jstring \<Rightarrow> halves" where
  "int64FromString s =
     (let minus = (s \<noteq> [] \<and> hd s = 45);
          e = (if minus then tl s else s);
          (f, c) = add_group (slice_end 6 0 e) (add_group (slice_end 12 6 e)
                     (add_group (slice_end 18 12 e) (add_group (slice_end 24 18 e) (0, 0))))
      in if minus then negate f c else newBits f c)"

definition int64Length :: "int \<Rightarrow> int \<Rightarrow> nat" where
  "int64Length e t =
     (let i = e; f = uint (drop_bit 28 (of_int e :: u32) OR push_bit 4 (of_int t)); c = uint (drop_bit 24 (of_int t :: u32))
      in if c = 0 then
           (if f = 0 then (if i < 16384 then (if i < 128 then 1 else 2) else if i < 2097152 then 3 else 4)
            else if f < 16384 then (if f < 128 then 5 else 6) else if f < 2097152 then 7 else 8)
         else if c < 128 then 9 else 10)"

text \<open>The two loops of \<open>writeVarint64\<close>: \<open>while (hi)\<close>, then \<open>while (lo > 127)\<close>.\<close>

function write_low :: "int \<Rightarrow> byte list" where
  "write_low l =
     (if 127 < l then ucast ((of_int l :: u32) AND 127 OR 128) # write_low (uint (drop_bit 7 (of_int l :: u32)))
      else [of_int l])"
  by pat_completeness auto
termination
proof (relation "measure nat")
  fix l :: int
  assume l: "127 < l"
  have "uint (drop_bit 7 (of_int l :: u32)) = l mod 4294967296 div 128"
    by (simp add: uint_drop_bit_div uint_word_of_int)
  also have "\<dots> \<le> l div 128" using l by (intro zdiv_mono1) (simp_all add: zmod_le_nonneg_dividend)
  finally have "uint (drop_bit 7 (of_int l :: u32)) < l" using l by linarith
  then show "(uint (drop_bit 7 (of_int l :: u32)), l) \<in> measure nat"
    by (simp only: in_measure nat_less_eq_zless [OF uint_ge_0])
qed simp

function bin_writeVarint64 :: "halves \<Rightarrow> byte list" where
  "bin_writeVarint64 v =
     (if half_hi v \<noteq> 0 then
        ucast ((of_int (half_lo v) :: u32) AND 127 OR 128)
          # bin_writeVarint64
              \<lparr>half_lo = uint (drop_bit 7 (of_int (half_lo v) :: u32) OR push_bit 25 (of_int (half_hi v))),
               half_hi = uint (drop_bit 7 (of_int (half_hi v) :: u32))\<rparr>
      else write_low (half_lo v))"
  by pat_completeness auto
termination
proof (relation "measures [\<lambda>v. if half_hi v < 0 then 1 else 0, \<lambda>v. nat (half_hi v)]")
  fix v :: halves
  assume v: "half_hi v \<noteq> 0"
  have u: "uint (drop_bit 7 (of_int (half_hi v) :: u32)) = half_hi v mod 4294967296 div 128"
    by (simp add: uint_drop_bit_div uint_word_of_int)
  have "half_hi v mod 4294967296 div 128 < half_hi v" if "0 < half_hi v"
  proof -
    have "half_hi v mod 4294967296 div 128 \<le> half_hi v div 128"
      using that by (intro zdiv_mono1) (simp_all add: zmod_le_nonneg_dividend)
    with that show ?thesis by linarith
  qed
  then show "(\<lparr>half_lo = uint (drop_bit 7 (of_int (half_lo v) :: u32) OR push_bit 25 (of_int (half_hi v))),
      half_hi = uint (drop_bit 7 (of_int (half_hi v) :: u32))\<rparr>, v)
    \<in> measures [\<lambda>v. if half_hi v < 0 then 1 else 0, \<lambda>v. nat (half_hi v)]"
    using v by (auto simp: u)
qed simp

declare write_low.simps [simp del] bin_writeVarint64.simps [simp del]

definition bin_int64 :: "int \<Rightarrow> bin_writer \<Rightarrow> bin_writer" where
  "bin_int64 t w =
     (let h = int64FromString (bigint_string t)
      in push (bin_writeVarint64 h) (int64Length (half_lo h) (half_hi h)) w)"

definition bin_int32 :: "int \<Rightarrow> bin_writer \<Rightarrow> bin_writer" where
  "bin_int32 t w =
     (if t < 0 then push (bin_writeVarint64 (int64FromString (bigint_string t))) 10 w else uint32 (of_int t) w)"

section \<open>The decimal string is split into the right halves\<close>

lemma dec_val_append: "dec_val (a @ b) = dec_val a * 10 ^ length b + dec_val b"
proof (induction b rule: rev_induct)
  case (snoc c b)
  then show ?case using dec_val_snoc [of "a @ b" c] by (simp add: dec_val_snoc algebra_simps)
qed (simp add: dec_val_def)

lemma dec_val_last6:
  "dec_val e = dec_val (take (length e - 6) e) * 1000000 + dec_val (drop (length e - 6) e)"
proof (cases "6 \<le> length e")
  case True
  then show ?thesis
    using dec_val_append [of "take (length e - 6) e" "drop (length e - 6) e"] by simp
qed (simp add: dec_val_def)

lemma slice_end_drop:
  "slice_end (6 + b) b e = drop (length (take (length e - b) e) - 6) (take (length e - b) e)"
  by (simp add: slice_end_def Let_def drop_take min_absorb2 diff_diff_left add.commute)

definition halves_val :: "int \<times> int \<Rightarrow> int" where
  "halves_val fc = fst fc + 4294967296 * snd fc"

definition low_ok :: "int \<times> int \<Rightarrow> bool" where
  "low_ok fc \<longleftrightarrow> 0 \<le> fst fc \<and> fst fc < 4294967296"

lemma add_group_val:
  assumes "low_ok fc" "0 \<le> dec_val ds"
  shows "halves_val (add_group ds fc) = halves_val fc * 1000000 + dec_val ds \<and> low_ok (add_group ds fc)"
proof -
  define f where "f = fst fc * 1000000 + dec_val ds"
  have "0 \<le> f" using assms by (simp add: f_def low_ok_def)
  moreover have "f mod 4294967296 + 4294967296 * (f div 4294967296) = f" by simp
  moreover have "halves_val fc * 1000000 + dec_val ds = f + 4294967296 * (snd fc * 1000000)"
    by (simp add: halves_val_def f_def algebra_simps)
  moreover have "add_group ds fc = (if 4294967296 \<le> f then (f mod 4294967296, snd fc * 1000000 + f div 4294967296)
      else (f, snd fc * 1000000))" by (simp add: add_group_def f_def Let_def)
  ultimately show ?thesis by (auto simp: halves_val_def low_ok_def algebra_simps)
qed

lemma halves_unique:
  assumes "low_ok fc" shows "fst fc = halves_val fc mod 4294967296" "snd fc = halves_val fc div 4294967296"
  using assms by (simp_all add: low_ok_def halves_val_def)

lemma digits_parts:
  "list_all is_digit e \<Longrightarrow> list_all is_digit (take n e) \<and> list_all is_digit (drop n e)"
  by (auto simp: list_all_iff dest: in_set_takeD in_set_dropD)

lemma digit_nonneg: "list_all is_digit s \<Longrightarrow> 0 \<le> dec_val s"
proof (induction s rule: rev_induct)
  case (snoc c s)
  then have "0 \<le> digit_val c" by (simp add: digit_val_def is_digit_def word_le_def)
  with snoc show ?case by (simp add: dec_val_snoc)
qed (simp add: dec_val_def)

text \<open>One step of the reading: the groups consumed so far spell the digits before the last \<open>b\<close>.\<close>

lemma read_group:
  assumes "low_ok fc" "list_all is_digit e" "halves_val fc = dec_val (take (length e - (6 + b)) e)"
  shows "low_ok (add_group (slice_end (6 + b) b e) fc)
    \<and> halves_val (add_group (slice_end (6 + b) b e) fc) = dec_val (take (length e - b) e)"
proof -
  let ?t = "take (length e - b) e"
  have "dec_val ?t = dec_val (take (length ?t - 6) ?t) * 1000000 + dec_val (drop (length ?t - 6) ?t)"
    by (rule dec_val_last6)
  moreover have "take (length ?t - 6) ?t = take (length e - (6 + b)) e"
    by (simp add: min_absorb1 min_absorb2 diff_diff_left add.commute)
  moreover have "0 \<le> dec_val (slice_end (6 + b) b e)"
    using assms(2) digits_parts digit_nonneg unfolding slice_end_drop by blast
  ultimately show ?thesis using add_group_val [OF assms(1), of "slice_end (6 + b) b e"] assms(3)
    by (simp add: slice_end_drop)
qed

lemma int64FromString_digits:
  assumes "list_all is_digit e" "dec_val e < 10 ^ 24"
  shows "int64FromString e = newBits (dec_val e mod 4294967296) (dec_val e div 4294967296)"
proof -
  have start: "dec_val (take (length e - 24) e) = 0"
  proof (cases "24 \<le> length e")
    case True
    then have "dec_val e = dec_val (take (length e - 24) e) * 10 ^ 24 + dec_val (drop (length e - 24) e)"
      using dec_val_append [of "take (length e - 24) e" "drop (length e - 24) e"] by simp
    moreover have "0 \<le> dec_val (take (length e - 24) e)" "0 \<le> dec_val (drop (length e - 24) e)"
      using assms(1) digits_parts digit_nonneg by blast+
    ultimately have "dec_val (take (length e - 24) e) * 10 ^ 24 < 1 * 10 ^ 24" using assms(2) by linarith
    then have "dec_val (take (length e - 24) e) < 1" by (rule mult_right_less_imp_less) simp
    with \<open>0 \<le> dec_val (take (length e - 24) e)\<close> show ?thesis by linarith
  qed (simp add: dec_val_def)
  define fc1 where "fc1 = add_group (slice_end 24 18 e) (0, 0)"
  define fc2 where "fc2 = add_group (slice_end 18 12 e) fc1"
  define fc3 where "fc3 = add_group (slice_end 12 6 e) fc2"
  define fc4 where "fc4 = add_group (slice_end 6 0 e) fc3"
  have 1: "low_ok fc1 \<and> halves_val fc1 = dec_val (take (length e - 18) e)"
    using read_group [of "(0, 0)" e 18] assms(1) start by (simp add: fc1_def low_ok_def halves_val_def)
  have 2: "low_ok fc2 \<and> halves_val fc2 = dec_val (take (length e - 12) e)"
    using read_group [of fc1 e 12] assms(1) 1 by (simp add: fc2_def)
  have 3: "low_ok fc3 \<and> halves_val fc3 = dec_val (take (length e - 6) e)"
    using read_group [of fc2 e 6] assms(1) 2 by (simp add: fc3_def)
  have 4: "low_ok fc4 \<and> halves_val fc4 = dec_val e"
    using read_group [of fc3 e 0] assms(1) 3 by (simp add: fc4_def)
  have m: "(e \<noteq> [] \<and> hd e = 45) = False" using assms(1) by (cases e) (auto simp: is_digit_def)
  have "int64FromString e = (case fc4 of (f, c) \<Rightarrow> newBits f c)"
    by (simp only: int64FromString_def fc4_def fc3_def fc2_def fc1_def Let_def m if_False)
  then show ?thesis using 4 halves_unique [of fc4] by (simp add: case_prod_unfold)
qed

section \<open>The loops write the base-128 expansion\<close>

lemma of_to_int32 [simp]: "(of_int (to_int32 x) :: u32) = of_int x"
  by (simp add: to_int32_def)

lemma to_int32_range: "- 2147483648 \<le> to_int32 x" "to_int32 x < 2147483648"
  using sint_ge [of "of_int x :: u32"] sint_lt [of "of_int x :: u32"] by (simp_all add: to_int32_def)

lemma to_int32_eq: "0 \<le> x \<Longrightarrow> x < 4294967296 \<Longrightarrow> to_int32 x = (if x < 2147483648 then x else x - 4294967296)"
proof -
  assume x: "0 \<le> x" "x < 4294967296"
  have "to_int32 x = signed_take_bit 31 x" by (simp add: to_int32_def signed_of_int)
  moreover have "signed_take_bit 31 x = x" if "x < 2147483648"
    using x that by (intro signed_take_bit_int_eq_self) simp_all
  moreover have "signed_take_bit 31 x = x - 4294967296" if "\<not> x < 2147483648"
  proof -
    have "signed_take_bit 31 (x - 4294967296) = x - 4294967296"
      using x that by (intro signed_take_bit_int_eq_self) simp_all
    moreover have "take_bit 32 (x - 4294967296) = take_bit 32 x"
      by (simp add: take_bit_eq_mod mod_diff_eq [symmetric])
    then have "signed_take_bit 31 (x - 4294967296) = signed_take_bit 31 x"
      by (simp add: signed_take_bit_eq_iff_take_bit_eq)
    ultimately show ?thesis by simp
  qed
  ultimately show ?thesis by simp
qed

lemma write_low_word:
  assumes "0 \<le> l" "l < 4294967296" shows "write_low l = writeVarint32 (of_int l)"
  using assms
proof (induction l rule: write_low.induct)
  case (1 l)
  have u: "uint (of_int l :: u32) = l" using 1(2,3) by (simp add: uint_word_of_int mod_pos_pos_trivial)
  have c: "127 < (of_int l :: u32) \<longleftrightarrow> 127 < l" by (simp add: word_less_def u)
  have "uint (drop_bit 7 (of_int l :: u32)) < 4294967296" using uint_lt2p [of "drop_bit 7 (of_int l :: u32)"] by simp
  moreover have "(ucast (of_int l :: u32) :: byte) = of_int l" by (simp only: ucast_eq u)
  ultimately show ?case using 1(1)
    by (simp add: write_low.simps [of l] writeVarint32.simps [of "of_int l"] c)
qed

definition half_ok :: "halves \<Rightarrow> bool" where
  "half_ok v \<longleftrightarrow> (half_hi v \<noteq> 0 \<or> 0 \<le> half_lo v) \<and> half_lo v < 4294967296
     \<and> - 4294967296 < half_hi v \<and> half_hi v < 4294967296"

lemma of_int_zero32: "- 4294967296 < x \<Longrightarrow> x < 4294967296 \<Longrightarrow> (of_int x :: u32) = 0 \<longleftrightarrow> x = 0"
proof -
  assume x: "- 4294967296 < x" "x < 4294967296"
  have "(of_int x :: u32) = 0 \<longleftrightarrow> 4294967296 dvd x" by (simp add: word_of_int_eq_0_iff)
  also have "\<dots> \<longleftrightarrow> x = 0" using x zdvd_imp_le [of 4294967296 x] zdvd_imp_le [of 4294967296 "- x"] by (cases "0 < x") auto
  finally show ?thesis .
qed

lemma bin_writeVarint64_words:
  "half_ok v \<Longrightarrow> bin_writeVarint64 v = writeVarint64 \<lparr>lo = of_int (half_lo v), hi = of_int (half_hi v)\<rparr>"
proof (induction v rule: bin_writeVarint64.induct)
  case (1 v)
  let ?l = "drop_bit 7 (of_int (half_lo v) :: u32) OR push_bit 25 (of_int (half_hi v))"
  let ?h = "drop_bit 7 (of_int (half_hi v) :: u32)"
  have z: "(of_int (half_hi v) :: u32) = 0 \<longleftrightarrow> half_hi v = 0" using 1(2) by (simp add: half_ok_def of_int_zero32)
  have "half_ok \<lparr>half_lo = uint ?l, half_hi = uint ?h\<rparr>"
    using uint_lt2p [of ?l] uint_lt2p [of ?h] order_less_le_trans [OF _ uint_ge_0 [of ?h], of "- 4294967296"]
    by (simp add: half_ok_def)
  then have "bin_writeVarint64 \<lparr>half_lo = uint ?l, half_hi = uint ?h\<rparr> = writeVarint64 \<lparr>lo = ?l, hi = ?h\<rparr>"
    if "half_hi v \<noteq> 0" using 1(1) that by simp
  moreover have "write_low (half_lo v) = writeVarint32 (of_int (half_lo v))" if "half_hi v = 0"
    using 1(2) that by (intro write_low_word) (simp_all add: half_ok_def)
  ultimately show ?case
    by (simp add: bin_writeVarint64.simps [of v] writeVarint64.simps [of "\<lparr>lo = of_int (half_lo v), hi = of_int (half_hi v)\<rparr>"] z)
qed

lemma int64Length_words: "int64Length (to_int32 a) (to_int32 b) = LongBits_length \<lparr>lo = of_int a, hi = of_int b\<rparr>"
proof -
  let ?a = "of_int a :: u32"
  let ?i = "drop_bit 28 ?a OR push_bit 4 (of_int b)"
  have i: "to_int32 a = uint ?a" if "?i = 0"
  proof -
    have "drop_bit 28 ?a = 0" using that by (simp add: or_eq_0_iff)
    then have "uint ?a div 268435456 = 0" using uint_drop_bit_div [of 28 ?a] by simp
    then have "uint ?a < 268435456" using uint_ge_0 [of ?a] by (simp add: div_eq_0_iff)
    then have "to_int32 (uint ?a) = uint ?a" by (subst to_int32_eq) simp_all
    then show ?thesis by (simp add: to_int32_def)
  qed
  have z: "uint x = 0 \<longleftrightarrow> x = 0" for x :: u32 by (simp add: uint_0_iff)
  show ?thesis unfolding int64Length_def LongBits_length_def Let_def of_to_int32 z
    using i by (simp add: word_less_def)
qed

definition u64_ok :: "int \<Rightarrow> bool" where
  "u64_ok v \<longleftrightarrow> 0 \<le> v \<and> v < 18446744073709551616 \<and> \<not> (2147483648 \<le> v \<and> v < 4294967296)"

lemma bigint_halves:
  assumes "0 \<le> v" "v < 18446744073709551616"
  shows "int64FromString (bigint_string v) = newBits (v mod 4294967296) (v div 4294967296)"
proof -
  have "list_all is_digit (dec_digits v)" "dec_val (dec_digits v) = v" using dec_digits_spec [OF assms(1)] by simp_all
  then show ?thesis using int64FromString_digits [of "dec_digits v"] assms by (simp add: bigint_string_def)
qed

lemma bin_int64_longbits:
  assumes "u64_ok v"
  shows "bin_int64 v w = push (writeVarint64 (LongBits_from (of_int v))) (LongBits_length (LongBits_from (of_int v))) w"
proof -
  have v: "0 \<le> v" "v < 18446744073709551616" using assms by (simp_all add: u64_ok_def)
  let ?f = "v mod 4294967296" and ?c = "v div 4294967296"
  have c: "0 \<le> ?c" "?c < 4294967296" using v by (simp_all add: pos_imp_zdiv_nonneg_iff div_less_iff_mult)
  have "to_int32 ?c \<noteq> 0 \<or> 0 \<le> to_int32 ?f"
  proof (cases "?c = 0")
    case True
    then have "v < 4294967296" using v(1) by (simp add: div_eq_0_iff)
    with assms have "v < 2147483648" by (simp add: u64_ok_def)
    with v show ?thesis by (simp add: to_int32_eq)
  next
    case False
    with c show ?thesis by (simp add: to_int32_eq)
  qed
  then have "half_ok (newBits ?f ?c)"
    using to_int32_range [of ?f] to_int32_range [of ?c] by (simp add: half_ok_def newBits_def)
  note e = bin_writeVarint64_words [OF this]
  have "\<lparr>lo = of_int ?f, hi = of_int ?c\<rparr> = LongBits_from (of_int v)"
  proof -
    have "(of_int ?f :: u32) = ucast (of_int v :: long)"
      by (subst word_uint_eq_iff) (simp add: unsigned_ucast_eq uint_word_of_int take_bit_eq_mod mod_mod_cancel)
    moreover have "(of_int ?c :: u32) = ucast (drop_bit 32 (of_int v :: long))"
      by (subst word_uint_eq_iff)
        (use v c in \<open>simp add: unsigned_ucast_eq uint_drop_bit_div uint_word_of_int take_bit_eq_mod mod_pos_pos_trivial del: drop_bit_eq_div\<close>)
    ultimately show ?thesis by (simp add: LongBits_from_def)
  qed
  then show ?thesis using e int64Length_words [of ?f ?c] bigint_halves [OF v]
    by (simp add: bin_int64_def Let_def newBits_def)
qed

lemma wf_bin_int64: "wf_writer w \<Longrightarrow> u64_ok v \<Longrightarrow> wf_writer (bin_int64 v w)"
  by (simp add: bin_int64_longbits wf_push writeVarint64_varint LongBits_length_correct)

lemma bytes_of_bin_int64: "u64_ok v \<Longrightarrow> bytes_of (bin_int64 v w) = bytes_of w @ varint v"
  by (simp add: bin_int64_longbits writeVarint64_varint longbits_val_from uint_word_of_int u64_ok_def mod_pos_pos_trivial)

text \<open>The gap: one byte is written where five are announced.\<close>

lemma bin_int64_gap:
  assumes "2147483648 \<le> v" "v < 4294967296"
  shows "bin_int64 v w = push [of_int v] 5 w"
proof -
  have v: "v mod 4294967296 = v" "v div 4294967296 = 0" using assms by simp_all
  have l: "to_int32 v = v - 4294967296" "to_int32 0 = 0" using assms by (simp_all add: to_int32_eq)
  have "of_int (v - 4294967296) = (of_int v :: byte)" by (simp add: word_of_int_eq_iff take_bit_eq_mod mod_diff_eq [symmetric])
  then have "bin_writeVarint64 (newBits v 0) = [of_int v]"
    using assms l by (simp add: newBits_def bin_writeVarint64.simps [of "\<lparr>half_lo = v - 4294967296, half_hi = 0\<rparr>"]
        write_low.simps [of "v - 4294967296"])
  moreover have "int64Length (to_int32 v) (to_int32 0) = 5"
  proof -
    have "longbits_val \<lparr>lo = of_int v, hi = 0\<rparr> = v" using assms by (simp add: longbits_val_def uint_word_of_int v)
    moreover have "length (varint v) = Suc 4" using assms by (intro length_varint_eq) simp_all
    ultimately show ?thesis using int64Length_words [of v 0] by (simp add: LongBits_length_correct)
  qed
  ultimately show ?thesis using bigint_halves [of v] assms v by (simp add: bin_int64_def Let_def newBits_def)
qed

section \<open>What an encoder appends\<close>

definition appends :: "(bin_writer \<Rightarrow> bin_writer) \<Rightarrow> (int \<times> wire) list \<Rightarrow> bool" where
  "appends enc fs \<longleftrightarrow> (\<exists>bs. parses bs fs \<and> (\<forall>w. wf_writer w \<longrightarrow>
     wf_writer (enc w) \<and> bytes_of (enc w) = bytes_of w @ bs \<and> states (enc w) = states w))"

named_theorems appends_intros "what the steps of an encoder append"

lemma appendsI:
  assumes "parses bs fs" "\<And>w. wf_writer w \<Longrightarrow> wf_writer (enc w)" "\<And>w. wf_writer w \<Longrightarrow> bytes_of (enc w) = bytes_of w @ bs"
    and "\<And>w. states (enc w) = states w"
  shows "appends enc fs"
  using assms unfolding appends_def by blast

lemma wf_bcreate [simp]: "wf_writer bcreate" "bytes_of bcreate = []"
  by (simp_all add: wf_writer_def bcreate_def bytes_of_def)

lemma wf_wlen: "wf_writer w \<Longrightarrow> wlen w = length (bytes_of w)"
proof -
  assume w: "wf_writer w"
  then have "map snd (ops w) = map length (map fst (ops w))" by (auto simp: wf_writer_def list_all_iff)
  with w show ?thesis by (simp add: wf_writer_def bytes_of_def length_concat)
qed

lemma states_push [simp]:
  "states (push bs n w) = states w" "states (uint32 tag w) = states w" "states (string s w) = states w"
  "states (bin_bytes t w) = states w" "states (bin_int64 v w) = states w"
  by (simp_all add: push_def uint32_def string_def bin_bytes_def bin_int64_def Let_def)

lemma appends_id [appends_intros]: "appends (\<lambda>w. w) []"
  by (rule appendsI [OF parses_Nil]) simp_all

lemma appends_comp: "appends f fs \<Longrightarrow> appends g gs \<Longrightarrow> appends (\<lambda>w. g (f w)) (fs @ gs)"
  unfolding appends_def by (metis append.assoc parses_append)

lemma appends_fold:
  "(\<And>x. x \<in> set xs \<Longrightarrow> appends (enc x) (fields_of x)) \<Longrightarrow> appends (fold enc xs) (concat (map fields_of xs))"
proof (induction xs)
  case Nil
  then show ?case using appends_id by (simp add: id_def)
next
  case (Cons x xs)
  then have "appends (\<lambda>w. fold enc xs (enc x w)) (fields_of x @ concat (map fields_of xs))" by (intro appends_comp) simp_all
  then show ?case by (simp add: comp_def)
qed

lemma appends_finish: "appends enc fs \<Longrightarrow> wf_writer w \<Longrightarrow> bytes_of (enc w) = bytes_of w @ finish (enc bcreate)"
  unfolding appends_def using finish_bytes_of [of "enc bcreate"] by fastforce

lemma appends_parse: "appends enc fs \<Longrightarrow> parse_fields (finish (enc bcreate)) = Some fs"
  unfolding appends_def using finish_bytes_of [of "enc bcreate"] by (fastforce dest: parses_fields)

lemma appends_read: "appends enc fs \<Longrightarrow> read_message f m (finish (enc bcreate)) = fold_fields f m fs"
  by (simp add: read_message_def appends_parse)

section \<open>Fields\<close>

definition bytes_field :: "u32 \<Rightarrow> byte list \<Rightarrow> bin_writer \<Rightarrow> bin_writer" where
  "bytes_field tag bs w = (if bs \<noteq> [] then bin_bytes bs (uint32 tag w) else w)"

definition u64_field :: "u32 \<Rightarrow> int \<Rightarrow> bin_writer \<Rightarrow> bin_writer" where
  "u64_field tag v w = (if v \<noteq> 0 then bin_int64 v (uint32 tag w) else w)"

definition nested :: "u32 \<Rightarrow> (bin_writer \<Rightarrow> bin_writer) \<Rightarrow> bin_writer \<Rightarrow> bin_writer" where
  "nested tag enc w = ldelim (enc (fork (uint32 tag w)))"

definition bfield :: "int \<Rightarrow> byte list \<Rightarrow> (int \<times> wire) list" where
  "bfield n bs = (if bs = [] then [] else [(n, WBytes bs)])"

definition small :: "byte list \<Rightarrow> bool" where
  "small bs \<longleftrightarrow> length bs < 2 ^ 32"

lemma uint_small: "small bs \<Longrightarrow> uint (of_nat (length bs) :: u32) = int (length bs)"
  by (simp add: small_def unsigned_of_nat take_bit_nat_eq_self)

lemma appends_bytes:
  assumes "small bs" "uint tag = n * 8 + 2" "0 \<le> n"
  shows "appends (\<lambda>w. bin_bytes bs (uint32 tag w)) [(n, WBytes bs)]"
proof (rule appendsI [OF parses_bytes [OF assms(3)]])
  fix w :: bin_writer
  assume "wf_writer w"
  then show "wf_writer (bin_bytes bs (uint32 tag w))" by (simp add: bin_bytes_def Let_def wf_push wf_uint32)
  show "bytes_of (bin_bytes bs (uint32 tag w)) = bytes_of w @ varint (n * 8 + 2) @ varint (int (length bs)) @ bs"
    using uint_small [OF assms(1)] assms(2) by (simp add: bin_bytes_def Let_def varint.simps [of 0])
qed simp

lemma appends_string:
  assumes "short s" "uint tag = n * 8 + 2" "0 \<le> n"
  shows "appends (\<lambda>w. string s (uint32 tag w)) [(n, WBytes (utf8_write s))]"
  by (rule appendsI [OF parses_bytes [OF assms(3), of "utf8_write s"]])
     (use assms in \<open>simp_all add: wf_string wf_uint32 bytes_of_string short_def utf8_length_correct\<close>)

lemma appends_u64:
  assumes "u64_ok v" "uint tag = n * 8" "0 \<le> n"
  shows "appends (\<lambda>w. bin_int64 v (uint32 tag w)) [(n, WVarint v)]"
proof -
  have "0 \<le> v" using assms(1) by (simp add: u64_ok_def)
  from appendsI [OF parses_varint [OF assms(3) this]] show ?thesis
    using assms by (simp add: wf_bin_int64 wf_uint32 bytes_of_bin_int64)
qed

lemma appends_str_field [appends_intros]:
  "short s \<Longrightarrow> uint tag = n * 8 + 2 \<Longrightarrow> 0 \<le> n \<Longrightarrow> appends (str_field tag s) (sfield n s)"
  using appends_string appends_id by (simp add: str_field_def [abs_def] sfield_def)

lemma appends_bytes_field [appends_intros]:
  "small bs \<Longrightarrow> uint tag = n * 8 + 2 \<Longrightarrow> 0 \<le> n \<Longrightarrow> appends (bytes_field tag bs) (bfield n bs)"
  using appends_bytes appends_id by (simp add: bytes_field_def [abs_def] bfield_def)

lemma appends_u64_field [appends_intros]:
  "u64_ok v \<Longrightarrow> uint tag = n * 8 \<Longrightarrow> 0 \<le> n \<Longrightarrow> appends (u64_field tag v) (ifield n v)"
  using appends_u64 appends_id by (simp add: u64_field_def [abs_def] ifield_def)

lemma appends_int32 [appends_intros]:
  assumes "0 \<le> t" "t < 4294967296" "uint tag = n * 8" "0 \<le> n"
  shows "appends (\<lambda>w. bin_int32 t (uint32 tag w)) [(n, WVarint t)]"
  by (rule appendsI [OF parses_varint [OF assms(4,1)]])
     (use assms in \<open>simp_all add: bin_int32_def wf_uint32 uint_word_of_int mod_pos_pos_trivial\<close>)

text \<open>A nested message is one length-delimited field of what its encoder appends.\<close>

lemma appends_nested:
  assumes "appends enc fs" "small (finish (enc bcreate))" "uint tag = n * 8 + 2" "0 \<le> n"
  shows "appends (nested tag enc) [(n, WBytes (finish (enc bcreate)))]"
proof (rule appendsI [OF parses_bytes [OF assms(4)]])
  fix w :: bin_writer
  let ?f = "fork (uint32 tag w)" and ?b = "finish (enc bcreate)"
  let ?w = "uint32 tag w"
  have f: "wf_writer ?f" "bytes_of ?f = []" by (simp_all add: fork_def wf_writer_def bytes_of_def)
  then have e: "wf_writer (enc ?f)" "states (enc ?f) = (ops ?w, wlen ?w) # states w"
    using assms(1) by (auto simp: appends_def fork_def)
  have b: "bytes_of (enc ?f) = ?b" using appends_finish [OF assms(1) f(1)] f(2) by simp
  have n: "wlen (enc ?f) = length ?b" using wf_wlen [OF e(1)] b by simp
  have r: "ops (reset (enc ?f)) = ops ?w" "wlen (reset (enc ?f)) = wlen ?w" "states (reset (enc ?f)) = states w"
    using e(2) by (simp_all add: reset_def)
  define u where "u = uint32 (of_nat (length ?b)) (reset (enc ?f))"
  have rw: "wf_writer w \<Longrightarrow> wf_writer (reset (enc ?f))" "bytes_of (reset (enc ?f)) = bytes_of ?w"
    using r wf_uint32 [of w tag] by (auto simp: wf_writer_def bytes_of_def)
  have l: "ldelim (enc ?f) = (if ?b \<noteq> [] then u\<lparr>ops := ops u @ ops (enc ?f), wlen := wlen u + length ?b\<rparr> else u)"
    by (simp add: ldelim_def Let_def n u_def)
  show "states (nested tag enc w) = states w" by (simp add: nested_def l u_def r(3))
  have bu: "bytes_of u = bytes_of w @ varint (n * 8 + 2) @ varint (int (length ?b))"
    using uint_small [OF assms(2)] assms(3) by (simp add: u_def rw(2))
  show "bytes_of (nested tag enc w) = bytes_of w @ varint (n * 8 + 2) @ varint (int (length ?b)) @ ?b"
    using bu b by (simp add: nested_def l bytes_of_def)
  show "wf_writer (nested tag enc w)" if "wf_writer w"
  proof -
    have "wf_writer u" using rw(1) [OF that] by (simp add: u_def wf_uint32)
    with e(1) n show ?thesis by (auto simp: nested_def l wf_writer_def)
  qed
qed

section \<open>The contract of a codec\<close>

text \<open>
  \<open>fields_of\<close> are the fields an encoder appends, \<open>step\<close> and \<open>blank\<close> the reader that folds over them. The codec can then
  be nested, and reading what it writes gives the message back.
\<close>

locale binary_codec =
  fixes encode :: "'m \<Rightarrow> bin_writer \<Rightarrow> bin_writer"
    and fields_of :: "'m \<Rightarrow> (int \<times> wire) list"
    and step :: "'m \<Rightarrow> int \<times> wire \<Rightarrow> 'm option"
    and blank :: 'm
    and encodable :: "'m \<Rightarrow> bool"
  assumes encode_appends: "encodable m \<Longrightarrow> appends (encode m) (fields_of m)"
    and read_fields: "encodable m \<Longrightarrow> fold_fields step blank (fields_of m) = Some m"
begin

lemma decode_encode: "encodable m \<Longrightarrow> read_message step blank (finish (encode m bcreate)) = Some m"
  by (simp add: appends_read [OF encode_appends] read_fields)

lemma encode_inject:
  "encodable m \<Longrightarrow> encodable m' \<Longrightarrow> finish (encode m bcreate) = finish (encode m' bcreate) \<longleftrightarrow> m = m'"
  using decode_encode by (metis option.inject)

lemma nested_appends:
  "encodable m \<Longrightarrow> small (finish (encode m bcreate)) \<Longrightarrow> uint tag = n * 8 + 2 \<Longrightarrow> 0 \<le> n \<Longrightarrow>
   appends (nested tag (encode m)) [(n, WBytes (finish (encode m bcreate)))]"
  by (rule appends_nested [OF encode_appends])

lemma repeated_appends:
  "list_all (\<lambda>m. encodable m \<and> small (finish (encode m bcreate))) ms \<Longrightarrow> uint tag = n * 8 + 2 \<Longrightarrow> 0 \<le> n \<Longrightarrow>
   appends (fold (\<lambda>m. nested tag (encode m)) ms) (concat (map (\<lambda>m. [(n, WBytes (finish (encode m bcreate)))]) ms))"
  by (rule appends_fold) (auto simp: list_all_iff intro: nested_appends)

end

end
