(* ===== verification/TxCodec.thy ===== *)
theory TxCodec
  imports Binary
begin

text \<open>
  The codecs of a Cosmos transaction in \<open>static/wallet-deps.bundle.mjs\<close> (cosmjs-types): \<open>Any\<close>, \<open>Coin\<close>, \<open>Fee\<close>,
  \<open>PubKey\<close>, \<open>ModeInfo\<close>, \<open>SignerInfo\<close>, \<open>AuthInfo\<close>, \<open>TxBody\<close>, \<open>SignDoc\<close> and \<open>TxRaw\<close>, as far as a transaction signed
  directly by one account uses them: a \<open>ModeInfo\<close> is a single mode, there is no tip.

  Each codec interprets the contract \<open>binary_codec\<close> of \<open>Binary\<close> against a reader with the field numbers of
  \<open>cosmos/tx/v1beta1/tx.proto\<close>. The \<open>*_ok\<close> predicates say what it can carry: strings and byte strings shorter
  than 2 ^ 32 bytes, and 64-bit numbers outside the gap of the writer.
\<close>

section \<open>Optional and repeated parts\<close>

definition nested_opt :: "u32 \<Rightarrow> ('m \<Rightarrow> bin_writer \<Rightarrow> bin_writer) \<Rightarrow> 'm option \<Rightarrow> bin_writer \<Rightarrow> bin_writer" where
  "nested_opt tag enc x w = (case x of None \<Rightarrow> w | Some m \<Rightarrow> nested tag (enc m) w)"

definition msg_field :: "int \<Rightarrow> ('m \<Rightarrow> bin_writer \<Rightarrow> bin_writer) \<Rightarrow> 'm \<Rightarrow> int \<times> wire" where
  "msg_field n enc m = (n, WBytes (finish (enc m bcreate)))"

definition fits :: "('m \<Rightarrow> bin_writer \<Rightarrow> bin_writer) \<Rightarrow> ('m \<Rightarrow> bool) \<Rightarrow> 'm \<Rightarrow> bool" where
  "fits enc ok m \<longleftrightarrow> ok m \<and> small (finish (enc m bcreate))"

definition fits_opt :: "('m \<Rightarrow> bin_writer \<Rightarrow> bin_writer) \<Rightarrow> ('m \<Rightarrow> bool) \<Rightarrow> 'm option \<Rightarrow> bool" where
  "fits_opt enc ok x \<longleftrightarrow> (case x of None \<Rightarrow> True | Some m \<Rightarrow> fits enc ok m)"

definition opt_field :: "int \<Rightarrow> ('m \<Rightarrow> bin_writer \<Rightarrow> bin_writer) \<Rightarrow> 'm option \<Rightarrow> (int \<times> wire) list" where
  "opt_field n enc x = (case x of None \<Rightarrow> [] | Some m \<Rightarrow> [msg_field n enc m])"

definition on_str :: "byte list \<Rightarrow> (jstring \<Rightarrow> 'm) \<Rightarrow> 'm option" where
  "on_str b k = map_option k (utf8_decode b)"

lemma on_str_write [simp]: "on_str (utf8_write s) k = Some (k s)"
  by (simp add: on_str_def)

context binary_codec
begin

lemma optional [appends_intros]:
  "fits_opt encode encodable x \<Longrightarrow> uint tag = n * 8 + 2 \<Longrightarrow> 0 \<le> n \<Longrightarrow>
   appends (nested_opt tag encode x) (opt_field n encode x)"
  using appends_id nested_appends
  by (cases x) (simp_all add: nested_opt_def [abs_def] opt_field_def fits_opt_def fits_def msg_field_def)

lemma repeated [appends_intros]:
  "list_all (fits encode encodable) ms \<Longrightarrow> uint tag = n * 8 + 2 \<Longrightarrow> 0 \<le> n \<Longrightarrow>
   appends (fold (\<lambda>m. nested tag (encode m)) ms) (map (msg_field n encode) ms)"
  using repeated_appends [of ms tag n]
  by (simp add: fits_def [abs_def] msg_field_def [abs_def] concat_map_singleton)

lemma read_back: "fits encode encodable m \<Longrightarrow> read_message step blank (finish (encode m bcreate)) = Some m"
  by (simp add: fits_def decode_encode)

end

section \<open>Any\<close>

record any =
  any_typeUrl :: jstring
  any_value :: "byte list"

definition Any_encode :: "any \<Rightarrow> bin_writer \<Rightarrow> bin_writer" where
  "Any_encode m w =
     (let w = str_field 10 (any_typeUrl m) w
      in bytes_field 18 (any_value m) w)"

definition any_step :: "any \<Rightarrow> int \<times> wire \<Rightarrow> any option" where
  "any_step m x =
     (case x of
        (n, WBytes b) \<Rightarrow>
          if n = 1 then on_str b (\<lambda>s. m\<lparr>any_typeUrl := s\<rparr>)
          else if n = 2 then Some (m\<lparr>any_value := b\<rparr>) else Some m
      | (n, WVarint v) \<Rightarrow> Some m)"

definition any_blank :: any where
  "any_blank = \<lparr>any_typeUrl = [], any_value = []\<rparr>"

definition any_ok :: "any \<Rightarrow> bool" where
  "any_ok m \<longleftrightarrow> short (any_typeUrl m) \<and> small (any_value m)"

definition any_fields :: "any \<Rightarrow> (int \<times> wire) list" where
  "any_fields m = sfield 1 (any_typeUrl m) @ bfield 2 (any_value m)"

interpretation any: binary_codec Any_encode any_fields any_step any_blank any_ok
proof
  fix m :: any
  assume ok: "any_ok m"
  show "appends (Any_encode m) (any_fields m)"
    unfolding Any_encode_def [abs_def] any_fields_def Let_def
    by (rule appends_comp [OF appends_str_field appends_bytes_field]) (use ok in \<open>simp_all add: any_ok_def\<close>)
  show "fold_fields any_step any_blank (any_fields m) = Some m"
    by (simp add: any_fields_def any_step_def any_blank_def sfield_def bfield_def)
qed

section \<open>Coin and Fee\<close>

record coin =
  coin_denom :: jstring
  coin_amt :: jstring

definition Coin_encode :: "coin \<Rightarrow> bin_writer \<Rightarrow> bin_writer" where
  "Coin_encode m w =
     (let w = str_field 10 (coin_denom m) w
      in str_field 18 (coin_amt m) w)"

definition coin_step :: "coin \<Rightarrow> int \<times> wire \<Rightarrow> coin option" where
  "coin_step m x =
     (case x of
        (n, WBytes b) \<Rightarrow>
          if n = 1 then on_str b (\<lambda>s. m\<lparr>coin_denom := s\<rparr>)
          else if n = 2 then on_str b (\<lambda>s. m\<lparr>coin_amt := s\<rparr>) else Some m
      | (n, WVarint v) \<Rightarrow> Some m)"

definition coin_blank :: coin where
  "coin_blank = \<lparr>coin_denom = [], coin_amt = []\<rparr>"

definition coin_ok :: "coin \<Rightarrow> bool" where
  "coin_ok m \<longleftrightarrow> short (coin_denom m) \<and> short (coin_amt m)"

definition coin_fields :: "coin \<Rightarrow> (int \<times> wire) list" where
  "coin_fields m = sfield 1 (coin_denom m) @ sfield 2 (coin_amt m)"

interpretation coin: binary_codec Coin_encode coin_fields coin_step coin_blank coin_ok
proof
  fix m :: coin
  assume ok: "coin_ok m"
  show "appends (Coin_encode m) (coin_fields m)"
    unfolding Coin_encode_def [abs_def] coin_fields_def Let_def
    by (rule appends_comp [OF appends_str_field appends_str_field]) (use ok in \<open>simp_all add: coin_ok_def\<close>)
  show "fold_fields coin_step coin_blank (coin_fields m) = Some m"
    by (simp add: coin_fields_def coin_step_def coin_blank_def sfield_def)
qed

record tx_fee =
  tf_amount :: "coin list"
  tf_gasLimit :: int
  tf_payer :: jstring
  tf_granter :: jstring

definition Fee_encode :: "tx_fee \<Rightarrow> bin_writer \<Rightarrow> bin_writer" where
  "Fee_encode m w =
     (let w = fold (\<lambda>c. nested 10 (Coin_encode c)) (tf_amount m) w;
          w = u64_field 16 (tf_gasLimit m) w;
          w = str_field 26 (tf_payer m) w
      in str_field 34 (tf_granter m) w)"

definition Fee_fromPartial :: "coin list \<Rightarrow> int \<Rightarrow> jstring option \<Rightarrow> jstring option \<Rightarrow> tx_fee" where
  "Fee_fromPartial amount gasLimit granter payer =
     \<lparr>tf_amount = amount, tf_gasLimit = gasLimit, tf_payer = orEmpty payer, tf_granter = orEmpty granter\<rparr>"

definition fee_step :: "tx_fee \<Rightarrow> int \<times> wire \<Rightarrow> tx_fee option" where
  "fee_step m x =
     (case x of
        (n, WBytes b) \<Rightarrow>
          if n = 1 then map_option (\<lambda>c. m\<lparr>tf_amount := tf_amount m @ [c]\<rparr>) (read_message coin_step coin_blank b)
          else if n = 3 then on_str b (\<lambda>s. m\<lparr>tf_payer := s\<rparr>)
          else if n = 4 then on_str b (\<lambda>s. m\<lparr>tf_granter := s\<rparr>) else Some m
      | (n, WVarint v) \<Rightarrow> if n = 2 then Some (m\<lparr>tf_gasLimit := v\<rparr>) else Some m)"

definition fee_blank :: tx_fee where
  "fee_blank = \<lparr>tf_amount = [], tf_gasLimit = 0, tf_payer = [], tf_granter = []\<rparr>"

definition fee_ok :: "tx_fee \<Rightarrow> bool" where
  "fee_ok m \<longleftrightarrow> list_all (fits Coin_encode coin_ok) (tf_amount m) \<and> u64_ok (tf_gasLimit m)
     \<and> short (tf_payer m) \<and> short (tf_granter m)"

definition fee_fields :: "tx_fee \<Rightarrow> (int \<times> wire) list" where
  "fee_fields m = ((map (msg_field 1 Coin_encode) (tf_amount m) @ ifield 2 (tf_gasLimit m)) @ sfield 3 (tf_payer m))
     @ sfield 4 (tf_granter m)"

lemma read_coins:
  "list_all (fits Coin_encode coin_ok) cs \<Longrightarrow>
   fold_fields fee_step m (map (msg_field 1 Coin_encode) cs) = Some (m\<lparr>tf_amount := tf_amount m @ cs\<rparr>)"
  by (induction cs arbitrary: m) (simp_all add: msg_field_def fee_step_def coin.read_back)

interpretation tx_fee: binary_codec Fee_encode fee_fields fee_step fee_blank fee_ok
proof
  fix m :: tx_fee
  assume ok: "fee_ok m"
  show "appends (Fee_encode m) (fee_fields m)"
    unfolding Fee_encode_def [abs_def] fee_fields_def Let_def
    by (rule appends_comp [OF appends_comp [OF appends_comp [OF coin.repeated appends_u64_field] appends_str_field] appends_str_field])
       (use ok in \<open>simp_all add: fee_ok_def\<close>)
  show "fold_fields fee_step fee_blank (fee_fields m) = Some m"
    using ok by (simp add: fee_fields_def fold_fields_append read_coins fee_ok_def)
      (simp add: fee_step_def fee_blank_def sfield_def ifield_def)
qed

section \<open>Public keys and signer infos\<close>

definition PubKey_encode :: "byte list \<Rightarrow> bin_writer \<Rightarrow> bin_writer" where
  "PubKey_encode key w = bytes_field 10 key w"

definition pubkey_step :: "byte list \<Rightarrow> int \<times> wire \<Rightarrow> byte list option" where
  "pubkey_step m x = (case x of (n, WBytes b) \<Rightarrow> Some (if n = 1 then b else m) | (n, WVarint v) \<Rightarrow> Some m)"

definition pubkey_fields :: "byte list \<Rightarrow> (int \<times> wire) list" where
  "pubkey_fields key = bfield 1 key"

interpretation pub_key: binary_codec PubKey_encode pubkey_fields pubkey_step "[]" small
proof
  fix m :: "byte list"
  assume ok: "small m"
  show "appends (PubKey_encode m) (pubkey_fields m)"
    unfolding PubKey_encode_def [abs_def] pubkey_fields_def by (rule appends_bytes_field) (use ok in simp_all)
  show "fold_fields pubkey_step [] (pubkey_fields m) = Some m"
    by (simp add: pubkey_fields_def pubkey_step_def bfield_def)
qed

text \<open>\<open>ModeInfo_Single\<close> is its mode.\<close>

definition ModeInfo_Single_encode :: "int \<Rightarrow> bin_writer \<Rightarrow> bin_writer" where
  "ModeInfo_Single_encode mode w = (if mode \<noteq> 0 then bin_int32 mode (uint32 8 w) else w)"

definition single_step :: "int \<Rightarrow> int \<times> wire \<Rightarrow> int option" where
  "single_step m x =
     (case x of (n, WVarint v) \<Rightarrow> Some (if n = 1 then signed_take_bit 31 v else m) | (n, WBytes b) \<Rightarrow> Some m)"

definition single_ok :: "int \<Rightarrow> bool" where
  "single_ok mode \<longleftrightarrow> 0 \<le> mode \<and> mode < 2 ^ 31"

definition single_fields :: "int \<Rightarrow> (int \<times> wire) list" where
  "single_fields mode = ifield 1 mode"

interpretation single: binary_codec ModeInfo_Single_encode single_fields single_step 0 single_ok
proof
  fix m :: int
  assume ok: "single_ok m"
  show "appends (ModeInfo_Single_encode m) (single_fields m)"
  proof (cases "m = 0")
    case True
    then show ?thesis using appends_id by (simp add: ModeInfo_Single_encode_def [abs_def] single_fields_def ifield_def)
  next
    case False
    have "appends (\<lambda>w. bin_int32 m (uint32 8 w)) [(1, WVarint m)]" by (rule appends_int32) (use ok in \<open>simp_all add: single_ok_def\<close>)
    with False show ?thesis by (simp add: ModeInfo_Single_encode_def [abs_def] single_fields_def ifield_def)
  qed
  show "fold_fields single_step 0 (single_fields m) = Some m"
    using ok low32(2) [of m] by (simp add: single_fields_def single_step_def single_ok_def ifield_def)
qed

record mode_info =
  mi_single :: "int option"

definition ModeInfo_encode :: "mode_info \<Rightarrow> bin_writer \<Rightarrow> bin_writer" where
  "ModeInfo_encode m w = nested_opt 10 ModeInfo_Single_encode (mi_single m) w"

definition mode_step :: "mode_info \<Rightarrow> int \<times> wire \<Rightarrow> mode_info option" where
  "mode_step m x =
     (case x of
        (n, WBytes b) \<Rightarrow>
          if n = 1 then map_option (\<lambda>k. m\<lparr>mi_single := Some k\<rparr>) (read_message single_step 0 b) else Some m
      | (n, WVarint v) \<Rightarrow> Some m)"

definition mode_ok :: "mode_info \<Rightarrow> bool" where
  "mode_ok m \<longleftrightarrow> fits_opt ModeInfo_Single_encode single_ok (mi_single m)"

definition mode_fields :: "mode_info \<Rightarrow> (int \<times> wire) list" where
  "mode_fields m = opt_field 1 ModeInfo_Single_encode (mi_single m)"

interpretation mode_info: binary_codec ModeInfo_encode mode_fields mode_step "\<lparr>mi_single = None\<rparr>" mode_ok
proof
  fix m :: mode_info
  assume ok: "mode_ok m"
  show "appends (ModeInfo_encode m) (mode_fields m)"
    unfolding ModeInfo_encode_def [abs_def] mode_fields_def
    by (rule single.optional) (use ok in \<open>simp_all add: mode_ok_def\<close>)
  show "fold_fields mode_step \<lparr>mi_single = None\<rparr> (mode_fields m) = Some m"
    using ok by (cases "mi_single m")
      (simp_all add: mode_fields_def mode_step_def mode_ok_def opt_field_def msg_field_def fits_opt_def single.read_back)
qed

record signer_info =
  si_publicKey :: "any option"
  si_modeInfo :: "mode_info option"
  si_sequence :: int

definition SignerInfo_encode :: "signer_info \<Rightarrow> bin_writer \<Rightarrow> bin_writer" where
  "SignerInfo_encode m w =
     (let w = nested_opt 10 Any_encode (si_publicKey m) w;
          w = nested_opt 18 ModeInfo_encode (si_modeInfo m) w
      in u64_field 24 (si_sequence m) w)"

definition signer_step :: "signer_info \<Rightarrow> int \<times> wire \<Rightarrow> signer_info option" where
  "signer_step m x =
     (case x of
        (n, WBytes b) \<Rightarrow>
          if n = 1 then map_option (\<lambda>a. m\<lparr>si_publicKey := Some a\<rparr>) (read_message any_step any_blank b)
          else if n = 2 then map_option (\<lambda>a. m\<lparr>si_modeInfo := Some a\<rparr>) (read_message mode_step \<lparr>mi_single = None\<rparr> b)
          else Some m
      | (n, WVarint v) \<Rightarrow> if n = 3 then Some (m\<lparr>si_sequence := v\<rparr>) else Some m)"

definition signer_blank :: signer_info where
  "signer_blank = \<lparr>si_publicKey = None, si_modeInfo = None, si_sequence = 0\<rparr>"

definition signer_ok :: "signer_info \<Rightarrow> bool" where
  "signer_ok m \<longleftrightarrow> fits_opt Any_encode any_ok (si_publicKey m) \<and> fits_opt ModeInfo_encode mode_ok (si_modeInfo m)
     \<and> u64_ok (si_sequence m)"

definition signer_fields :: "signer_info \<Rightarrow> (int \<times> wire) list" where
  "signer_fields m =
     (opt_field 1 Any_encode (si_publicKey m) @ opt_field 2 ModeInfo_encode (si_modeInfo m)) @ ifield 3 (si_sequence m)"

interpretation signer_info: binary_codec SignerInfo_encode signer_fields signer_step signer_blank signer_ok
proof
  fix m :: signer_info
  assume ok: "signer_ok m"
  show "appends (SignerInfo_encode m) (signer_fields m)"
    unfolding SignerInfo_encode_def [abs_def] signer_fields_def Let_def
    by (rule appends_comp [OF appends_comp [OF any.optional mode_info.optional] appends_u64_field])
       (use ok in \<open>simp_all add: signer_ok_def\<close>)
  show "fold_fields signer_step signer_blank (signer_fields m) = Some m"
    using ok by (cases "si_publicKey m"; cases "si_modeInfo m")
      (simp_all add: signer_fields_def signer_step_def signer_blank_def signer_ok_def opt_field_def msg_field_def fits_opt_def
        ifield_def any.read_back mode_info.read_back)
qed

section \<open>AuthInfo\<close>

record auth_info =
  ai_signerInfos :: "signer_info list"
  ai_fee :: "tx_fee option"

definition AuthInfo_encode :: "auth_info \<Rightarrow> bin_writer \<Rightarrow> bin_writer" where
  "AuthInfo_encode m w =
     (let w = fold (\<lambda>i. nested 10 (SignerInfo_encode i)) (ai_signerInfos m) w
      in nested_opt 18 Fee_encode (ai_fee m) w)"

definition auth_step :: "auth_info \<Rightarrow> int \<times> wire \<Rightarrow> auth_info option" where
  "auth_step m x =
     (case x of
        (n, WBytes b) \<Rightarrow>
          if n = 1 then map_option (\<lambda>i. m\<lparr>ai_signerInfos := ai_signerInfos m @ [i]\<rparr>) (read_message signer_step signer_blank b)
          else if n = 2 then map_option (\<lambda>f. m\<lparr>ai_fee := Some f\<rparr>) (read_message fee_step fee_blank b)
          else Some m
      | (n, WVarint v) \<Rightarrow> Some m)"

definition auth_blank :: auth_info where
  "auth_blank = \<lparr>ai_signerInfos = [], ai_fee = None\<rparr>"

definition auth_ok :: "auth_info \<Rightarrow> bool" where
  "auth_ok m \<longleftrightarrow> list_all (fits SignerInfo_encode signer_ok) (ai_signerInfos m) \<and> fits_opt Fee_encode fee_ok (ai_fee m)"

definition auth_fields :: "auth_info \<Rightarrow> (int \<times> wire) list" where
  "auth_fields m = map (msg_field 1 SignerInfo_encode) (ai_signerInfos m) @ opt_field 2 Fee_encode (ai_fee m)"

lemma read_signers:
  "list_all (fits SignerInfo_encode signer_ok) is \<Longrightarrow>
   fold_fields auth_step m (map (msg_field 1 SignerInfo_encode) is) = Some (m\<lparr>ai_signerInfos := ai_signerInfos m @ is\<rparr>)"
  by (induction "is" arbitrary: m) (simp_all add: msg_field_def auth_step_def signer_info.read_back)

interpretation auth_info: binary_codec AuthInfo_encode auth_fields auth_step auth_blank auth_ok
proof
  fix m :: auth_info
  assume ok: "auth_ok m"
  show "appends (AuthInfo_encode m) (auth_fields m)"
    unfolding AuthInfo_encode_def [abs_def] auth_fields_def Let_def
    by (rule appends_comp [OF signer_info.repeated tx_fee.optional]) (use ok in \<open>simp_all add: auth_ok_def\<close>)
  show "fold_fields auth_step auth_blank (auth_fields m) = Some m"
    using ok by (cases "ai_fee m")
      (simp_all add: auth_fields_def auth_ok_def fold_fields_append read_signers opt_field_def fits_opt_def msg_field_def
        auth_step_def auth_blank_def tx_fee.read_back)
qed

section \<open>TxBody\<close>

record tx_body =
  tb_messages :: "any list"
  tb_memo :: jstring
  tb_timeoutHeight :: int
  tb_extensionOptions :: "any list"
  tb_nonCriticalExtensionOptions :: "any list"

definition TxBody_encode :: "tx_body \<Rightarrow> bin_writer \<Rightarrow> bin_writer" where
  "TxBody_encode m w =
     (let w = fold (\<lambda>a. nested 10 (Any_encode a)) (tb_messages m) w;
          w = str_field 18 (tb_memo m) w;
          w = u64_field 24 (tb_timeoutHeight m) w;
          w = fold (\<lambda>a. nested 8186 (Any_encode a)) (tb_extensionOptions m) w
      in fold (\<lambda>a. nested 16378 (Any_encode a)) (tb_nonCriticalExtensionOptions m) w)"

definition body_step :: "tx_body \<Rightarrow> int \<times> wire \<Rightarrow> tx_body option" where
  "body_step m x =
     (case x of
        (n, WBytes b) \<Rightarrow>
          if n = 1 then map_option (\<lambda>a. m\<lparr>tb_messages := tb_messages m @ [a]\<rparr>) (read_message any_step any_blank b)
          else if n = 2 then on_str b (\<lambda>s. m\<lparr>tb_memo := s\<rparr>)
          else if n = 1023 then map_option (\<lambda>a. m\<lparr>tb_extensionOptions := tb_extensionOptions m @ [a]\<rparr>) (read_message any_step any_blank b)
          else if n = 2047 then
            map_option (\<lambda>a. m\<lparr>tb_nonCriticalExtensionOptions := tb_nonCriticalExtensionOptions m @ [a]\<rparr>) (read_message any_step any_blank b)
          else Some m
      | (n, WVarint v) \<Rightarrow> if n = 3 then Some (m\<lparr>tb_timeoutHeight := v\<rparr>) else Some m)"

definition body_blank :: tx_body where
  "body_blank = \<lparr>tb_messages = [], tb_memo = [], tb_timeoutHeight = 0, tb_extensionOptions = [], tb_nonCriticalExtensionOptions = []\<rparr>"

definition body_ok :: "tx_body \<Rightarrow> bool" where
  "body_ok m \<longleftrightarrow> list_all (fits Any_encode any_ok) (tb_messages m) \<and> short (tb_memo m) \<and> u64_ok (tb_timeoutHeight m)
     \<and> list_all (fits Any_encode any_ok) (tb_extensionOptions m) \<and> list_all (fits Any_encode any_ok) (tb_nonCriticalExtensionOptions m)"

definition body_fields :: "tx_body \<Rightarrow> (int \<times> wire) list" where
  "body_fields m =
     (((map (msg_field 1 Any_encode) (tb_messages m) @ sfield 2 (tb_memo m)) @ ifield 3 (tb_timeoutHeight m))
       @ map (msg_field 1023 Any_encode) (tb_extensionOptions m)) @ map (msg_field 2047 Any_encode) (tb_nonCriticalExtensionOptions m)"

lemma read_anys:
  assumes "list_all (fits Any_encode any_ok) as"
  shows "fold_fields body_step m (map (msg_field 1 Any_encode) as) = Some (m\<lparr>tb_messages := tb_messages m @ as\<rparr>)"
    "fold_fields body_step m (map (msg_field 1023 Any_encode) as) = Some (m\<lparr>tb_extensionOptions := tb_extensionOptions m @ as\<rparr>)"
    "fold_fields body_step m (map (msg_field 2047 Any_encode) as)
       = Some (m\<lparr>tb_nonCriticalExtensionOptions := tb_nonCriticalExtensionOptions m @ as\<rparr>)"
  using assms by (induction as arbitrary: m) (simp_all add: msg_field_def body_step_def any.read_back)

interpretation tx_body: binary_codec TxBody_encode body_fields body_step body_blank body_ok
proof
  fix m :: tx_body
  assume ok: "body_ok m"
  show "appends (TxBody_encode m) (body_fields m)"
    unfolding TxBody_encode_def [abs_def] body_fields_def Let_def
    by (rule appends_comp [OF appends_comp [OF appends_comp [OF appends_comp [OF any.repeated appends_str_field] appends_u64_field]
        any.repeated] any.repeated]) (use ok in \<open>simp_all add: body_ok_def\<close>)
  show "fold_fields body_step body_blank (body_fields m) = Some m"
    using ok by (simp add: body_fields_def fold_fields_append read_anys body_ok_def)
      (simp add: body_step_def body_blank_def sfield_def ifield_def fold_fields_append read_anys)
qed

section \<open>SignDoc and TxRaw\<close>

record sign_doc =
  sd_bodyBytes :: "byte list"
  sd_authInfoBytes :: "byte list"
  sd_chainId :: jstring
  sd_accountNumber :: int

definition SignDoc_encode :: "sign_doc \<Rightarrow> bin_writer \<Rightarrow> bin_writer" where
  "SignDoc_encode m w =
     (let w = bytes_field 10 (sd_bodyBytes m) w;
          w = bytes_field 18 (sd_authInfoBytes m) w;
          w = str_field 26 (sd_chainId m) w
      in u64_field 32 (sd_accountNumber m) w)"

definition doc_step :: "sign_doc \<Rightarrow> int \<times> wire \<Rightarrow> sign_doc option" where
  "doc_step m x =
     (case x of
        (n, WBytes b) \<Rightarrow>
          if n = 1 then Some (m\<lparr>sd_bodyBytes := b\<rparr>) else if n = 2 then Some (m\<lparr>sd_authInfoBytes := b\<rparr>)
          else if n = 3 then on_str b (\<lambda>s. m\<lparr>sd_chainId := s\<rparr>) else Some m
      | (n, WVarint v) \<Rightarrow> if n = 4 then Some (m\<lparr>sd_accountNumber := v\<rparr>) else Some m)"

definition doc_blank :: sign_doc where
  "doc_blank = \<lparr>sd_bodyBytes = [], sd_authInfoBytes = [], sd_chainId = [], sd_accountNumber = 0\<rparr>"

definition doc_ok :: "sign_doc \<Rightarrow> bool" where
  "doc_ok m \<longleftrightarrow> small (sd_bodyBytes m) \<and> small (sd_authInfoBytes m) \<and> short (sd_chainId m) \<and> u64_ok (sd_accountNumber m)"

definition doc_fields :: "sign_doc \<Rightarrow> (int \<times> wire) list" where
  "doc_fields m =
     ((bfield 1 (sd_bodyBytes m) @ bfield 2 (sd_authInfoBytes m)) @ sfield 3 (sd_chainId m)) @ ifield 4 (sd_accountNumber m)"

interpretation sign_doc: binary_codec SignDoc_encode doc_fields doc_step doc_blank doc_ok
proof
  fix m :: sign_doc
  assume ok: "doc_ok m"
  show "appends (SignDoc_encode m) (doc_fields m)"
    unfolding SignDoc_encode_def [abs_def] doc_fields_def Let_def
    by (rule appends_comp [OF appends_comp [OF appends_comp [OF appends_bytes_field appends_bytes_field] appends_str_field] appends_u64_field])
       (use ok in \<open>simp_all add: doc_ok_def\<close>)
  show "fold_fields doc_step doc_blank (doc_fields m) = Some m"
    by (simp add: doc_fields_def doc_step_def doc_blank_def sfield_def bfield_def ifield_def)
qed

record tx_raw =
  raw_bodyBytes :: "byte list"
  raw_authInfoBytes :: "byte list"
  raw_signatures :: "byte list list"

definition TxRaw_encode :: "tx_raw \<Rightarrow> bin_writer \<Rightarrow> bin_writer" where
  "TxRaw_encode m w =
     (let w = bytes_field 10 (raw_bodyBytes m) w;
          w = bytes_field 18 (raw_authInfoBytes m) w
      in fold (\<lambda>s w. bin_bytes s (uint32 26 w)) (raw_signatures m) w)"

definition raw_step :: "tx_raw \<Rightarrow> int \<times> wire \<Rightarrow> tx_raw option" where
  "raw_step m x =
     (case x of
        (n, WBytes b) \<Rightarrow>
          Some (if n = 1 then m\<lparr>raw_bodyBytes := b\<rparr> else if n = 2 then m\<lparr>raw_authInfoBytes := b\<rparr>
                else if n = 3 then m\<lparr>raw_signatures := raw_signatures m @ [b]\<rparr> else m)
      | (n, WVarint v) \<Rightarrow> Some m)"

definition raw_blank :: tx_raw where
  "raw_blank = \<lparr>raw_bodyBytes = [], raw_authInfoBytes = [], raw_signatures = []\<rparr>"

definition raw_ok :: "tx_raw \<Rightarrow> bool" where
  "raw_ok m \<longleftrightarrow> small (raw_bodyBytes m) \<and> small (raw_authInfoBytes m) \<and> list_all small (raw_signatures m)"

definition raw_fields :: "tx_raw \<Rightarrow> (int \<times> wire) list" where
  "raw_fields m =
     (bfield 1 (raw_bodyBytes m) @ bfield 2 (raw_authInfoBytes m)) @ map (\<lambda>s. (3, WBytes s)) (raw_signatures m)"

lemma read_signatures:
  "fold_fields raw_step m (map (\<lambda>s. (3, WBytes s)) ss) = Some (m\<lparr>raw_signatures := raw_signatures m @ ss\<rparr>)"
  by (induction ss arbitrary: m) (simp_all add: raw_step_def)

interpretation tx_raw: binary_codec TxRaw_encode raw_fields raw_step raw_blank raw_ok
proof
  fix m :: tx_raw
  assume ok: "raw_ok m"
  have "appends (fold (\<lambda>s w. bin_bytes s (uint32 26 w)) (raw_signatures m)) (concat (map (\<lambda>s. [(3, WBytes s)]) (raw_signatures m)))"
    by (rule appends_fold) (use ok in \<open>auto simp: raw_ok_def list_all_iff intro!: appends_bytes\<close>)
  then have sigs: "appends (fold (\<lambda>s w. bin_bytes s (uint32 26 w)) (raw_signatures m)) (map (\<lambda>s. (3, WBytes s)) (raw_signatures m))"
    by (simp add: concat_map_singleton)
  show "appends (TxRaw_encode m) (raw_fields m)"
    unfolding TxRaw_encode_def [abs_def] raw_fields_def Let_def
    by (rule appends_comp [OF appends_comp [OF appends_bytes_field appends_bytes_field] sigs]) (use ok in \<open>simp_all add: raw_ok_def\<close>)
  show "fold_fields raw_step raw_blank (raw_fields m) = Some m"
    by (simp add: raw_fields_def raw_blank_def bfield_def fold_fields_append read_signatures)
       (simp add: raw_step_def read_signatures)
qed

end
