(* ===== verification/I18n.thy ===== *)
theory I18n
  imports JsNumber
begin

text \<open>
  \<open>static/i18n.js\<close>: the lookup of a client notice in the page's catalog and the substitution of its
  \<open>{n}\<close> placeholders.

  \<open>window.CongridMessages\<close> is an object literal the page writes (\<open>None\<close> when the page has none), so a
  property read falls back to \<open>Object.prototype\<close>: a message that is the name of one of its members
  finds a function or an object there, which has no \<open>replace\<close>, and the call throws.
\<close>

type_synonym catalog = "jstring \<rightharpoonup> jstring"

datatype i18n_error = TextReplaceIsNotAFunction

definition object_prototype :: "jstring list" where
  "object_prototype = map lit
     [''constructor'', ''__defineGetter__'', ''__defineSetter__'', ''hasOwnProperty'', ''__lookupGetter__'',
      ''__lookupSetter__'', ''isPrototypeOf'', ''propertyIsEnumerable'', ''toString'', ''valueOf'',
      ''__proto__'', ''toLocaleString'']"

text \<open>The match of \<open>\{(\d+)\}\<close> just after the brace: the digits and what follows the closing brace.\<close>

definition placeholder :: "jstring \<Rightarrow> (jstring \<times> jstring) option" where
  "placeholder s =
     (case dropWhile is_digit s of
        c # r \<Rightarrow> if c = 125 \<and> takeWhile is_digit s \<noteq> [] then Some (takeWhile is_digit s, r) else None
      | [] \<Rightarrow> None)"

text \<open>
  \<open>index < args.length ? String(args[index]) : match\<close>: the comparison is numeric, the element access
  is by property name, so only the canonical numeral finds the element.
\<close>

definition substitute :: "jstring list \<Rightarrow> jstring \<Rightarrow> jstring" where
  "substitute args index =
     (if num_less (toNumber index) (Fin (of_nat (length args)))
      then (if index = dec_digits (dec_val index) then args ! nat (dec_val index) else lit ''undefined'')
      else [123] @ index @ [125])"

lemma placeholder_shorter: "placeholder s = Some (d, r) \<Longrightarrow> length r < length s"
  using length_dropWhile_le [of is_digit s]
  by (auto simp: placeholder_def split: list.splits if_splits)

function replace_placeholders :: "jstring list \<Rightarrow> jstring \<Rightarrow> jstring" where
  "replace_placeholders args [] = []"
| "replace_placeholders args (c # cs) =
     (if c = 123
      then (case placeholder cs of
              Some (index, r) \<Rightarrow> substitute args index @ replace_placeholders args r
            | None \<Rightarrow> c # replace_placeholders args cs)
      else c # replace_placeholders args cs)"
  by pat_completeness auto
termination
  by (relation "measure (length \<circ> snd)") (auto dest: placeholder_shorter)

text \<open>The catalog entry, or the message itself when there is none or it is empty.\<close>

definition lookup_text :: "catalog option \<Rightarrow> jstring \<Rightarrow> i18n_error + jstring" where
  "lookup_text msgs message =
     (case msgs of
        None \<Rightarrow> Inr message
      | Some m \<Rightarrow>
          (case m message of
             Some text \<Rightarrow> Inr (if text \<noteq> [] then text else message)
           | None \<Rightarrow> if message \<in> set object_prototype then Inl TextReplaceIsNotAFunction else Inr message))"

definition i18n_t :: "catalog option \<Rightarrow> jstring \<Rightarrow> jstring list \<Rightarrow> i18n_error + jstring" where
  "i18n_t msgs message args =
     (case lookup_text msgs message of
        Inl e \<Rightarrow> Inl e
      | Inr text \<Rightarrow> Inr (replace_placeholders args text))"

section \<open>Substitution\<close>

lemma replace_no_brace: "123 \<notin> set s \<Longrightarrow> replace_placeholders args (s @ r) = s @ replace_placeholders args r"
  by (induction s) auto

lemma replace_plain [simp]: "123 \<notin> set s \<Longrightarrow> replace_placeholders args s = s"
  using replace_no_brace [of s args "[]"] by simp

lemma replace_placeholder:
  assumes "ds \<noteq> []" "list_all is_digit ds"
  shows "replace_placeholders args (123 # ds @ 125 # r) = substitute args ds @ replace_placeholders args r"
proof -
  have "\<not> is_digit 125" by (simp add: is_digit_def)
  then have "takeWhile is_digit (ds @ 125 # r) = ds" "dropWhile is_digit (ds @ 125 # r) = 125 # r"
    using assms(2) by (auto simp: list_all_iff takeWhile_append dropWhile_append)
  then show ?thesis using assms(1) by (simp add: placeholder_def)
qed

lemma substitute_in_range:
  assumes "i < length args" "int (length args) < 2 ^ 53"
  shows "substitute args (dec_digits (int i)) = args ! i"
proof -
  have "toNumber (dec_digits (int i)) = Fin (of_int (int i))"
    using assms by (intro toNumber_dec_digits) simp_all
  then show ?thesis using assms(1) dec_digits_spec [of "int i"] by (simp add: substitute_def)
qed

lemma digits_nonneg: "list_all is_digit ds \<Longrightarrow> 0 \<le> dec_val ds"
proof (induction ds rule: rev_induct)
  case (snoc c ds)
  then have "0 \<le> digit_val c" by (simp add: digit_val_def is_digit_def word_le_def)
  with snoc show ?case by (simp add: dec_val_snoc)
qed (simp add: dec_val_def)

lemma round_double_nonneg: "0 \<le> n \<Longrightarrow> \<not> num_less (round_double (of_int n)) (Fin 0)"
proof (cases "n < 2 ^ 53")
  case True
  assume "0 \<le> n"
  with True show ?thesis by (simp add: round_double_small_nat)
next
  case False
  then have "0 < n" by simp
  moreover have "2 ^ 53 \<le> round_pos (of_int n)" using False by (intro round_pos_large) simp
  ultimately show ?thesis by (auto simp: round_double_def Let_def)
qed

text \<open>With no arguments every placeholder is kept: rendering a notice a second time changes nothing.\<close>

lemma replace_no_args: "replace_placeholders [] s = s"
proof (induction "[] :: jstring list" s rule: replace_placeholders.induct)
  case (2 c cs)
  show ?case
  proof (cases "c = 123 \<and> placeholder cs \<noteq> None")
    case True
    then obtain d r where p: "placeholder cs = Some (d, r)" by auto
    then have "dropWhile is_digit cs = 125 # r" and d: "d = takeWhile is_digit cs" and "d \<noteq> []"
      by (auto simp: placeholder_def split: list.splits if_splits)
    then have cs: "cs = d @ 125 # r" by (metis takeWhile_dropWhile_id)
    have dd: "list_all is_digit d" using d set_takeWhileD by (fastforce simp: list_all_iff)
    then have "\<not> num_less (toNumber d) (Fin 0)"
      using \<open>d \<noteq> []\<close> digits_nonneg [OF dd] by (simp add: toNumber_digits round_double_nonneg)
    then have "substitute [] d = [123] @ d @ [125]" by (simp add: substitute_def)
    with True p 2 show ?thesis by (simp add: cs)
  next
    case False
    with 2 show ?thesis by (auto split: option.splits)
  qed
qed simp

end
