(* ===== verification/Fee.thy ===== *)
theory Fee
  imports JsNumber
begin

text \<open>
  The fee computation of the wallet bundle: \<open>GasPrice.fromString\<close> (a decimal amount and a denom,
  \<open>Decimal.fromUserInput\<close> with 18 fractional digits) and \<open>calculateFee\<close> (\<open>Decimal.multiply\<close>,
  \<open>Decimal.ceil\<close>, \<open>Uint53\<close>, \<open>coins\<close>). A failure carries the message of the thrown Error. The BN
  integers of the bundle are \<open>int\<close>.
\<close>

record decimal =
  atomics :: int
  fractionalDigits :: nat

record gas_price =
  gp_amount :: decimal
  gp_denom :: jstring

record std_fee =
  fee_amount :: jstring
  fee_denom :: jstring
  fee_gas :: jstring

type_synonym 'a fee_result = "jstring + 'a"

section \<open>Decimal\<close>

definition strip_zeros :: "jstring \<Rightarrow> jstring" where
  "strip_zeros s = rev (dropWhile (\<lambda>c. c = 48) (rev s))"

definition padEnd :: "nat \<Rightarrow> jstring \<Rightarrow> jstring" where
  "padEnd n s = s @ replicate (n - length s) 48"

definition is_digit_or_dot :: "unit16 \<Rightarrow> bool" where
  "is_digit_or_dot c \<longleftrightarrow> is_digit c \<or> c = 46"

definition new_Decimal :: "jstring \<Rightarrow> nat \<Rightarrow> decimal fee_result" where
  "new_Decimal str fd =
     (if str \<noteq> [] \<and> list_all is_digit str then Inr \<lparr>atomics = dec_val str, fractionalDigits = fd\<rparr>
      else Inl (lit ''Invalid string format. Only non-negative integers in decimal representation supported.''))"

text \<open>The integer and the fractional part of the input, or the message of the error.\<close>

definition decimal_parts :: "jstring \<Rightarrow> (jstring \<times> jstring) fee_result" where
  "decimal_parts input =
     (if input = [] then Inr (lit ''0'', [])
      else if 46 \<notin> set input then Inr (input, [])
      else (case splitOn 46 input of
              [whole, fr] \<Rightarrow>
                if fr = [] then Inl (lit ''Fractional part missing'') else Inr (whole, strip_zeros fr)
            | _ \<Rightarrow> Inl (lit ''More than one separator found'')))"

definition Decimal_fromUserInput :: "jstring \<Rightarrow> nat \<Rightarrow> decimal fee_result" where
  "Decimal_fromUserInput input fd =
     (case find (\<lambda>i. \<not> is_digit_or_dot (input ! i)) [0..<length input] of
        Some i \<Rightarrow> Inl (lit ''Invalid character at position '' @ dec_digits (int i + 1))
      | None \<Rightarrow>
          (case decimal_parts input of
             Inl e \<Rightarrow> Inl e
           | Inr (whole, fr) \<Rightarrow>
               if fd < length fr then Inl (lit ''Got more fractional digits than supported'')
               else new_Decimal (whole @ padEnd fd fr) fd))"

definition Decimal_multiply :: "decimal \<Rightarrow> int \<Rightarrow> decimal" where
  "Decimal_multiply d n = d\<lparr>atomics := atomics d * n\<rparr>"

definition Decimal_ceil :: "decimal \<Rightarrow> decimal" where
  "Decimal_ceil d =
     (let factor = 10 ^ fractionalDigits d
      in if atomics d mod factor = 0 then d else d\<lparr>atomics := (atomics d div factor + 1) * factor\<rparr>)"

definition padStart :: "nat \<Rightarrow> jstring \<Rightarrow> jstring" where
  "padStart n s = replicate (n - length s) 48 @ s"

definition Decimal_toString :: "decimal \<Rightarrow> jstring" where
  "Decimal_toString d =
     (let factor = 10 ^ fractionalDigits d; whole = atomics d div factor; fr = atomics d mod factor
      in if fr = 0 then dec_digits whole
         else dec_digits whole @ lit ''.'' @ strip_zeros (padStart (fractionalDigits d) (dec_digits fr)))"

section \<open>Gas price and fee\<close>

definition is_alpha :: "unit16 \<Rightarrow> bool" where
  "is_alpha c \<longleftrightarrow> (65 \<le> c \<and> c \<le> 90) \<or> (97 \<le> c \<and> c \<le> 122)"

definition is_denom_char :: "unit16 \<Rightarrow> bool" where
  "is_denom_char c \<longleftrightarrow> is_alpha c \<or> is_digit c \<or> c = 47 \<or> c = 58 \<or> c = 46 \<or> c = 95 \<or> c = 45"

definition GasPrice_fromString :: "jstring \<Rightarrow> gas_price fee_result" where
  "GasPrice_fromString s =
     (let amount = takeWhile is_digit_or_dot s; denom = dropWhile is_digit_or_dot s
      in if amount = [] \<or> denom = [] \<or> \<not> is_alpha (hd denom) \<or> \<not> list_all is_denom_char denom
         then Inl (lit ''Invalid gas price string'')
         else if length denom < 3 \<or> 128 < length denom
         then Inl (lit ''Denom must be between 3 and 128 characters'')
         else (case Decimal_fromUserInput amount 18 of
                 Inl e \<Rightarrow> Inl e
               | Inr d \<Rightarrow> Inr \<lparr>gp_amount = d, gp_denom = denom\<rparr>))"

definition new_Uint53 :: "js_number \<Rightarrow> int fee_result" where
  "new_Uint53 n =
     (case n of
        NaN \<Rightarrow> Inl (lit ''Input is not a number'')
      | Fin q \<Rightarrow>
          if \<not> isInteger n then Inl (lit ''Input is not an integer'')
          else if q < - (2 ^ 53 - 1) \<or> 2 ^ 53 - 1 < q then Inl (lit ''Input not in int53 range: '' @ numToString n)
          else if q < 0 then Inl (lit ''Input is negative'') else Inr \<lfloor>q\<rfloor>
      | _ \<Rightarrow> Inl (lit ''Input is not an integer''))"

definition coin_amount :: "jstring \<Rightarrow> jstring fee_result" where
  "coin_amount s =
     (if s \<noteq> [] \<and> list_all is_digit s
      then Inr (let z = dropWhile (\<lambda>c. c = 48) s in if z = [] then lit ''0'' else z)
      else Inl (lit ''Invalid unsigned integer string format''))"

definition calculateFee :: "js_number \<Rightarrow> gas_price \<Rightarrow> std_fee fee_result" where
  "calculateFee gasLimit gp =
     (case new_Uint53 gasLimit of
        Inl e \<Rightarrow> Inl e
      | Inr n \<Rightarrow>
          (case coin_amount (Decimal_toString (Decimal_ceil (Decimal_multiply (gp_amount gp) n))) of
             Inl e \<Rightarrow> Inl e
           | Inr a \<Rightarrow> Inr \<lparr>fee_amount = a, fee_denom = gp_denom gp, fee_gas = numToString gasLimit\<rparr>))"

section \<open>The fee is the price of the gas, rounded up\<close>

lemma dec_val_drop_zeros: "dec_val (dropWhile (\<lambda>c. c = 48) s) = dec_val s"
proof -
  have "foldl (\<lambda>a c. 10 * a + digit_val c) 0 (dropWhile (\<lambda>c. c = 48) s) = foldl (\<lambda>a c. 10 * a + digit_val c) 0 s"
    by (induction s) (simp_all add: digit_val_def)
  then show ?thesis by (simp add: dec_val_def)
qed

lemma coin_amount_digits:
  assumes "0 \<le> n" shows "\<exists>a. coin_amount (dec_digits n) = Inr a \<and> dec_val a = n"
proof -
  let ?z = "dropWhile (\<lambda>c. c = 48) (dec_digits n)"
  have "dec_val (if ?z = [] then lit ''0'' else ?z) = dec_val ?z"
    by (cases "?z = []") (simp_all only: if_True if_False refl, simp add: dec_val_def lit_def digit_val_def)
  then show ?thesis
    using dec_digits_spec [OF assms] dec_val_drop_zeros [of "dec_digits n"]
    by (simp add: coin_amount_def Let_def)
qed

lemma Decimal_ceil_spec:
  assumes "d = Decimal_ceil e"
  defines "f \<equiv> (10::int) ^ fractionalDigits e"
  shows "fractionalDigits d = fractionalDigits e" "atomics d mod f = 0"
    "atomics e \<le> atomics d" "atomics d < atomics e + f"
proof -
  have f: "0 < f" by (simp add: f_def)
  have m: "atomics e = f * (atomics e div f) + atomics e mod f" "0 \<le> atomics e mod f" "atomics e mod f < f"
    using f by simp_all
  show "fractionalDigits d = fractionalDigits e" "atomics d mod f = 0"
    using assms by (simp_all add: Decimal_ceil_def Let_def)
  have a: "atomics d = (if atomics e mod f = 0 then atomics e else f * (atomics e div f) + f)"
    using assms by (simp add: Decimal_ceil_def Let_def distrib_right)
  have "atomics e \<le> atomics d \<and> atomics d < atomics e + f"
  proof (cases "atomics e mod f = 0")
    case True
    with a f show ?thesis by simp
  next
    case False
    then have d: "atomics d = f * (atomics e div f) + f" and "0 < atomics e mod f"
      using a m(2) by (simp_all add: order_less_le)
    then show ?thesis using m f by linarith
  qed
  then show "atomics e \<le> atomics d" "atomics d < atomics e + f" by simp_all
qed

lemma calculateFee_spec:
  assumes "0 \<le> n" "n < 2 ^ 53" "0 \<le> atomics (gp_amount gp)"
  shows "\<exists>fee. calculateFee (Fin (of_int n)) gp = Inr fee \<and> fee_denom fee = gp_denom gp \<and> fee_gas fee = dec_digits n
     \<and> atomics (gp_amount gp) * n \<le> dec_val (fee_amount fee) * 10 ^ fractionalDigits (gp_amount gp)
     \<and> dec_val (fee_amount fee) * 10 ^ fractionalDigits (gp_amount gp)
         < atomics (gp_amount gp) * n + 10 ^ fractionalDigits (gp_amount gp)"
proof -
  define e where "e = Decimal_multiply (gp_amount gp) n"
  define f where "f = (10::int) ^ fractionalDigits (gp_amount gp)"
  have e: "atomics e = atomics (gp_amount gp) * n" "fractionalDigits e = fractionalDigits (gp_amount gp)"
    by (simp_all add: e_def Decimal_multiply_def)
  note c = Decimal_ceil_spec [OF refl, of e, unfolded e(2), folded f_def]
  let ?w = "atomics (Decimal_ceil e) div f"
  have f0: "0 < f" by (simp add: f_def)
  have w: "?w * f = atomics (Decimal_ceil e)" using c(2) by (metis add.right_neutral div_mult_mod_eq)
  have "0 \<le> atomics (Decimal_ceil e)" using c(3) e(1) assms mult_nonneg_nonneg [of "atomics (gp_amount gp)" n] by linarith
  with f0 have "0 \<le> ?w" by (simp add: pos_imp_zdiv_nonneg_iff)
  from coin_amount_digits [OF this] obtain a where a: "coin_amount (dec_digits ?w) = Inr a" "dec_val a = ?w" by auto
  have "Decimal_toString (Decimal_ceil e) = dec_digits ?w"
    using c(1,2) by (simp add: Decimal_toString_def Let_def f_def)
  moreover have "new_Uint53 (Fin (of_int n)) = Inr n"
  proof -
    have "\<not> rat_of_int n < - (2 ^ 53 - 1)" "\<not> 2 ^ 53 - 1 < rat_of_int n" "\<not> rat_of_int n < 0"
      using assms(1,2) by simp_all
    then show ?thesis by (simp add: new_Uint53_def isInteger_def)
  qed
  ultimately have "calculateFee (Fin (of_int n)) gp
      = Inr \<lparr>fee_amount = a, fee_denom = gp_denom gp, fee_gas = dec_digits n\<rparr>"
    using a(1) assms by (simp add: calculateFee_def e_def [symmetric] numToString_small)
  with a(2) w c(3,4) e(1) show ?thesis by (simp add: f_def)
qed

lemma dec_val_nonneg: "list_all is_digit s \<Longrightarrow> 0 \<le> dec_val s"
proof (induction s rule: rev_induct)
  case (snoc c s)
  then have "0 \<le> digit_val c" by (simp add: digit_val_def is_digit_def word_le_def)
  with snoc show ?case by (simp add: dec_val_snoc)
qed (simp add: dec_val_def)

lemma GasPrice_fromString_wf:
  assumes "GasPrice_fromString s = Inr gp"
  shows "0 \<le> atomics (gp_amount gp)" "fractionalDigits (gp_amount gp) = 18"
  using assms
  by (auto simp: GasPrice_fromString_def Decimal_fromUserInput_def new_Decimal_def Let_def dec_val_nonneg
      split: if_splits sum.splits option.splits prod.splits)

end
