(* ===== verification/JsJson.thy ===== *)
theory JsJson
  imports Wire
begin

text \<open>
  \<open>JSON.stringify\<close> of an object with string members, as the registration handler uses it: member names and
  values are quoted with the escapes of ECMAScript (short escapes, \<open>\u\<close> escapes for control characters
  and lone surrogates, pairs kept). \<open>json_read\<close> is a reader of quoted strings; reading back gives the string,
  so the body of the verification request determines the domain and the wallet.
\<close>

section \<open>Quoting\<close>

definition hex_digit :: "int \<Rightarrow> unit16" where
  "hex_digit n = (if n < 10 then of_int (48 + n) else of_int (87 + n))"

definition unicode_escape :: "unit16 \<Rightarrow> jstring" where
  "unicode_escape c =
     [92, 117, hex_digit (uint c div 4096), hex_digit (uint c div 256 mod 16), hex_digit (uint c div 16 mod 16),
      hex_digit (uint c mod 16)]"

definition json_char :: "unit16 \<Rightarrow> jstring" where
  "json_char c =
     (if c = 8 then [92, 98] else if c = 9 then [92, 116] else if c = 10 then [92, 110]
      else if c = 12 then [92, 102] else if c = 13 then [92, 114]
      else if c = 34 \<or> c = 92 then [92, c]
      else if c < 32 \<or> is_high_surrogate c \<or> is_low_surrogate c then unicode_escape c
      else [c])"

fun json_chars :: "jstring \<Rightarrow> jstring" where
  "json_chars [] = []"
| "json_chars [c] = json_char c"
| "json_chars (c # d # r) =
     (if is_high_surrogate c \<and> is_low_surrogate d then c # d # json_chars r
      else json_char c @ json_chars (d # r))"

definition json_quote :: "jstring \<Rightarrow> jstring" where
  "json_quote s = 34 # json_chars s @ [34]"

text \<open>\<open>{"k1":"v1","k2":"v2",...}\<close>\<close>

fun json_members :: "(jstring \<times> jstring) list \<Rightarrow> jstring" where
  "json_members [] = []"
| "json_members [(k, v)] = json_quote k @ 58 # json_quote v"
| "json_members ((k, v) # m # ms) = json_quote k @ 58 # json_quote v @ 44 # json_members (m # ms)"

definition json_object :: "(jstring \<times> jstring) list \<Rightarrow> jstring" where
  "json_object ms = 123 # json_members ms @ [125]"

section \<open>Reading back\<close>

definition unhex :: "unit16 \<Rightarrow> int option" where
  "unhex c = (if 48 \<le> c \<and> c \<le> 57 then Some (uint c - 48) else if 97 \<le> c \<and> c \<le> 102 then Some (uint c - 87) else None)"

definition unhex4 :: "unit16 \<Rightarrow> unit16 \<Rightarrow> unit16 \<Rightarrow> unit16 \<Rightarrow> unit16 option" where
  "unhex4 a b c d =
     (case (unhex a, unhex b, unhex c, unhex d) of
        (Some p, Some q, Some r, Some t) \<Rightarrow> Some (of_int (p * 4096 + q * 256 + r * 16 + t))
      | _ \<Rightarrow> None)"

definition unescape :: "unit16 \<Rightarrow> unit16 option" where
  "unescape c = map_of [(98, 8), (116, 9), (110, 10), (102, 12), (114, 13), (34, 34), (92, 92)] c"

fun json_read :: "jstring \<Rightarrow> (jstring \<times> jstring) option" where
  "json_read (c # r) =
     (if c = 34 then Some ([], r)
      else if c = 92 then
        (case r of
           e # r' \<Rightarrow>
             (case unescape e of
                Some x \<Rightarrow> map_option (apfst ((#) x)) (json_read r')
              | None \<Rightarrow>
                  (case r' of
                     h1 # h2 # h3 # h4 # r'' \<Rightarrow>
                       (case unhex4 h1 h2 h3 h4 of
                          Some x \<Rightarrow> if e = 117 then map_option (apfst ((#) x)) (json_read r'') else None
                        | None \<Rightarrow> None)
                   | _ \<Rightarrow> None))
         | [] \<Rightarrow> None)
      else if c < 32 then None
      else map_option (apfst ((#) c)) (json_read r))"
| "json_read [] = None"

lemma hex_small: "0 \<le> n \<Longrightarrow> n < 16 \<Longrightarrow> unhex (hex_digit n) = Some n"
proof -
  assume "0 \<le> n" "n < 16"
  then have "n \<in> {0,1,2,3,4,5,6,7,8,9,10,11,12,13,14,15}" by (simp, presburger)
  then show ?thesis by (auto simp: hex_digit_def unhex_def)
qed

lemma unhex4_escape:
  "unhex4 (hex_digit (uint c div 4096)) (hex_digit (uint c div 256 mod 16)) (hex_digit (uint c div 16 mod 16))
     (hex_digit (uint c mod 16)) = Some (c :: unit16)"
proof -
  define n where "n = uint c"
  have n: "0 \<le> n" "n < 65536" using uint_range_size [of c] by (simp_all add: n_def word_size)
  have "n div 4096 * 4096 + n div 256 mod 16 * 256 + n div 16 mod 16 * 16 + n mod 16 = n"
  proof -
    have "n div 16 div 16 = n div 256" "n div 256 div 16 = n div 4096" by (simp_all add: zdiv_zmult2_eq [symmetric])
    then show ?thesis
      using div_mult_mod_eq [of n 16] div_mult_mod_eq [of "n div 16" 16] div_mult_mod_eq [of "n div 256" 16] by linarith
  qed
  moreover have "n div 4096 < 16" using n by linarith
  moreover have "word_of_int n = c" by (simp add: n_def)
  moreover have "unhex (hex_digit (n div 4096)) = Some (n div 4096)"
    "unhex (hex_digit (n div 256 mod 16)) = Some (n div 256 mod 16)"
    "unhex (hex_digit (n div 16 mod 16)) = Some (n div 16 mod 16)" "unhex (hex_digit (n mod 16)) = Some (n mod 16)"
    using n by (auto intro!: hex_small)
  ultimately show ?thesis unfolding n_def [symmetric] unhex4_def by (simp only: option.case prod.case)
qed

lemma json_read_char: "json_read (json_char c @ r) = map_option (apfst ((#) c)) (json_read r)"
proof -
  have "unescape 117 = None" by (simp add: unescape_def)
  then show ?thesis by (auto simp: json_char_def unescape_def unicode_escape_def unhex4_escape)
qed

lemma surrogate_plain:
  assumes "is_high_surrogate c \<or> is_low_surrogate c" shows "c \<noteq> 34 \<and> c \<noteq> 92 \<and> \<not> c < 32"
proof -
  have "54 \<le> uint c div 1024" using assms by (auto simp: surrogate_div)
  then have "55296 \<le> uint c" by linarith
  then show ?thesis by (auto simp: word_less_def)
qed

lemma json_read_chars: "json_read (json_chars s @ 34 # rest) = Some (s, rest)"
proof (induction s rule: json_chars.induct)
  case (3 c d r)
  then show ?case using surrogate_plain [of c] surrogate_plain [of d]
    by (auto simp: json_read_char simp del: json_read.simps(1)) (simp_all)
qed (simp_all add: json_read_char)

lemma json_quote_read: "json_quote s @ r = 34 # x \<Longrightarrow> json_read x = Some (s, r)"
  using json_read_chars [of s r] by (simp add: json_quote_def)

lemma json_quote_inj: "json_quote s @ r = json_quote s' @ r' \<longleftrightarrow> s = s' \<and> r = r'"
proof
  assume "json_quote s @ r = json_quote s' @ r'"
  then have "json_chars s @ 34 # r = json_chars s' @ 34 # r'" by (simp add: json_quote_def)
  then have "Some (s, r) = Some (s', r')" by (metis json_read_chars)
  then show "s = s' \<and> r = r'" by simp
qed simp

end
