(* ===== verification/WalletEnv.thy ===== *)
theory WalletEnv
  imports WalletMsgs I18n Fee JsJson
begin

text \<open>
  The state of \<open>static/wallet.js\<close> and the world it talks to.

  \<^item> \<open>wallet\<close>: the module's variables (\<open>state.signer\<close>, \<open>state.address\<close>, \<open>state.client\<close>,
    \<open>walletDepsPromise\<close>), the page elements it writes, the readiness flag and installed listeners,
    and the trace of its calls to the outside.
  \<^item> \<open>env\<close>: everything outside \<open>src/\<close> as parameters: the Keplr extension, the dynamic import, the
    RPC client, \<open>fetch\<close>, the clock, \<open>URL\<close>, the form data, the engine's TypeErrors. A reply may
    depend on the whole history (the trace), so the parameters range over every behaviour of those
    parties; each call is logged with the reply it got.
  \<^item> \<open>walletDepsPromise\<close> is the index of a promise in the store \<open>depsPromises\<close>: \<open>Loading r\<close> while the import is
    under way (\<open>r\<close> is the reply it will get), \<open>Settled\<close> once the loader ran.
  \<^item> \<open>Outside n\<close> in the trace marks that something happened that the script does not see; it lets
    replies differ between two moments at which the script made no call.

  Opaque objects (signers, clients) are numbers. Addresses of accounts are strings, as the wallet
  API documents. The config is typed by \<open>WalletConfig\<close> of \<open>main.go\<close>, which writes it; a missing
  property is the empty string or 0, which the code's \<open>||\<close> treats alike.
\<close>

section \<open>Values\<close>

text \<open>A thrown value: nullish or not, its \<open>message\<close> (empty when absent) and its \<open>String\<close> rendering.\<close>

record exn =
  ex_nullish :: bool
  ex_message :: jstring
  ex_string :: jstring

definition newError :: "jstring \<Rightarrow> exn" where
  "newError m = \<lparr>ex_nullish = False, ex_message = m,
     ex_string = (if m = [] then lit ''Error'' else lit ''Error: '' @ m)\<rparr>"

type_synonym signer = nat
type_synonym client = nat

record config =
  cfg_enabled :: bool
  cfg_chain_id :: jstring
  cfg_rpc :: jstring
  cfg_rest :: jstring
  cfg_fee_denom :: jstring
  cfg_gas_price :: jstring
  slot_rate_denom :: jstring
  slot_unit_seconds :: js_number
  slot_min_duration_seconds :: js_number
  slot_max_duration_seconds :: js_number
  gas_create_slot :: js_number
  gas_update_slot :: js_number
  gas_lease_slot :: js_number

text \<open>The object handed to \<open>experimentalSuggestChain\<close>; the constant parts included.\<close>

record currency =
  coinDenom :: jstring
  coinMinimalDenom :: jstring
  coinDecimals :: int

record bech32_config =
  bech32PrefixAccAddr :: jstring
  bech32PrefixAccPub :: jstring
  bech32PrefixValAddr :: jstring
  bech32PrefixValPub :: jstring
  bech32PrefixConsAddr :: jstring
  bech32PrefixConsPub :: jstring

record chain_info =
  ci_chainId :: jstring
  ci_chainName :: jstring
  ci_rpc :: jstring
  ci_rest :: jstring
  ci_coinType :: int
  ci_bech32Config :: bech32_config
  ci_stakeCurrency :: currency
  ci_currencies :: "currency list"
  ci_feeCurrencies :: "(currency \<times> js_number \<times> js_number \<times> js_number) list"

record tx_result =
  tx_code :: int
  rawLog :: jstring
  transactionHash :: jstring

text \<open>The body of the verification response: \<open>None\<close> is JSON \<open>null\<close>.\<close>

record verification =
  v_ok_true :: bool
  v_error :: jstring

record response =
  resp_ok :: bool
  resp_json :: "exn + verification option"

record wallet_bundle =
  has_Long :: bool
  util_Long_same :: bool
  default_types :: "jstring list"

text \<open>A parsed URL: its port and its rendering for a given port.\<close>

record parsed_url =
  url_port :: jstring
  url_href :: "jstring \<Rightarrow> jstring"

record keplr =
  has_suggest :: bool
  has_getOfflineSigner :: bool

text \<open>The arguments of \<open>fetch\<close>: URL, method, headers and body.\<close>

record fetch_request =
  fetch_url :: jstring
  fetch_method :: jstring
  fetch_headers :: "(jstring \<times> jstring) list"
  fetch_body :: jstring

section \<open>The trace\<close>

datatype event =
    SuggestChain chain_info "exn + unit"
  | Enable jstring "exn + unit"
  | GetOfflineSigner jstring "exn + signer"
  | GetOfflineSignerAuto jstring "exn + signer"
  | GetAccounts signer "exn + jstring list option"
  | ImportBundle jstring "exn + wallet_bundle"
  | ConfigureLong
  | ConnectWithSigner jstring signer registry gas_price "exn + client"
  | SignAndBroadcast client jstring "encode_object list" std_fee jstring "exn + tx_result"
  | Fetch fetch_request "exn + response"
  | PreventDefault
  | Alert jstring
  | DispatchInput nat
  | ReloadAfter nat
  | ConsoleError exn
  | Outside nat

type_synonym trace = "event list"

section \<open>The environment\<close>

datatype form = CreateForm nat | StatusForm nat | LeaseForm nat | RegisterForm nat

record env =
  cfg :: config
  e_messages :: "catalog option"
  e_lower :: unicode_lower
  e_keplr :: "trace \<Rightarrow> keplr option"
  e_suggest :: "trace \<Rightarrow> chain_info \<Rightarrow> exn + unit"
  e_enable :: "trace \<Rightarrow> jstring \<Rightarrow> exn + unit"
  e_getOfflineSigner :: "trace \<Rightarrow> jstring \<Rightarrow> exn + signer"
  e_getOfflineSignerAuto :: "trace \<Rightarrow> jstring \<Rightarrow> exn + signer"
  e_getAccounts :: "trace \<Rightarrow> signer \<Rightarrow> exn + jstring list option"
  e_import :: "trace \<Rightarrow> jstring \<Rightarrow> exn + wallet_bundle"
  e_connect :: "trace \<Rightarrow> jstring \<Rightarrow> signer \<Rightarrow> registry \<Rightarrow> gas_price \<Rightarrow> exn + client"
  e_broadcast :: "trace \<Rightarrow> client \<Rightarrow> jstring \<Rightarrow> encode_object list \<Rightarrow> std_fee \<Rightarrow> exn + tx_result"
  e_fetch :: "trace \<Rightarrow> fetch_request \<Rightarrow> exn + response"
  e_now :: "trace \<Rightarrow> int"
  e_newURL :: "jstring \<Rightarrow> parsed_url option"
  e_formData :: "trace \<Rightarrow> form \<Rightarrow> jstring \<Rightarrow> jstring option"
  e_typeError :: "jstring \<Rightarrow> exn"

section \<open>The module state and the page\<close>

record flash_el =
  textContent :: jstring
  hidden :: bool
  is_error :: bool

text \<open>\<open>OnConnect i\<close>: the click listener of the i-th connect button; \<open>OnSubmit f\<close>: the submit listener of a form.\<close>

datatype listener = OnConnect nat | OnSubmit form

datatype deps_promise = Loading "exn + wallet_bundle" | Settled "exn + registry"

datatype context_node = Document | FormNode form

record wallet =
  st_signer :: "signer option"
  st_address :: jstring
  st_client :: "client option"
  walletDepsPromise :: "nat option"
  depsPromises :: "deps_promise list"
  flashes :: "flash_el list"
  doc_flash :: "nat option"
  form_flash :: "form \<Rightarrow> nat option"
  address_els :: "jstring list"
  autofill_inputs :: "jstring list"
  connect_buttons :: nat
  page_forms :: "form list"
  listeners :: "listener list"
  uiReady :: bool
  tr :: trace

text \<open>The registry, once the bundle is loaded.\<close>

definition promise_at :: "deps_promise list \<Rightarrow> nat \<Rightarrow> deps_promise option" where
  "promise_at ps p = (if p < length ps then Some (ps ! p) else None)"

definition registry_at :: "deps_promise list \<Rightarrow> nat \<Rightarrow> registry option" where
  "registry_at ps p = (case promise_at ps p of Some (Settled (Inr r)) \<Rightarrow> Some r | _ \<Rightarrow> None)"

definition walletDeps :: "wallet \<Rightarrow> registry option" where
  "walletDeps s = Option.bind (walletDepsPromise s) (registry_at (depsPromises s))"

type_synonym 'a wproc = "(wallet, exn, 'a) proc"

definition log_event :: "event \<Rightarrow> wallet \<Rightarrow> wallet" where
  "log_event ev s = s\<lparr>tr := tr s @ [ev]\<rparr>"

text \<open>A call to the outside: the reply is a function of the history, and is logged.\<close>

definition call :: "(trace \<Rightarrow> exn + 'a) \<Rightarrow> (exn + 'a \<Rightarrow> event) \<Rightarrow> 'a wproc" where
  "call r ev = Act (\<lambda>s. log_event (ev (r (tr s))) s) (\<lambda>s. Finish (r (tr s)))"

definition emit :: "event \<Rightarrow> unit wproc" where
  "emit ev = modify (log_event ev)"

definition liftE :: "exn + 'a \<Rightarrow> 'a wproc" where
  "liftE r = (case r of Inl e \<Rightarrow> throw e | Inr x \<Rightarrow> ret x)"

definition feeE :: "'a fee_result \<Rightarrow> 'a wproc" where
  "feeE r = (case r of Inl m \<Rightarrow> throw (newError m) | Inr x \<Rightarrow> ret x)"

text \<open>\<open>t(...)\<close> inside the wallet.\<close>

definition tr_text :: "env \<Rightarrow> jstring \<Rightarrow> jstring list \<Rightarrow> jstring wproc" where
  "tr_text E m args =
     (case i18n_t (e_messages E) m args of
        Inl _ \<Rightarrow> throw (e_typeError E (lit ''text.replace''))
      | Inr s \<Rightarrow> ret s)"

text \<open>\<open>throw new Error(t(...))\<close>\<close>

definition throwT :: "env \<Rightarrow> jstring \<Rightarrow> jstring list \<Rightarrow> 'a wproc" where
  "throwT E m args = andThen (tr_text E m args) (\<lambda>s. throw (newError s))"

section \<open>Evaluation rules\<close>

lemma wp_call [wp_simps]:
  "wp (call r ev) Q R s =
     (case r (tr s) of Inl e \<Rightarrow> R e (log_event (ev (Inl e)) s) | Inr x \<Rightarrow> Q x (log_event (ev (Inr x)) s))"
  by (simp add: wp_def call_def split: sum.split)

lemma wp_emit [wp_simps]: "wp (emit ev) Q R s = Q () (log_event ev s)"
  by (simp add: emit_def wp_simps)

lemma wp_liftE [wp_simps]: "wp (liftE r) Q R s = (case r of Inl e \<Rightarrow> R e s | Inr x \<Rightarrow> Q x s)"
  by (simp add: liftE_def wp_simps split: sum.split)

lemma wp_feeE [wp_simps]: "wp (feeE r) Q R s = (case r of Inl m \<Rightarrow> R (newError m) s | Inr x \<Rightarrow> Q x s)"
  by (simp add: feeE_def wp_simps split: sum.split)

lemma wp_tr_text [wp_simps]:
  "wp (tr_text E m args) Q R s =
     (case i18n_t (e_messages E) m args of
        Inl _ \<Rightarrow> R (e_typeError E (lit ''text.replace'')) s | Inr x \<Rightarrow> Q x s)"
  by (simp add: tr_text_def wp_simps split: sum.split)

lemma wp_throwT [wp_simps]:
  "wp (throwT E m args) Q R s =
     (case i18n_t (e_messages E) m args of
        Inl _ \<Rightarrow> R (e_typeError E (lit ''text.replace'')) s | Inr x \<Rightarrow> R (newError x) s)"
  by (simp add: throwT_def wp_simps split: sum.split)

lemma log_event_simps [simp]:
  "tr (log_event ev s) = tr s @ [ev]" "st_signer (log_event ev s) = st_signer s"
  "st_address (log_event ev s) = st_address s" "st_client (log_event ev s) = st_client s"
  "walletDepsPromise (log_event ev s) = walletDepsPromise s" "depsPromises (log_event ev s) = depsPromises s"
  "flashes (log_event ev s) = flashes s"
  "doc_flash (log_event ev s) = doc_flash s" "form_flash (log_event ev s) = form_flash s"
  "address_els (log_event ev s) = address_els s" "autofill_inputs (log_event ev s) = autofill_inputs s"
  "connect_buttons (log_event ev s) = connect_buttons s" "page_forms (log_event ev s) = page_forms s"
  "listeners (log_event ev s) = listeners s" "uiReady (log_event ev s) = uiReady s"
  by (simp_all add: log_event_def)

lemma walletDeps_frame [simp]:
  "walletDeps (log_event ev s) = walletDeps s" "walletDeps (s\<lparr>st_signer := a\<rparr>) = walletDeps s"
  "walletDeps (s\<lparr>st_address := b\<rparr>) = walletDeps s" "walletDeps (s\<lparr>st_client := c\<rparr>) = walletDeps s"
  "walletDeps (s\<lparr>address_els := d\<rparr>) = walletDeps s" "walletDeps (s\<lparr>flashes := e\<rparr>) = walletDeps s"
  "walletDeps (s\<lparr>autofill_inputs := f\<rparr>) = walletDeps s" "walletDeps (s\<lparr>listeners := g\<rparr>) = walletDeps s"
  "walletDeps (s\<lparr>uiReady := h\<rparr>) = walletDeps s"
  by (simp_all add: walletDeps_def)

end
