(* ===== verification/Reader.thy ===== *)
theory Reader
  imports TxCodec WalletEnv
begin

text \<open>
  \<open>BinaryReader\<close> of \<open>static/wallet-deps.bundle.mjs\<close>, the protobuf reader with which the signing client reads what the
  chain answers.

  \<^item> A method of the reader is a function of the buffer and of \<open>pos\<close>; it returns a value and the new position, or
    what it throws. A byte past the end of the buffer is \<open>undefined\<close>, which the bit operations take for 0; the bounds are
    checked after the fact (\<open>assertBounds\<close>).
  \<^item> \<open>decode_until\<close> is the loop of every \<open>decode\<close>: while the position is before the end of the message, read a key and
    let the codec's \<open>switch\<close> read the field. Each round reads a key, so the loop ends (\<open>decode_until_unfold\<close>). A nested
    message is read from the same buffer.
  \<^item> \<open>skipType\<close> skips a field nobody asked for, groups included; \<open>skip_groups\<close> counts the groups that are open.
\<close>

section \<open>Readers\<close>

type_synonym 'a read = "byte list \<Rightarrow> nat \<Rightarrow> exn + 'a \<times> nat"

definition rangeError :: "jstring \<Rightarrow> exn" where
  "rangeError m = \<lparr>ex_nullish = False, ex_message = m, ex_string = lit ''RangeError: '' @ m\<rparr>"

definition retRead :: "'a \<Rightarrow> 'a read" where
  "retRead x buf p = Inr (x, p)"

definition andRead :: "'a read \<Rightarrow> ('a \<Rightarrow> 'b read) \<Rightarrow> 'b read" where
  "andRead m k buf p = (case m buf p of Inl e \<Rightarrow> Inl e | Inr (x, p') \<Rightarrow> k x buf p')"

definition mapRead :: "('a \<Rightarrow> 'b) \<Rightarrow> 'a read \<Rightarrow> 'b read" where
  "mapRead g m = andRead m (\<lambda>x. retRead (g x))"

definition byteAt :: "byte list \<Rightarrow> nat \<Rightarrow> byte" where
  "byteAt buf i = (if i < length buf then buf ! i else 0)"

definition assertBounds :: "'a \<Rightarrow> 'a read" where
  "assertBounds x buf p = (if length buf < p then Inl (rangeError (lit ''premature EOF'')) else Inr (x, p))"

section \<open>Varints\<close>

text \<open>
  The loop over groups of seven bits, \<open>e |= (c & 127) << f\<close> for each shift \<open>f\<close>: did it meet the last byte, the bits,
  the position.
\<close>

fun read_sevens :: "nat list \<Rightarrow> byte list \<Rightarrow> u32 \<Rightarrow> nat \<Rightarrow> bool \<times> u32 \<times> nat" where
  "read_sevens [] buf e p = (False, e, p)"
| "read_sevens (f # fs) buf e p =
     (let c = byteAt buf p; e = e OR push_bit f (ucast c AND 127)
      in if c AND 128 = 0 then (True, e, Suc p) else read_sevens fs buf e (Suc p))"

text \<open>What \<open>varint32read\<close> skips after the fifth byte \<open>c\<close>, and the byte it ends with.\<close>

fun skip_high :: "nat \<Rightarrow> byte list \<Rightarrow> byte \<Rightarrow> nat \<Rightarrow> byte \<times> nat" where
  "skip_high 0 buf c p = (c, p)"
| "skip_high (Suc n) buf c p = (if c AND 128 \<noteq> 0 then skip_high n buf (byteAt buf p) (Suc p) else (c, p))"

definition varint32read :: "u32 read" where
  "varint32read buf p =
     (case read_sevens [0, 7, 14, 21] buf 0 p of
        (True, t, p) \<Rightarrow> assertBounds t buf p
      | (False, t, p) \<Rightarrow>
          (let e = byteAt buf p; t = t OR push_bit 28 (ucast e AND 15); (e, p) = skip_high 5 buf e (Suc p)
           in if e AND 128 \<noteq> 0 then Inl (newError (lit ''invalid varint'')) else assertBounds t buf p))"

definition varint64read :: "(u32 \<times> u32) read" where
  "varint64read buf p =
     (case read_sevens [0, 7, 14, 21] buf 0 p of
        (True, e, p) \<Rightarrow> assertBounds (e, 0) buf p
      | (False, e, p) \<Rightarrow>
          (let i = byteAt buf p; e = e OR push_bit 28 (ucast i AND 15); t = drop_bit 4 (ucast i AND 112)
           in if i AND 128 = 0 then assertBounds (e, t) buf (Suc p)
              else (case read_sevens [3, 10, 17, 24, 31] buf t (Suc p) of
                      (True, t, p) \<Rightarrow> assertBounds (e, t) buf p
                    | (False, t, p) \<Rightarrow> Inl (newError (lit ''invalid varint'')))))"

section \<open>64-bit numbers as decimal strings\<close>

definition decimalFrom1e7WithLeadingZeros :: "int \<Rightarrow> jstring" where
  "decimalFrom1e7WithLeadingZeros e = (let t = numToString (Fin (of_int e)) in drop (length t) (replicate 7 48) @ t)"

definition uInt64ToString :: "u32 \<Rightarrow> u32 \<Rightarrow> jstring" where
  "uInt64ToString e t =
     (if t \<le> 2097151 then numToString (Fin (of_int (4294967296 * uint t + uint e)))
      else let i = uint (e AND 16777215);
               f = uint ((drop_bit 24 e OR push_bit 8 t) AND 16777215);
               c = uint (drop_bit 16 t AND 65535);
               l = i + f * 6777216 + c * 6710656;
               P = f + c * 8147497;
               q = c * 2;
               K = 10000000;
               (P, l) = (if K \<le> l then (P + l div K, l mod K) else (P, l));
               (q, P) = (if K \<le> P then (q + P div K, P mod K) else (q, P))
           in numToString (Fin (of_int q)) @ decimalFrom1e7WithLeadingZeros P @ decimalFrom1e7WithLeadingZeros l)"

definition int64ToString :: "u32 \<Rightarrow> u32 \<Rightarrow> jstring" where
  "int64ToString e t =
     (let i = newBits (uint e) (uint t); neg = (half_hi i < 0);
          i = (if neg then negate (half_lo i) (half_hi i) else i);
          c = uInt64ToString (of_int (half_lo i)) (of_int (half_hi i))
      in if neg then 45 # c else c)"

text \<open>\<open>BigInt(s)\<close> of a decimal string.\<close>

definition bigint_value :: "jstring \<Rightarrow> int" where
  "bigint_value s = (if s \<noteq> [] \<and> hd s = 45 then - dec_val (tl s) else dec_val s)"

section \<open>Strings\<close>

text \<open>\<open>c[P++] = v\<close>\<close>

definition put_unit :: "int \<Rightarrow> int list \<times> nat \<Rightarrow> int list \<times> nat" where
  "put_unit v cp = (let (c, P) = cp in (if P < length c then c[P := v] else c @ [v], Suc P))"

text \<open>One character: what is put, and the position after it.\<close>

definition utf8_char :: "byte list \<Rightarrow> nat \<Rightarrow> int list \<times> nat" where
  "utf8_char e t =
     (let q = uint (byteAt e t);
          six = (\<lambda>k. uint (byteAt e (t + k)) AND 63)
      in if q < 128 then ([q], t + 1)
         else if 191 < q \<and> q < 224 then ([push_bit 6 (q AND 31) OR six 1], t + 2)
         else if 239 < q \<and> q < 365 then
           (let v = (push_bit 18 (q AND 7) OR push_bit 12 (six 1) OR push_bit 6 (six 2) OR six 3) - 65536
            in ([55296 + drop_bit 10 v, 56320 + (v AND 1023)], t + 4))
         else ([push_bit 12 (q AND 15) OR push_bit 6 (six 1) OR six 2], t + 3))"

definition fromCharCode :: "int list \<Rightarrow> jstring" where
  "fromCharCode c = map of_int c"

lemma utf8_char_advances: "utf8_char e t = (us, t') \<Longrightarrow> t < t'"
  by (auto simp: utf8_char_def Let_def split: if_splits)

text \<open>The chunks of 8192 units: \<open>c\<close> is written out whole when it is full, and kept.\<close>

function utf8Read_loop :: "byte list \<Rightarrow> nat \<Rightarrow> int list \<times> nat \<Rightarrow> jstring list \<Rightarrow> jstring" where
  "utf8Read_loop e t cp l =
     (if t < length e then
        (let (us, t') = utf8_char e t; (c, P) = fold put_unit us cp
         in if 8191 < P then utf8Read_loop e t' (c, 0) (l @ [fromCharCode c]) else utf8Read_loop e t' (c, P) l)
      else let (c, P) = cp in concat (if P \<noteq> 0 then l @ [fromCharCode (take P c)] else l))"
  by pat_completeness auto
termination
  by (relation "measure (\<lambda>(e, t, _). length e - t)") (auto dest!: utf8_char_advances [OF sym])

declare utf8Read_loop.simps [simp del]

definition utf8Read :: "byte list \<Rightarrow> jstring" where
  "utf8Read e = (if length e < 1 then [] else utf8Read_loop e 0 ([], 0) [])"

section \<open>The methods of the reader\<close>

definition r_uint32 :: "u32 read" where
  "r_uint32 = varint32read"

definition r_uint64 :: "int read" where
  "r_uint64 = mapRead (\<lambda>(t, i). bigint_value (uInt64ToString t i)) varint64read"

definition r_int64 :: "int read" where
  "r_int64 = mapRead (\<lambda>(t, i). bigint_value (int64ToString t i)) varint64read"

definition r_bytes :: "byte list read" where
  "r_bytes = andRead r_uint32 (\<lambda>t buf i. assertBounds (take (unat t) (drop i buf)) buf (i + unat t))"

definition r_string :: "jstring read" where
  "r_string = mapRead utf8Read r_bytes"

definition indexOutOfRange :: "byte list \<Rightarrow> nat \<Rightarrow> nat \<Rightarrow> exn" where
  "indexOutOfRange buf p t =
     rangeError (lit ''index out of range: '' @ dec_digits (int p) @ lit '' + '' @ dec_digits (int (if t = 0 then 1 else t))
       @ lit '' > '' @ dec_digits (int (length buf)))"

definition skip :: "nat \<Rightarrow> unit read" where
  "skip t buf p = (if length buf < p + t then Inl (indexOutOfRange buf p t) else Inr ((), p + t))"

function skip_varint :: "unit read" where
  "skip_varint buf p =
     (if length buf \<le> p then Inl (indexOutOfRange buf p 0)
      else if byteAt buf p AND 128 \<noteq> 0 then skip_varint buf (Suc p) else Inr ((), Suc p))"
  by pat_completeness auto
termination
  by (relation "measure (\<lambda>(buf, p). length buf - p)") auto

declare skip_varint.simps [simp del]

text \<open>Every wire type but a group.\<close>

definition skip_plain :: "u32 \<Rightarrow> unit read" where
  "skip_plain t =
     (if t = 0 then skip_varint
      else if t = 1 then skip 8
      else if t = 2 then andRead r_uint32 (\<lambda>n. skip (unat n))
      else if t = 5 then skip 4
      else (\<lambda>buf p. Inl (newError (lit ''invalid wire type '' @ dec_digits (uint t) @ lit '' at offset '' @ dec_digits (int p)))))"

section \<open>Readers move forward\<close>

definition forward :: "'a read \<Rightarrow> bool" where
  "forward m \<longleftrightarrow> (\<forall>buf p x p'. m buf p = Inr (x, p') \<longrightarrow> p \<le> p')"

named_theorems forward_intros "readers that never move back"

lemma forwardD: "forward m \<Longrightarrow> m buf p = Inr (x, p') \<Longrightarrow> p \<le> p'"
  by (simp add: forward_def)

lemma forward_retRead [forward_intros]: "forward (retRead x)"
  by (simp add: forward_def retRead_def)

lemma forward_andRead [forward_intros]: "forward m \<Longrightarrow> (\<And>x. forward (k x)) \<Longrightarrow> forward (andRead m k)"
  unfolding forward_def andRead_def by (force split: sum.splits prod.splits dest: order_trans)

lemma forward_mapRead [forward_intros]: "forward m \<Longrightarrow> forward (mapRead g m)"
  unfolding mapRead_def by (intro forward_intros)

lemma forward_skip [forward_intros]: "forward (skip n)"
  by (simp add: forward_def skip_def)

lemma forward_if [forward_intros]: "forward m \<Longrightarrow> forward n \<Longrightarrow> forward (if c then m else n)"
  by simp

lemma read_sevens_pos: "read_sevens fs buf e p = (b, e', p') \<Longrightarrow> p \<le> p' \<and> (b \<longrightarrow> p < p')"
  by (induction fs arbitrary: e p) (fastforce simp: Let_def split: if_splits)+

lemma skip_high_pos: "skip_high n buf c p = (c', p') \<Longrightarrow> p \<le> p'"
  by (induction n arbitrary: c p) (fastforce split: if_splits)+

lemma varint32read_advances: "varint32read buf p = Inr (x, p') \<Longrightarrow> p < p' \<and> p' \<le> length buf"
  by (auto simp: varint32read_def assertBounds_def Let_def split: prod.splits bool.splits if_splits
      dest!: read_sevens_pos skip_high_pos)

lemma varint64read_advances: "varint64read buf p = Inr (x, p') \<Longrightarrow> p < p' \<and> p' \<le> length buf"
  by (auto simp: varint64read_def assertBounds_def Let_def split: prod.splits bool.splits if_splits
      dest!: read_sevens_pos)

lemma forward_varint [forward_intros]: "forward varint32read" "forward varint64read" "forward r_uint32"
  by (auto simp: forward_def r_uint32_def dest: varint32read_advances varint64read_advances)

lemma forward_numbers [forward_intros]: "forward r_uint64" "forward r_int64"
  by (auto simp: r_uint64_def r_int64_def intro!: forward_intros)

lemma forward_bytes [forward_intros]: "forward r_bytes" "forward r_string"
proof -
  show "forward r_bytes"
    unfolding r_bytes_def by (intro forward_andRead forward_varint) (simp add: forward_def assertBounds_def)
  then show "forward r_string" unfolding r_string_def by (intro forward_intros)
qed

lemma forward_skip_varint [forward_intros]: "forward skip_varint"
proof -
  have "skip_varint buf p = Inr (x, p') \<Longrightarrow> p \<le> p'" for buf p x p'
    by (induction buf p rule: skip_varint.induct) (subst (asm) (2) skip_varint.simps, auto split: if_splits)
  then show ?thesis by (simp add: forward_def)
qed

lemma forward_skip_plain [forward_intros]: "forward (skip_plain t)"
proof -
  have "forward (\<lambda>buf p. Inl (E buf p))" for E by (simp add: forward_def)
  then show ?thesis unfolding skip_plain_def by (intro forward_intros)
qed

section \<open>Groups\<close>

text \<open>\<open>d\<close> is the number of groups that are open.\<close>

function skip_groups :: "nat \<Rightarrow> unit read" where
  "skip_groups d buf p =
     (if d = 0 then Inr ((), p)
      else case r_uint32 buf p of
        Inl e \<Rightarrow> Inl e
      | Inr (l, p') \<Rightarrow>
          (let t = l AND 7
           in if t = 4 then skip_groups (d - 1) buf p'
              else if t = 3 then skip_groups (d + 1) buf p'
              else (case skip_plain t buf p' of Inl e \<Rightarrow> Inl e | Inr (_, p'') \<Rightarrow> skip_groups d buf p'')))"
  by pat_completeness auto
termination
  by (relation "measure (\<lambda>(d, buf, p). length buf - p)")
     (auto simp: r_uint32_def dest!: varint32read_advances forwardD [OF forward_skip_plain])

declare skip_groups.simps [simp del]

definition skipType :: "u32 \<Rightarrow> unit read" where
  "skipType t = (if t = 3 then skip_groups 1 else skip_plain t)"

lemma skip_groups_0 [simp]: "skip_groups 0 buf p = Inr ((), p)"
  by (simp add: skip_groups.simps [of 0])

lemma skip_groups_Suc: "skip_groups (Suc d) buf p = andRead (skip_groups 1) (\<lambda>_. skip_groups d) buf p"
proof -
  have "skip_groups (k + d) buf p = andRead (skip_groups k) (\<lambda>_. skip_groups d) buf p" for k
  proof (induction k buf p rule: skip_groups.induct)
    case (1 k buf p)
    show ?case
    proof (cases "k = 0 \<or> (\<exists>e. r_uint32 buf p = Inl e)")
      case True
      then show ?thesis by (cases "k = 0") (auto simp: andRead_def skip_groups.simps [of "k + d"] skip_groups.simps [of k])
    next
      case False
      then obtain l p' where r: "r_uint32 buf p = Inr (l, p')" and k: "0 < k" by (cases "r_uint32 buf p") auto
      note IH = 1 [OF _ r refl]
      have e: "k + d - 1 = k - 1 + d" "k + d + 1 = k + 1 + d" using k by simp_all
      show ?thesis
        unfolding skip_groups.simps [of "k + d" buf p] andRead_def skip_groups.simps [of k buf p]
        using k r IH by (simp add: e andRead_def Let_def split: sum.split prod.split)
    qed
  qed
  from this [of 1] show ?thesis by simp
qed

text \<open>The recursion of the source: a group is skipped field by field up to its end tag.\<close>

lemma skipType_group:
  "skipType 3 = andRead r_uint32 (\<lambda>l. if l AND 7 = 4 then retRead () else andRead (skipType (l AND 7)) (\<lambda>_. skipType 3))"
proof (intro ext)
  fix buf p
  show "skipType 3 buf p = andRead r_uint32 (\<lambda>l. if l AND 7 = 4 then retRead ()
      else andRead (skipType (l AND 7)) (\<lambda>_. skipType 3)) buf p"
    using skip_groups_Suc [of 1 buf]
    by (auto simp: skipType_def andRead_def retRead_def Let_def skip_groups.simps [of "Suc 0" buf p] split: sum.split prod.split)
qed

lemma forward_skip_groups: "skip_groups d buf p = Inr (x, p') \<Longrightarrow> p \<le> p'"
proof (induction d buf p rule: skip_groups.induct)
  case (1 d buf p)
  show ?case
  proof (cases "d = 0")
    case False
    with 1(4) obtain l p1 where r: "r_uint32 buf p = Inr (l, p1)"
      by (cases "r_uint32 buf p") (auto simp: skip_groups.simps [of d])
    then have p1: "p \<le> p1" by (rule forwardD [OF forward_varint(3)])
    note IH = 1(1-3) [OF False r refl refl]
    note r' = 1(4) False r p1
    consider (closed) "l AND 7 = 4" | (opened) "l AND 7 = 3" | (plain) "l AND 7 \<noteq> 4" "l AND 7 \<noteq> 3" by blast
    then show ?thesis
    proof cases
      case closed
      with IH(1) r' show ?thesis by (simp add: skip_groups.simps [of d])
    next
      case opened
      with IH(2) r' show ?thesis by (simp add: skip_groups.simps [of d])
    next
      case plain
      with r' obtain p2 where s: "skip_plain (l AND 7) buf p1 = Inr ((), p2)"
        by (cases "skip_plain (l AND 7) buf p1") (auto simp: skip_groups.simps [of d])
      then have "p1 \<le> p2" by (rule forwardD [OF forward_skip_plain])
      with IH(3) [OF plain s refl] r' plain s show ?thesis by (simp add: skip_groups.simps [of d])
    qed
  qed (use 1(4) in simp)
qed

lemma forward_skipType [forward_intros]: "forward (skipType t)"
  using forward_skip_plain [of t] by (auto simp: skipType_def forward_def dest: forward_skip_groups)

section \<open>Messages\<close>

fun decode_loop :: "nat \<Rightarrow> nat \<Rightarrow> (u32 \<Rightarrow> 'm \<Rightarrow> 'm read) \<Rightarrow> 'm \<Rightarrow> 'm read" where
  "decode_loop 0 f step m buf p = Inr (m, p)"
| "decode_loop (Suc n) f step m buf p =
     (if p < f then andRead r_uint32 (\<lambda>l. andRead (step l m) (decode_loop n f step)) buf p else Inr (m, p))"

text \<open>At most one round per byte before the end \<open>f\<close>.\<close>

definition decode_until :: "(u32 \<Rightarrow> 'm \<Rightarrow> 'm read) \<Rightarrow> 'm \<Rightarrow> nat \<Rightarrow> 'm read" where
  "decode_until step m f buf p = decode_loop (f - p) f step m buf p"

text \<open>\<open>decode(bytes)\<close> and \<open>decode(reader, reader.uint32())\<close>.\<close>

definition decode_msg :: "(u32 \<Rightarrow> 'm \<Rightarrow> 'm read) \<Rightarrow> 'm \<Rightarrow> byte list \<Rightarrow> exn + 'm" where
  "decode_msg step c e = map_sum id fst (decode_until step c (length e) e 0)"

definition decode_sub :: "(u32 \<Rightarrow> 'm \<Rightarrow> 'm read) \<Rightarrow> 'm \<Rightarrow> 'm read" where
  "decode_sub step c = andRead r_uint32 (\<lambda>t buf p. decode_until step c (p + unat t) buf p)"

text \<open>The \<open>default\<close> of the \<open>switch\<close>: the field is skipped.\<close>

definition skip_field :: "u32 \<Rightarrow> 'm \<Rightarrow> 'm read" where
  "skip_field l c = mapRead (\<lambda>_. c) (skipType (l AND 7))"

lemma forward_skip_field [forward_intros]: "forward (skip_field l c)"
  unfolding skip_field_def by (intro forward_intros)

lemma decode_loop_enough:
  assumes step: "\<And>l m. forward (step l m)"
  shows "f - p \<le> n \<Longrightarrow> f - p \<le> k \<Longrightarrow> decode_loop n f step m buf p = decode_loop k f step m buf p"
proof (induction n arbitrary: k m p)
  case 0
  then show ?case by (cases k) simp_all
next
  case (Suc n)
  show ?case
  proof (cases "p < f")
    case True
    with Suc.prems obtain j where j: "k = Suc j" by (cases k) auto
    have "decode_loop n f step m' buf q = decode_loop j f step m' buf q"
      if "r_uint32 buf p = Inr (l, p')" "step l m buf p' = Inr (m', q)" for l p' m' q
    proof -
      have "p < p'" using that(1) by (auto simp: r_uint32_def dest: varint32read_advances)
      moreover have "p' \<le> q" using that(2) by (rule forwardD [OF step])
      ultimately show ?thesis using Suc.prems j by (intro Suc.IH) linarith+
    qed
    with True j show ?thesis by (simp add: andRead_def split: sum.split prod.split)
  next
    case False
    then show ?thesis by (cases k) simp_all
  qed
qed

text \<open>The loop of the source.\<close>

lemma decode_until_unfold:
  assumes step: "\<And>l m. forward (step l m)"
  shows "decode_until step m f buf p =
    (if p < f then andRead r_uint32 (\<lambda>l. andRead (step l m) (\<lambda>m'. decode_until step m' f)) buf p else Inr (m, p))"
proof (cases "p < f")
  case True
  then obtain k where k: "f - p = Suc k" by (cases "f - p") auto
  have "decode_loop k f step m' buf q = decode_until step m' f buf q"
    if "r_uint32 buf p = Inr (l, p')" "step l m buf p' = Inr (m', q)" for l p' m' q
  proof -
    have "p < p'" using that(1) by (auto simp: r_uint32_def dest: varint32read_advances)
    moreover have "p' \<le> q" using that(2) by (rule forwardD [OF step])
    ultimately show ?thesis unfolding decode_until_def using k by (intro decode_loop_enough step) linarith+
  qed
  with True k show ?thesis by (simp add: decode_until_def [of _ m] andRead_def split: sum.split prod.split)
next
  case False
  then show ?thesis by (simp add: decode_until_def)
qed

lemma forward_decode_until [forward_intros]: "(\<And>l m. forward (step l m)) \<Longrightarrow> forward (decode_until step m f)"
proof -
  assume step: "\<And>l m. forward (step l m)"
  have "decode_loop n f step m buf p = Inr (m', p') \<Longrightarrow> p \<le> p'" for n m m' buf p p'
  proof (induction n arbitrary: m p)
    case (Suc n)
    then show ?case
      by (auto simp: andRead_def split: if_splits sum.splits prod.splits
          dest!: forwardD [OF forward_varint(3)] forwardD [OF step])
        (meson le_trans)
  qed simp
  then show ?thesis by (simp add: forward_def decode_until_def)
qed

lemma forward_decode_sub [forward_intros]: "(\<And>l m. forward (step l m)) \<Longrightarrow> forward (decode_sub step c)"
proof -
  assume "\<And>l m. forward (step l m)"
  then have "forward (\<lambda>buf p. decode_until step c (p + n) buf p)" for n
    using forward_decode_until [of step] by (auto simp: forward_def)
  then show ?thesis unfolding decode_sub_def by (intro forward_andRead forward_varint)
qed

end
