(* ===== verification/ReaderVarint.thy ===== *)
theory ReaderVarint
  imports Reader
begin

text \<open>
  The varint readers on every buffer. The reference is \<open>read_varint\<close> of \<open>Wire\<close>, applied to the rest of the buffer followed by
  the zero byte the reader takes \<open>undefined\<close> for. A varint of at most ten bytes within the buffer is read exactly, modulo
  2 ^ 64 (\<open>varint64read_exact\<close>) or 2 ^ 32 (\<open>varint32read_exact\<close>); a longer one is refused, one that runs off the end too.
\<close>

section \<open>The bytes at a position\<close>

text \<open>What the reader sees from \<open>p\<close> on: the rest of the buffer, and then a byte that ends every varint.\<close>

definition sees :: "byte list \<Rightarrow> nat \<Rightarrow> byte list \<Rightarrow> bool" where
  "sees buf p bs \<longleftrightarrow> p \<le> length buf \<and> bs = drop p buf @ [0]"

lemma high_bit: "c AND 128 = 0 \<longleftrightarrow> c < 128" for c :: byte
proof -
  have "c AND 128 = 0 \<longleftrightarrow> \<not> bit (uint c) 7"
    using and_exp_eq_0_iff_not_bit [of c 7] by (simp add: bit_uint_iff)
  also have "\<dots> \<longleftrightarrow> even (uint c div 2 ^ 7)" by (simp only: bit_iff_odd not_not)
  also have "\<dots> \<longleftrightarrow> uint c < 128"
  proof -
    have "even (n div 128) \<longleftrightarrow> n < 128" if "0 \<le> n" "n < 256" for n :: int using that by presburger
    from this [OF uint_ge_0, of c] show ?thesis using uint_lt2p [of c] by simp
  qed
  finally show ?thesis by (simp add: word_less_def)
qed

lemma int_and_bits: "x AND (2 ^ k - 1) = x mod 2 ^ k" for x :: int
  by (simp add: take_bit_eq_mask mask_eq_exp_minus_1 flip: take_bit_eq_mod)

lemma uint_ucast_byte: "uint (ucast c :: u32) = uint c" for c :: byte
  by (simp add: unsigned_ucast_eq take_bit_int_eq_self uint_lt2p [THEN order_less_le_trans])

lemma seven_bits: "uint (ucast c AND 127 :: u32) = uint c mod 128" for c :: byte
  using int_and_bits [of "uint c" 7] by (simp add: uint_and uint_ucast_byte)

lemma read_varint_padded: "\<exists>v r. read_varint (bs @ [0]) = Some (v, r)"
  by (induction bs) (auto split: option.split)

lemma read_varint_nonneg: "read_varint bs = Some (v, r) \<Longrightarrow> 0 \<le> v"
  by (induction bs arbitrary: v r) (auto simp: word_less_def split: if_splits option.splits)

lemma sees_Cons:
  assumes "sees buf p (b # bs)"
  shows "b = byteAt buf p" "\<not> b < 128 \<Longrightarrow> sees buf (Suc p) bs"
proof -
  have "b = byteAt buf p \<and> (\<not> b < 128 \<longrightarrow> sees buf (Suc p) bs)"
  proof (cases "p < length buf")
    case True
    then have "drop p buf = buf ! p # drop (Suc p) buf" by (rule Cons_nth_drop_Suc [symmetric])
    with assms True show ?thesis by (simp add: sees_def byteAt_def)
  next
    case False
    with assms show ?thesis by (simp add: sees_def byteAt_def)
  qed
  then show "b = byteAt buf p" "\<not> b < 128 \<Longrightarrow> sees buf (Suc p) bs" by simp_all
qed

lemma uint_push: "uint (push_bit s w :: u32) = uint w * 2 ^ s mod 2 ^ 32"
  unfolding unsigned_push_bit_eq by (simp add: push_bit_eq_mult take_bit_eq_mod)

lemma or_group:
  assumes "uint e < 2 ^ s" "uint g * 2 ^ s < 2 ^ 32"
  shows "uint (e OR push_bit s g :: u32) = uint e + 2 ^ s * uint g"
proof -
  have "uint (push_bit s g) = uint g * 2 ^ s" using assms(2) by (simp add: uint_push mod_pos_pos_trivial)
  with uint_or_shift [of e s "push_bit s g" "uint g"] assms(1) show ?thesis by (simp add: mult.commute)
qed

lemma or_seven:
  fixes c :: byte
  assumes "uint e < 2 ^ s" "s + 7 \<le> 32"
  shows "uint (e OR push_bit s (ucast c AND 127) :: u32) = uint e + 2 ^ s * (uint c mod 128)"
proof -
  have "uint c mod 128 * 2 ^ s < 2 ^ 7 * 2 ^ s" by simp
  also have "\<dots> = (2::int) ^ (s + 7)" by (simp add: power_add mult.commute)
  also have "\<dots> \<le> 2 ^ 32" using assms(2) by (intro power_increasing) simp_all
  finally show ?thesis using or_group [OF assms(1), of "ucast c AND 127"] by (simp add: seven_bits del: push_bit_and)
qed

section \<open>The groups of seven bits\<close>

fun shifts :: "nat \<Rightarrow> nat \<Rightarrow> nat list" where
  "shifts s 0 = []"
| "shifts s (Suc n) = s # shifts (s + 7) n"

text \<open>The loop either meets the last byte or leaves the higher groups to be read.\<close>

definition sevens_ok :: "byte list \<Rightarrow> nat \<Rightarrow> nat \<Rightarrow> u32 \<Rightarrow> nat \<Rightarrow> byte list \<Rightarrow> int \<Rightarrow> byte list \<Rightarrow> bool" where
  "sevens_ok buf s n e p bs v r \<longleftrightarrow>
     (if length bs \<le> length r + n
      then \<exists>e'. read_sevens (shifts s n) buf e p = (True, e', p + (length bs - length r)) \<and> uint e' = uint e + 2 ^ s * v
        \<and> v < 128 ^ n
      else \<exists>e'. read_sevens (shifts s n) buf e p = (False, e', p + n) \<and> uint e' = uint e + 2 ^ s * (v mod 128 ^ n)
        \<and> sees buf (p + n) (drop n bs) \<and> read_varint (drop n bs) = Some (v div 128 ^ n, r))"

lemma read_sevens_run:
  "sees buf p bs \<Longrightarrow> read_varint bs = Some (v, r) \<Longrightarrow> uint e < 2 ^ s \<Longrightarrow> s + 7 * n \<le> 32 \<Longrightarrow> sevens_ok buf s n e p bs v r"
proof (induction n arbitrary: s e p bs v)
  case 0
  then show ?case using read_varint_shorter [OF 0(2)] by (simp add: sevens_ok_def)
next
  case (Suc n)
  from Suc.prems(2) obtain b bs' where b: "bs = b # bs'" by (cases bs) auto
  define e' where "e' = e OR push_bit s (ucast b AND 127)"
  have e': "uint e' = uint e + 2 ^ s * (uint b mod 128)"
    unfolding e'_def using Suc.prems(3,4) by (intro or_seven) simp_all
  have step: "read_sevens (shifts s (Suc n)) buf e p
      = (if b < 128 then (True, e', Suc p) else read_sevens (shifts (s + 7) n) buf e' (Suc p))"
    using sees_Cons(1) Suc.prems(1) b by (simp add: Let_def high_bit e'_def del: push_bit_and)
  show ?case
  proof (cases "b < 128")
    case True
    then have "v = uint b" "r = bs'" "uint b mod 128 = uint b" "uint b < 128" using Suc.prems(2) b by (auto simp: word_less_def)
    moreover have "(128::int) ^ 1 \<le> 128 ^ Suc n" by (intro power_increasing) simp_all
    ultimately show ?thesis using step True b e' by (simp add: sevens_ok_def del: read_sevens.simps power_Suc shifts.simps) 
  next
    case False
    then obtain v' where v': "read_varint bs' = Some (v', r)" "v = uint b - 128 + 128 * v'"
      using Suc.prems(2) b by (auto split: option.splits)
    have m: "uint b mod 128 = uint b - 128" using False uint_lt2p [of b] by (simp add: word_less_def) presburger
    have "uint b mod 128 < 128" by simp
    then have "2 ^ s * (uint b mod 128) \<le> 2 ^ s * 127" by (intro mult_left_mono) simp_all
    then have "uint e' < 2 ^ s + 2 ^ s * 127" using e' Suc.prems(3) by linarith
    also have "\<dots> = 2 ^ (s + 7)" by (simp add: power_add)
    finally have IH: "sevens_ok buf (s + 7) n e' (Suc p) bs' v' r"
      using Suc.prems v' b False by (intro Suc.IH sees_Cons(2)) simp_all
    have "0 \<le> uint b - 128" "uint b - 128 < 128" using False uint_lt2p [of b] by (simp_all add: word_less_def)
    then have d: "v div 128 = v'" "v mod 128 = uint b - 128" unfolding v'(2) by (simp_all add: m)
    have eq: "uint e' + 2 ^ (s + 7) * x = uint e + 2 ^ s * (uint b - 128 + 128 * x)" for x
      by (simp add: e' m power_add algebra_simps)
    have "v mod 128 ^ Suc n = uint b - 128 + 128 * (v' mod 128 ^ n)" "v div 128 ^ Suc n = v' div 128 ^ n"
      using zmod_zmult2_eq [of "128 ^ n" v 128] zdiv_zmult2_eq [of "128 ^ n" v 128] by (simp_all add: d)
    moreover have "v < 128 ^ Suc n" if "v' < 128 ^ n"
      using that v'(2) uint_lt2p [of b] by simp
    moreover have "length r < length bs'" using v'(1) by (rule read_varint_shorter)
    ultimately show ?thesis using IH step False b by (auto simp: sevens_ok_def eq v'(2) Suc_diff_le simp del: read_sevens.simps shifts.simps power_Suc)
  qed
qed

section \<open>Varints are read exactly\<close>

lemma fifth_byte:
  fixes i :: byte
  assumes "uint e < 268435456"
  shows "uint (e OR push_bit 28 (ucast i AND 15) :: u32) = uint e + 268435456 * (uint i mod 16)"
    and "uint (drop_bit 4 (ucast i AND 112) :: u32) = uint i div 16 mod 8"
proof -
  have g: "uint (ucast i AND 15 :: u32) = uint i mod 16"
    using int_and_bits [of "uint i" 4] by (simp add: uint_and uint_ucast_byte)
  have "uint i mod 16 < 16" by simp
  then show "uint (e OR push_bit 28 (ucast i AND 15) :: u32) = uint e + 268435456 * (uint i mod 16)"
    using or_group [of e 28 "ucast i AND 15"] assms by (simp only: g) simp
  have "drop_bit 4 (ucast i AND 112 :: u32) = drop_bit 4 (ucast i) AND 7"
    by (simp only: drop_bit_and) simp
  then show "uint (drop_bit 4 (ucast i AND 112) :: u32) = uint i div 16 mod 8"
    using int_and_bits [of "uint i div 16" 3] by (simp add: uint_and uint_drop_bit_div uint_ucast_byte del: drop_bit_eq_div)
qed

lemma tenth_byte:
  fixes j :: byte
  assumes "uint t < 2147483648"
  shows "uint (t OR push_bit 31 (ucast j AND 127) :: u32) = uint t + 2147483648 * (uint j mod 2)"
proof -
  have "uint j mod 128 * 2147483648 mod 4294967296 = uint j mod 2 * 2147483648"
    using mod_mult_mult2 [of "uint j mod 128" 2147483648 2] by (simp add: mod_mod_cancel)
  then have "uint (push_bit 31 (ucast j AND 127) :: u32) = uint j mod 2 * 2147483648"
    using uint_push [of 31 "ucast j AND 127"] by (simp only: seven_bits) simp
  then show ?thesis using uint_or_shift [of t 31 "push_bit 31 (ucast j AND 127)" "uint j mod 2"] assms
    by (simp del: push_bit_and)
qed

lemma read_sevens_append:
  "read_sevens (fs @ gs) buf e p =
    (case read_sevens fs buf e p of (True, e', p') \<Rightarrow> (True, e', p') | (False, e', p') \<Rightarrow> read_sevens gs buf e' p')"
  by (induction fs arbitrary: e p) (simp_all add: Let_def)

lemma u32_eqI: "uint x = v mod 4294967296 \<Longrightarrow> x = of_int v" for x :: u32
  by (simp add: word_uint_eq_iff uint_word_of_int)

text \<open>The fifth byte in the two halves of the value, and then the tenth.\<close>

lemma split_low:
  fixes v i w :: int
  assumes "v div 268435456 = i + 128 * w" "0 \<le> i" "i < 128"
  shows "v mod 4294967296 = v mod 268435456 + 268435456 * (i mod 16)" "v div 4294967296 = i div 16 mod 8 + 8 * w"
proof -
  have "i + 128 * w = i + 16 * (8 * w)" by simp
  then have m: "(i + 128 * w) mod 16 = i mod 16" "(i + 128 * w) div 16 = i div 16 + 8 * w"
    by (simp_all only: mod_mult_self2 div_mult_self2)
  have a: "v mod 4294967296 = 268435456 * (v div 268435456 mod 16) + v mod 268435456"
    using zmod_zmult2_eq [of 16 v 268435456] by (simp only: arith_simps)
  have b: "v div 4294967296 = v div 268435456 div 16"
    using zdiv_zmult2_eq [of 16 v 268435456] by (simp only: arith_simps)
  have "i div 16 < 8" "0 \<le> i div 16" using assms(2,3) by (simp_all add: div_less_iff_mult pos_imp_zdiv_nonneg_iff)
  then have c: "i div 16 mod 8 = i div 16" by (simp only: mod_pos_pos_trivial)
  show "v mod 4294967296 = v mod 268435456 + 268435456 * (i mod 16)" unfolding a assms(1) m(1) by (rule add.commute)
  show "v div 4294967296 = i div 16 mod 8 + 8 * w" unfolding b assms(1) m(2) c by (rule refl)
qed

lemma low_groups: "(n - 128) mod 16 = n mod 16" "(n - 128) div 16 mod 8 = n div 16 mod 8" for n :: int
proof -
  have "n = (n - 128) + 16 * 8" by simp
  then have "n mod 16 = (n - 128) mod 16" "n div 16 = (n - 128) div 16 + 8"
    using mod_mult_self2 [of "n - 128" 16 8] div_mult_self2 [of 16 "n - 128" 8] by simp_all
  then show "(n - 128) mod 16 = n mod 16" "(n - 128) div 16 mod 8 = n div 16 mod 8" by simp_all
qed

lemma split_high:
  fixes w j t :: int
  assumes "w div 268435456 = j" "0 \<le> t" "t < 8"
  shows "(t + 8 * w) mod 4294967296 = t + 8 * (w mod 268435456) + 2147483648 * (j mod 2)"
proof -
  define g where "g = t + 8 * (w mod 268435456)"
  have g: "0 \<le> g" "g < 2147483648" using assms(2,3) pos_mod_bound [of 268435456 w] by (simp_all add: g_def)
  have "w = 268435456 * j + w mod 268435456" using mult_div_mod_eq [of 268435456 w] assms(1) by simp
  then have "t + 8 * w = g + 2147483648 * j" by (simp add: g_def)
  then show ?thesis using zmod_zmult2_eq [of 2 "t + 8 * w" 2147483648] g by (simp add: g_def [symmetric])
qed

definition varint_result :: "byte list \<Rightarrow> nat \<Rightarrow> int \<Rightarrow> nat \<Rightarrow> exn + (u32 \<times> u32) \<times> nat" where
  "varint_result buf p v k =
     (if 10 < k then Inl (newError (lit ''invalid varint''))
      else assertBounds (of_int v, of_int (v div 4294967296)) buf (p + k))"

lemma shifts_eval: "[0, 7, 14, 21] = shifts 0 4" "[3, 10, 17, 24, 31] = shifts 3 4 @ [31]"
  by (simp_all add: numeral_eq_Suc)

lemma read_varint_ConsD:
  assumes "read_varint bs = Some (v, r)"
  obtains (last) b where "bs = b # r" "b < 128" "v = uint b"
    | (more) b bs' w where "bs = b # bs'" "\<not> b < 128" "read_varint bs' = Some (w, r)" "v = uint b - 128 + 128 * w"
  using assms by (cases bs) (auto split: if_splits option.splits)

lemma read_high:
  assumes "sees buf p bs" "read_varint bs = Some (w, r)" "uint t < 8"
  shows "\<exists>t' q. read_sevens [3, 10, 17, 24, 31] buf t p = (length bs \<le> length r + 5, t', q)
    \<and> (length bs \<le> length r + 5 \<longrightarrow> t' = of_int (uint t + 8 * w) \<and> q = p + (length bs - length r))"
proof -
  have ok: "sevens_ok buf 3 4 t p bs w r" using assms by (intro read_sevens_run) simp_all
  show ?thesis
  proof (cases "length bs \<le> length r + 4")
    case True
    with ok obtain t' where t': "read_sevens (shifts 3 4) buf t p = (True, t', p + (length bs - length r))"
      "uint t' = uint t + 8 * w" "w < 268435456" by (auto simp: sevens_ok_def)
    then have "t' = of_int (uint t + 8 * w)" using read_varint_nonneg [OF assms(2)] assms(3)
      by (intro u32_eqI) (simp add: mod_pos_pos_trivial)
    with t'(1) True show ?thesis by (simp add: shifts_eval read_sevens_append)
  next
    case False
    with ok obtain t1 where t1: "read_sevens (shifts 3 4) buf t p = (False, t1, p + 4)"
      "uint t1 = uint t + 8 * (w mod 268435456)" "sees buf (p + 4) (drop 4 bs)"
      "read_varint (drop 4 bs) = Some (w div 268435456, r)" by (auto simp: sevens_ok_def)
    have l: "uint t1 < 2147483648" using t1(2) assms(3) pos_mod_bound [of 268435456 w] by simp
    from t1(4) show ?thesis
    proof (cases rule: read_varint_ConsD)
      case (last j)
      note j = sees_Cons(1) [OF t1(3) [unfolded last(1)]]
      have n: "length bs = length r + 5" using arg_cong [OF last(1), of length] False by simp
      have "t1 OR push_bit 31 (ucast j AND 127) = of_int (uint t + 8 * w)"
        using tenth_byte [OF l, of j] split_high [OF last(3), of "uint t"] t1(2) assms(3) by (intro u32_eqI) simp
      then show ?thesis using j n last(2) t1(1)
        by (simp add: shifts_eval(2) read_sevens_append high_bit Let_def del: push_bit_and shifts.simps)
    next
      case (more j bs' w')
      note j = sees_Cons(1) [OF t1(3) [unfolded more(1)]]
      have "length r < length bs'" using more(3) by (rule read_varint_shorter)
      then have "\<not> length bs \<le> length r + 5" using arg_cong [OF more(1), of length] by simp
      then show ?thesis using j more(2) t1(1)
        by (simp add: shifts_eval(2) read_sevens_append high_bit Let_def del: push_bit_and shifts.simps)
    qed
  qed
qed

lemma varint64read_exact:
  assumes "sees buf p bs" "read_varint bs = Some (v, r)"
  shows "varint64read buf p = varint_result buf p v (length bs - length r)"
proof -
  have v0: "0 \<le> v" using assms(2) by (rule read_varint_nonneg)
  have ok: "sevens_ok buf 0 4 0 p bs v r" using assms by (intro read_sevens_run) simp_all
  show ?thesis
  proof (cases "length bs \<le> length r + 4")
    case True
    with ok obtain e where e: "read_sevens (shifts 0 4) buf 0 p = (True, e, p + (length bs - length r))"
      "uint e = v" "v < 268435456" by (auto simp: sevens_ok_def)
    then have "e = of_int v" "v div 4294967296 = 0" by (auto intro!: u32_eqI simp: v0)
    moreover have "\<not> 10 < length bs - length r" using True by simp
    ultimately show ?thesis using e(1) by (simp add: varint64read_def varint_result_def shifts_eval(1))
  next
    case False
    with ok obtain e where e: "read_sevens (shifts 0 4) buf 0 p = (False, e, p + 4)"
      "uint e = v mod 268435456" "sees buf (p + 4) (drop 4 bs)"
      "read_varint (drop 4 bs) = Some (v div 268435456, r)" by (auto simp: sevens_ok_def)
    have l: "uint e < 268435456" using e(2) by simp
    from e(4) show ?thesis
    proof (cases rule: read_varint_ConsD)
      case (last i)
      note i = sees_Cons(1) [OF e(3) [unfolded last(1)]]
      have n: "length bs = length r + 5" using arg_cong [OF last(1), of length] False by simp
      have s: "v div 268435456 = uint i + 128 * 0" "0 \<le> uint i" "uint i < 128" using last by (simp_all add: word_less_def)
      have "e OR push_bit 28 (ucast i AND 15) = of_int v"
        using fifth_byte(1) [OF l, of i] split_low(1) [OF s] e(2) by (intro u32_eqI) simp
      moreover have "drop_bit 4 (ucast i AND 112) = (of_int (v div 4294967296) :: u32)"
        using fifth_byte(2) [OF l, of i] split_low(2) [OF s] by (intro u32_eqI) simp
      ultimately show ?thesis using i n last(2) e(1)
        by (simp add: varint64read_def varint_result_def shifts_eval(1) high_bit Let_def add.commute
            del: push_bit_and drop_bit_and shifts.simps)
    next
      case (more i bs' w)
      note i = sees_Cons [OF e(3) [unfolded more(1)]]
      have n: "length bs = length bs' + 5" using arg_cong [OF more(1), of length] False by simp
      have s: "v div 268435456 = (uint i - 128) + 128 * w" "0 \<le> uint i - 128" "uint i - 128 < 128"
        using more uint_lt2p [of i] by (simp_all add: word_less_def)
      have m: "(uint i - 128) mod 16 = uint i mod 16" "(uint i - 128) div 16 mod 8 = uint i div 16 mod 8"
        by (rule low_groups)+
      have eo: "e OR push_bit 28 (ucast i AND 15) = of_int v"
        using fifth_byte(1) [OF l, of i] split_low(1) [OF s] e(2) by (intro u32_eqI) (simp add: m)
      define t where "t = (drop_bit 4 (ucast i AND 112) :: u32)"
      have t: "uint t = uint i div 16 mod 8" unfolding t_def by (rule fifth_byte(2) [OF l])
      obtain t' q where h: "read_sevens [3, 10, 17, 24, 31] buf t (Suc (p + 4)) = (length bs' \<le> length r + 5, t', q)"
        "length bs' \<le> length r + 5 \<Longrightarrow> t' = of_int (uint t + 8 * w) \<and> q = Suc (p + 4) + (length bs' - length r)"
        using read_high [OF i(2) [OF more(2)] more(3), of t] t by auto
      have "uint t + 8 * w = v div 4294967296" using split_low(2) [OF s] by (simp add: t m)
      moreover have "varint64read buf p = (if length bs' \<le> length r + 5 then assertBounds (of_int v, t') buf q
          else Inl (newError (lit ''invalid varint'')))"
        using h(1) i(1) more(2) e(1) eo
        by (simp add: varint64read_def shifts_eval(1) high_bit Let_def t_def del: push_bit_and drop_bit_and shifts.simps)
      moreover have "10 < length bs - length r \<longleftrightarrow> \<not> length bs' \<le> length r + 5" using n by auto
      moreover have "t' = of_int (uint t + 8 * w) \<and> q = p + (length bs - length r)" if "length bs' \<le> length r + 5"
        using h(2) [OF that] n read_varint_shorter [OF more(3)] by simp
      ultimately show ?thesis by (simp add: varint_result_def)
    qed
  qed
qed

lemma skip_high_run:
  "sees buf p bs \<Longrightarrow> read_varint bs = Some (w, r) \<Longrightarrow> \<not> c < 128 \<Longrightarrow>
   \<exists>c' q. skip_high n buf c p = (c', q) \<and> (c' < 128 \<longleftrightarrow> length bs \<le> length r + n)
     \<and> (c' < 128 \<longrightarrow> q = p + (length bs - length r))"
proof (induction n arbitrary: c p bs w)
  case 0
  then show ?case using read_varint_shorter [OF 0(2)] by simp
next
  case (Suc n)
  have c: "skip_high (Suc n) buf c p = skip_high n buf (byteAt buf p) (Suc p)" using Suc.prems(3) by (simp add: high_bit)
  from Suc.prems(2) show ?case
  proof (cases rule: read_varint_ConsD)
    case (last b)
    note b = sees_Cons(1) [OF Suc.prems(1) [unfolded last(1)]]
    have "skip_high n buf b (Suc p) = (b, Suc p)" using last(2) by (cases n) (simp_all add: high_bit)
    with b c last show ?thesis by simp
  next
    case (more b bs' w')
    note b = sees_Cons [OF Suc.prems(1) [unfolded more(1)]]
    from Suc.IH [OF b(2) [OF more(2)] more(3,2)] show ?thesis
      using c b(1) more(1) read_varint_shorter [OF more(3)] by auto
  qed
qed

lemma varint32read_exact:
  assumes "sees buf p bs" "read_varint bs = Some (v, r)"
  shows "varint32read buf p =
    (if 10 < length bs - length r then Inl (newError (lit ''invalid varint''))
     else assertBounds (of_int v) buf (p + (length bs - length r)))"
proof -
  have v0: "0 \<le> v" using assms(2) by (rule read_varint_nonneg)
  have ok: "sevens_ok buf 0 4 0 p bs v r" using assms by (intro read_sevens_run) simp_all
  show ?thesis
  proof (cases "length bs \<le> length r + 4")
    case True
    with ok obtain e where e: "read_sevens (shifts 0 4) buf 0 p = (True, e, p + (length bs - length r))"
      "uint e = v" "v < 268435456" by (auto simp: sevens_ok_def)
    then have "e = of_int v" by (auto intro!: u32_eqI simp: v0)
    moreover have "\<not> 10 < length bs - length r" using True by simp
    ultimately show ?thesis using e(1) by (simp add: varint32read_def shifts_eval(1))
  next
    case False
    with ok obtain e where e: "read_sevens (shifts 0 4) buf 0 p = (False, e, p + 4)"
      "uint e = v mod 268435456" "sees buf (p + 4) (drop 4 bs)"
      "read_varint (drop 4 bs) = Some (v div 268435456, r)" by (auto simp: sevens_ok_def)
    have l: "uint e < 268435456" using e(2) by simp
    from e(4) show ?thesis
    proof (cases rule: read_varint_ConsD)
      case (last i)
      note i = sees_Cons(1) [OF e(3) [unfolded last(1)]]
      have n: "length bs - length r = 5" using arg_cong [OF last(1), of length] False by simp
      have s: "v div 268435456 = uint i + 128 * 0" "0 \<le> uint i" "uint i < 128" using last by (simp_all add: word_less_def)
      have "e OR push_bit 28 (ucast i AND 15) = of_int v"
        using fifth_byte(1) [OF l, of i] split_low(1) [OF s] e(2) by (intro u32_eqI) simp
      moreover have "skip_high 5 buf i (Suc (p + 4)) = (i, p + 5)" using last(2) by (simp add: numeral_eq_Suc high_bit)
      ultimately show ?thesis using i n last(2) e(1)
        by (simp add: varint32read_def shifts_eval(1) high_bit Let_def del: push_bit_and shifts.simps)
    next
      case (more i bs' w)
      note i = sees_Cons [OF e(3) [unfolded more(1)]]
      have n: "length bs = length bs' + 5" using arg_cong [OF more(1), of length] False by simp
      have s: "v div 268435456 = (uint i - 128) + 128 * w" "0 \<le> uint i - 128" "uint i - 128 < 128"
        using more uint_lt2p [of i] by (simp_all add: word_less_def)
      have eo: "e OR push_bit 28 (ucast i AND 15) = of_int v"
        using fifth_byte(1) [OF l, of i] split_low(1) [OF s] e(2) by (intro u32_eqI) (simp add: low_groups)
      obtain c q where h: "skip_high 5 buf i (Suc (p + 4)) = (c, q)" "c < 128 \<longleftrightarrow> length bs' \<le> length r + 5"
        "c < 128 \<longrightarrow> q = Suc (p + 4) + (length bs' - length r)"
        using skip_high_run [OF i(2) [OF more(2)] more(3,2), of 5] by blast
      have "varint32read buf p = (if c < 128 then assertBounds (of_int v) buf q
          else Inl (newError (lit ''invalid varint'')))"
        using h(1) i(1) e(1) eo
        by (simp add: varint32read_def shifts_eval(1) high_bit Let_def del: push_bit_and shifts.simps)
      moreover have "10 < length bs - length r \<longleftrightarrow> \<not> c < 128" using n h(2) by auto
      moreover have "q = p + (length bs - length r)" if "c < 128"
        using h(3) that n read_varint_shorter [OF more(3)] by simp
      ultimately show ?thesis by simp
    qed
  qed
qed

end
