(* ===== verification/ReaderDecimal.thy ===== *)
theory ReaderDecimal
  imports ReaderVarint
begin

text \<open>
  64-bit numbers pass through a decimal string on their way to a BigInt. \<open>uInt64ToString\<close> splits the two halves into limbs
  of 24, 24 and 16 bits and carries in base 10 ^ 7; its result is the decimal notation of the number for all 2 ^ 64 of
  them. \<open>int64ToString\<close> is that of the two's complement. So \<open>uint64\<close> and \<open>int64\<close> of the reader are exact.
\<close>

section \<open>Decimal strings\<close>

lemma dec_digits_block:
  "0 < a \<Longrightarrow> 0 \<le> b \<Longrightarrow> b < 10 ^ k \<Longrightarrow> 0 < k \<Longrightarrow>
   dec_digits (a * 10 ^ k + b) = dec_digits a @ replicate (k - length (dec_digits b)) 48 @ dec_digits b"
proof (induction k arbitrary: b)
  case (Suc k)
  let ?n = "a * 10 ^ Suc k + b"
  have n: "?n div 10 = a * 10 ^ k + b div 10" "?n mod 10 = b mod 10"
  proof -
    have "?n = b + 10 * (a * 10 ^ k)" by simp
    then show "?n div 10 = a * 10 ^ k + b div 10" "?n mod 10 = b mod 10"
      by (simp_all only: div_mult_self2 mod_mult_self2)
  qed
  have "(1::int) * 10 \<le> a * 10 ^ Suc k" using Suc.prems(1) by (intro mult_mono) simp_all
  then have big: "\<not> ?n < 10" using Suc.prems(2) by simp
  have d: "dec_digits ?n = dec_digits (a * 10 ^ k + b div 10) @ [of_int (48 + b mod 10)]"
    using big by (simp only: dec_digits.simps [of ?n] n if_False)
  show ?case
  proof (cases "k = 0")
    case True
    with Suc.prems d show ?thesis by (simp add: dec_digits.simps [of b])
  next
    case False
    have "b div 10 < 10 ^ k" using Suc.prems(3) by (simp add: div_less_iff_mult)
    then have IH: "dec_digits (a * 10 ^ k + b div 10)
        = dec_digits a @ replicate (k - length (dec_digits (b div 10))) 48 @ dec_digits (b div 10)"
      using Suc.IH [of "b div 10"] Suc.prems False by (simp add: pos_imp_zdiv_nonneg_iff)
    show ?thesis
    proof (cases "b < 10")
      case True
      then have "b div 10 = 0" "b mod 10 = b" "dec_digits b = [of_int (48 + b)]" using Suc.prems(2)
        by (simp_all add: dec_digits.simps [of b])
      moreover have "replicate (k - Suc 0) (48::unit16) @ [48] = replicate k 48"
        using False by (cases k) (simp_all add: replicate_append_same)
      ultimately show ?thesis using d IH by (simp add: dec_digits.simps [of 0] del: of_int_add)
    next
      case False
      then have "dec_digits b = dec_digits (b div 10) @ [of_int (48 + b mod 10)]" by (subst dec_digits.simps) simp
      then show ?thesis using d IH by (simp del: of_int_add)
    qed
  qed
qed simp

lemma decimalFrom1e7_block:
  assumes "0 < a" "0 \<le> b" "b < 10000000"
  shows "dec_digits (a * 10000000 + b) = dec_digits a @ decimalFrom1e7WithLeadingZeros b"
proof -
  have "numToString (Fin (of_int b)) = dec_digits b" using assms by (intro numToString_small) simp_all
  then show ?thesis using dec_digits_block [of a b 7] assms by (simp add: decimalFrom1e7WithLeadingZeros_def Let_def)
qed

lemma decimal_carries:
  fixes i f c :: int
  assumes "0 \<le> i" "i < 16777216" "0 \<le> f" "f < 16777216" "0 < c" "c < 65536"
  defines "l \<equiv> i + f * 6777216 + c * 6710656"
  defines "P \<equiv> f + c * 8147497 + l div 10000000"
  shows "numToString (Fin (of_int (c * 2 + P div 10000000))) @ decimalFrom1e7WithLeadingZeros (P mod 10000000)
      @ decimalFrom1e7WithLeadingZeros (l mod 10000000)
    = dec_digits (i + 16777216 * f + 281474976710656 * c)"
proof -
  define q where "q = c * 2 + P div 10000000"
  have l: "0 \<le> l" "l < 1000000000000000" using assms(1-6) by (simp_all add: l_def)
  then have "0 \<le> l div 10000000" "l div 10000000 < 100000000" by (simp_all add: pos_imp_zdiv_nonneg_iff div_less_iff_mult)
  then have P: "0 \<le> P" "P < 1000000000000" using assms(3-6) by (simp_all add: P_def)
  then have "0 \<le> P div 10000000" "P div 10000000 < 100000" by (simp_all add: pos_imp_zdiv_nonneg_iff div_less_iff_mult)
  then have q: "0 < q" "q < 2 ^ 53" using assms(5,6) by (simp_all add: q_def)
  have "i + 16777216 * f + 281474976710656 * c = (c * 2 * 10000000 + (f + c * 8147497)) * 10000000 + l"
    by (simp add: l_def)
  also have "\<dots> = (c * 2 * 10000000 + P) * 10000000 + l mod 10000000"
    using mult_div_mod_eq [of 10000000 l] by (simp add: P_def)
  also have "\<dots> = (q * 10000000 + P mod 10000000) * 10000000 + l mod 10000000"
    using mult_div_mod_eq [of 10000000 P] by (simp add: q_def)
  finally have v: "i + 16777216 * f + 281474976710656 * c = (q * 10000000 + P mod 10000000) * 10000000 + l mod 10000000" .
  have "0 < q * 10000000 + P mod 10000000" using q(1) pos_mod_sign [of 10000000 P] by linarith
  then have "dec_digits ((q * 10000000 + P mod 10000000) * 10000000 + l mod 10000000)
      = (dec_digits q @ decimalFrom1e7WithLeadingZeros (P mod 10000000)) @ decimalFrom1e7WithLeadingZeros (l mod 10000000)"
    using q(1) by (simp only: decimalFrom1e7_block pos_mod_sign pos_mod_bound)
  moreover have "numToString (Fin (of_int q)) = dec_digits q" using q by (intro numToString_small) simp_all
  ultimately show ?thesis unfolding v q_def [symmetric] by (simp only: append_assoc)
qed

lemma carry_if:
  "0 \<le> l \<Longrightarrow> (if 10000000 \<le> l then (P + l div 10000000, l mod 10000000) else (P, l)) = (P + l div 10000000, l mod 10000000)"
  for l P :: int
  by simp

lemma limbs_value:
  "16777216 * a + i = e \<Longrightarrow> 65536 * c + m = t \<Longrightarrow> e + 4294967296 * t = i + 16777216 * (a + 256 * m) + 281474976710656 * c"
  for e t :: int
  by auto

lemma limbs_24:
  fixes e t :: u32
  shows "uint (e AND 16777215) = uint e mod 16777216"
    and "uint ((drop_bit 24 e OR push_bit 8 t) AND 16777215) = uint e div 16777216 + 256 * (uint t mod 65536)"
    and "uint (drop_bit 16 t AND 65535) = uint t div 65536"
proof -
  have e: "0 \<le> uint e" "uint e < 4294967296" and t: "0 \<le> uint t" "uint t < 4294967296"
    using uint_lt2p [of e] uint_lt2p [of t] by simp_all
  show "uint (e AND 16777215) = uint e mod 16777216"
    using int_and_bits [of "uint e" 24] by (simp add: uint_and)
  have "uint t div 65536 < 65536" "0 \<le> uint t div 65536" using t by (simp_all add: div_less_iff_mult pos_imp_zdiv_nonneg_iff)
  then show "uint (drop_bit 16 t AND 65535) = uint t div 65536"
    using int_and_bits [of "uint t div 65536" 16]
    by (simp add: uint_and uint_drop_bit_div mod_pos_pos_trivial del: drop_bit_eq_div)
  have d: "uint (drop_bit 24 e) = uint e div 16777216" by (simp add: uint_drop_bit_div del: drop_bit_eq_div)
  have b: "0 \<le> uint e div 16777216" "uint e div 16777216 < 256" using e by (simp_all add: div_less_iff_mult pos_imp_zdiv_nonneg_iff)
  have p: "uint (push_bit 8 t) = uint t mod 16777216 * 256"
    using mod_mult_mult2 [of "uint t" 256 16777216] by (simp add: uint_push)
  have "uint (drop_bit 24 e OR push_bit 8 t) = uint e div 16777216 + uint t mod 16777216 * 256"
    using uint_or_shift [of "drop_bit 24 e" 8 "push_bit 8 t" "uint t mod 16777216"] b d p by simp
  then have "uint ((drop_bit 24 e OR push_bit 8 t) AND 16777215) = (uint e div 16777216 + uint t mod 16777216 * 256) mod 16777216"
    using int_and_bits [of "uint e div 16777216 + uint t mod 16777216 * 256" 24] by (simp add: uint_and)
  also have "\<dots> = uint e div 16777216 + 256 * (uint t mod 65536)"
  proof -
    have "uint t mod 16777216 * 256 = 256 * (uint t mod 65536) + 16777216 * (uint t div 65536 mod 256)"
      using zmod_zmult2_eq [of 256 "uint t" 65536] by simp
    then have "uint e div 16777216 + uint t mod 16777216 * 256
        = (uint e div 16777216 + 256 * (uint t mod 65536)) + 16777216 * (uint t div 65536 mod 256)" by simp
    then have "(uint e div 16777216 + uint t mod 16777216 * 256) mod 16777216
        = (uint e div 16777216 + 256 * (uint t mod 65536)) mod 16777216" by (simp only: mod_mult_self2)
    moreover have "uint t mod 65536 < 65536" "0 \<le> uint t mod 65536" by simp_all
    ultimately show ?thesis using b by (simp add: mod_pos_pos_trivial)
  qed
  finally show "uint ((drop_bit 24 e OR push_bit 8 t) AND 16777215) = uint e div 16777216 + 256 * (uint t mod 65536)" .
qed

lemma uInt64ToString_digits: "uInt64ToString e t = dec_digits (uint e + 4294967296 * uint t)"
proof (cases "t \<le> 2097151")
  case True
  then have "uint t \<le> 2097151" by (simp add: word_le_def)
  moreover have "uint e < 4294967296" using uint_lt2p [of e] by simp
  ultimately have "4294967296 * uint t + uint e < 2 ^ 53" by simp
  then show ?thesis using True numToString_small [of "4294967296 * uint t + uint e"]
    by (simp add: uInt64ToString_def add.commute)
next
  case False
  then have big: "2097151 < uint t" by (simp add: word_le_def)
  let ?i = "uint e mod 16777216" and ?f = "uint e div 16777216 + 256 * (uint t mod 65536)" and ?c = "uint t div 65536"
  have e: "0 \<le> uint e div 16777216" "uint e div 16777216 < 256"
    using uint_lt2p [of e] by (simp_all add: div_less_iff_mult pos_imp_zdiv_nonneg_iff)
  have c: "0 < ?c" "?c < 65536" using big uint_lt2p [of t] by (simp_all add: div_less_iff_mult pos_imp_zdiv_pos_iff)
  have f: "0 \<le> ?f" "?f < 16777216" using e pos_mod_bound [of 65536 "uint t"] pos_mod_sign [of 65536 "uint t"] by linarith+
  have s: "uint e + 4294967296 * uint t = ?i + 16777216 * ?f + 281474976710656 * ?c"
    by (rule limbs_value) simp_all
  have l: "0 \<le> ?i + ?f * 6777216 + ?c * 6710656" using f c by (simp add: mult_nonneg_nonneg add_nonneg_nonneg)
  then have p: "0 \<le> ?f + ?c * 8147497 + (?i + ?f * 6777216 + ?c * 6710656) div 10000000"
    using f c by (simp add: pos_imp_zdiv_nonneg_iff)
  have "uInt64ToString e t = numToString (Fin (of_int (?c * 2 + (?f + ?c * 8147497 + (?i + ?f * 6777216 + ?c * 6710656) div 10000000) div 10000000)))
      @ decimalFrom1e7WithLeadingZeros ((?f + ?c * 8147497 + (?i + ?f * 6777216 + ?c * 6710656) div 10000000) mod 10000000)
      @ decimalFrom1e7WithLeadingZeros ((?i + ?f * 6777216 + ?c * 6710656) mod 10000000)"
    using False by (simp only: uInt64ToString_def Let_def limbs_24(2,3) if_False)
      (simp only: limbs_24(1) carry_if [OF l] carry_if [OF p] prod.case)
  also have "\<dots> = dec_digits (uint e + 4294967296 * uint t)" unfolding s by (rule decimal_carries [OF _ _ f c]) simp_all
  finally show ?thesis .
qed

text \<open>The 64-bit number of two halves, and its two's complement.\<close>

definition signed64 :: "int \<Rightarrow> int" where
  "signed64 v = (if v < 9223372036854775808 then v else v - 18446744073709551616)"

lemma to_int32_uint: "to_int32 (uint e) = sint e" for e :: u32
  by (simp add: to_int32_def)

lemma uint_neg32: "e \<noteq> 0 \<Longrightarrow> uint (- e) = 4294967296 - uint e" for e :: u32
  using uint_lt2p [of e] by (simp add: uint_word_ariths zmod_zminus1_eq_if mod_pos_pos_trivial uint_0_iff)

lemma sign_halves:
  "0 \<le> e \<Longrightarrow> e < 4294967296 \<Longrightarrow> 0 \<le> t \<Longrightarrow> t < 4294967296 \<Longrightarrow>
   (if t < 2147483648 then t else t - 4294967296) < 0 \<longleftrightarrow> 9223372036854775808 \<le> e + 4294967296 * t" for e t :: int
  by auto

lemma int64ToString_signed: "int64ToString e t = bigint_string (signed64 (uint e + 4294967296 * uint t))"
proof -
  have e: "0 \<le> uint e" "uint e < 4294967296" and t: "0 \<le> uint t" "uint t < 4294967296"
    using uint_lt2p [of e] uint_lt2p [of t] by simp_all
  have st: "sint t = (if uint t < 2147483648 then uint t else uint t - 4294967296)"
    using to_int32_eq [of "uint t"] t by (simp add: to_int32_uint)
  have neg: "half_hi (newBits (uint e) (uint t)) < 0 \<longleftrightarrow> 9223372036854775808 \<le> uint e + 4294967296 * uint t"
    unfolding newBits_def halves.simps to_int32_uint st using e t by (intro sign_halves)
  show ?thesis
  proof (cases "half_hi (newBits (uint e) (uint t)) < 0")
    case False
    then have "int64ToString e t = uInt64ToString e t" by (simp add: int64ToString_def Let_def newBits_def)
    moreover have "\<not> uint e + 4294967296 * uint t < 0" using e t by linarith
    ultimately show ?thesis using False neg by (simp add: uInt64ToString_digits signed64_def bigint_string_def)
  next
    case True
    have t0: "t \<noteq> 0" using True by (auto simp: newBits_def to_int32_def)
    have "int64ToString e t = 45 # uInt64ToString (if e = 0 then 0 else - e) (if e = 0 then - t else - t - 1)"
      using True by (simp add: int64ToString_def Let_def newBits_def negate_def to_int32_uint signed_eq_0_iff)
    moreover have "uint (- t - 1) = 4294967295 - uint t"
      using uint_neg32 [OF t0] t by (simp add: uint_word_ariths mod_pos_pos_trivial)
    then have "uint (if e = 0 then 0 else - e) + 4294967296 * uint (if e = 0 then - t else - t - 1)
        = 18446744073709551616 - (uint e + 4294967296 * uint t)"
      using uint_neg32 [of e] uint_neg32 [OF t0] by (cases "e = 0") simp_all
    ultimately have "int64ToString e t = 45 # dec_digits (18446744073709551616 - (uint e + 4294967296 * uint t))"
      by (simp only: uInt64ToString_digits)
    moreover have "uint e + 4294967296 * uint t < 18446744073709551616" using e t by linarith
    ultimately show ?thesis using True neg by (simp add: signed64_def bigint_string_def)
  qed
qed

lemma bigint_value_string: "bigint_value (bigint_string v) = v"
proof (cases "v < 0")
  case True
  then show ?thesis using dec_digits_spec [of "- v"] by (simp add: bigint_value_def bigint_string_def)
next
  case False
  then have d: "dec_digits v \<noteq> []" "list_all is_digit (dec_digits v)" "dec_val (dec_digits v) = v" using dec_digits_spec [of v] by simp_all
  then have "is_digit (hd (dec_digits v))" by (cases "dec_digits v") auto
  then have "hd (dec_digits v) \<noteq> 45" by (auto simp: is_digit_def)
  with d False show ?thesis by (simp add: bigint_value_def bigint_string_def)
qed

lemma bigint_value_digits: "0 \<le> v \<Longrightarrow> bigint_value (dec_digits v) = v"
  using bigint_value_string [of v] by (simp add: bigint_string_def)

lemma halves_mod: "uint (of_int v :: u32) + 4294967296 * uint (of_int (v div 4294967296) :: u32) = v mod 18446744073709551616"
  using zmod_zmult2_eq [of 4294967296 v 4294967296] by (simp add: uint_word_of_int)

lemma r_uint64_exact:
  assumes "sees buf p bs" "read_varint bs = Some (v, r)"
  shows "r_uint64 buf p =
    (if 10 < length bs - length r then Inl (newError (lit ''invalid varint''))
     else assertBounds (v mod 18446744073709551616) buf (p + (length bs - length r)))"
proof -
  have "bigint_value (uInt64ToString (of_int v) (of_int (v div 4294967296))) = v mod 18446744073709551616"
    by (simp add: uInt64ToString_digits halves_mod bigint_value_digits)
  then show ?thesis
    by (simp add: r_uint64_def mapRead_def andRead_def varint64read_exact [OF assms] varint_result_def assertBounds_def retRead_def)
qed

lemma r_int64_exact:
  assumes "sees buf p bs" "read_varint bs = Some (v, r)"
  shows "r_int64 buf p =
    (if 10 < length bs - length r then Inl (newError (lit ''invalid varint''))
     else assertBounds (signed64 (v mod 18446744073709551616)) buf (p + (length bs - length r)))"
  by (simp add: r_int64_def mapRead_def andRead_def varint64read_exact [OF assms] varint_result_def assertBounds_def retRead_def
      int64ToString_signed halves_mod bigint_value_string)

end
