(* ===== verification/ReaderText.thy ===== *)
theory ReaderText
  imports ReaderDecimal
begin

text \<open>
  \<open>utf8Read\<close> inverts \<open>utf8_write\<close> on every string shorter than a chunk, and on longer ones without surrogate pairs. A pair
  that straddles the end of a chunk leaves a unit behind that a later chunk repeats (\<open>utf8Read_stale\<close>).
\<close>

section \<open>One character\<close>

lemma byteAt_drop: "drop t e = bs @ r \<Longrightarrow> k < length bs \<Longrightarrow> byteAt e (t + k) = bs ! k"
proof -
  assume d: "drop t e = bs @ r" and k: "k < length bs"
  have "length e - t = length bs + length r" using arg_cong [OF d, of length] by simp
  with k have "t + k < length e" by linarith
  moreover have "e ! (t + k) = drop t e ! k" using calculation by (simp add: nth_drop)
  ultimately show ?thesis using d k by (simp add: byteAt_def nth_append)
qed

lemma six_bits: "0 \<le> y \<Longrightarrow> y < 64 \<Longrightarrow> (y + 128) AND 63 = y" for y :: int
  using mod_mult_self2 [of y 64 2] by (simp add: int_and_mask)

lemma low_bits:
  "0 \<le> x \<Longrightarrow> x < 32 \<Longrightarrow> (x + 192) AND 31 = x" "0 \<le> x \<Longrightarrow> x < 16 \<Longrightarrow> (x + 224) AND 15 = x"
  "0 \<le> x \<Longrightarrow> x < 8 \<Longrightarrow> (x + 240) AND 7 = x" for x :: int
  using int_and_bits [of "x + 192" 5] int_and_bits [of "x + 224" 4] int_and_bits [of "x + 240" 3]
    mod_mult_self2 [of x 32 6] mod_mult_self2 [of x 16 14] mod_mult_self2 [of x 8 30] by simp_all

lemma shift_or: "0 \<le> y \<Longrightarrow> y < 2 ^ k \<Longrightarrow> push_bit k x OR y = x * 2 ^ k + y" for x y :: int
  using int_or_shift [of y k x] by (simp add: push_bit_eq_mult or.commute add.commute)

lemma utf8_char_one: "drop t e = a # r \<Longrightarrow> a < 128 \<Longrightarrow> utf8_char e t = ([uint a], t + 1)"
  using byteAt_drop [of t e "[a]" r 0] by (simp add: utf8_char_def Let_def word_less_def)

lemma utf8_char_two:
  assumes "drop t e = [a, b] @ r" "uint a = x + 192" "uint b = y + 128" "0 \<le> x" "x < 32" "0 \<le> y" "y < 64"
  shows "utf8_char e t = ([x * 64 + y], t + 2)"
proof -
  have "uint (byteAt e t) = x + 192" "uint (byteAt e (t + 1)) = y + 128"
    using byteAt_drop [OF assms(1), of 0] byteAt_drop [OF assms(1), of 1] assms(2,3) by simp_all
  with assms(4-7) shift_or [of y 6 x] show ?thesis by (simp add: utf8_char_def Let_def low_bits six_bits)
qed

lemma utf8_char_three:
  assumes "drop t e = [a, b, d] @ r" "uint a = x + 224" "uint b = y + 128" "uint d = z + 128"
    and "0 \<le> x" "x < 16" "0 \<le> y" "y < 64" "0 \<le> z" "z < 64"
  shows "utf8_char e t = ([x * 4096 + y * 64 + z], t + 3)"
proof -
  have b: "uint (byteAt e t) = x + 224" "uint (byteAt e (t + 1)) = y + 128" "uint (byteAt e (t + 2)) = z + 128"
    using byteAt_drop [OF assms(1), of 0] byteAt_drop [OF assms(1), of 1] byteAt_drop [OF assms(1), of 2] assms(2-4)
    by simp_all
  have "push_bit 6 y OR z = y * 64 + z" using shift_or [of z 6 y] assms(9,10) by simp
  moreover have "push_bit 12 x OR (y * 64 + z) = x * 4096 + y * 64 + z"
    using shift_or [of "y * 64 + z" 12 x] assms(7-10) by simp
  ultimately have "push_bit 12 x OR push_bit 6 y OR z = x * 4096 + y * 64 + z" by (simp only: or.assoc)
  with b assms(5-10) show ?thesis by (simp add: utf8_char_def Let_def low_bits six_bits)
qed

lemma utf8_char_four:
  assumes "drop t e = [a, b, c, d] @ r" "uint a = x + 240" "uint b = y + 128" "uint c = z + 128" "uint d = w + 128"
    and "0 \<le> x" "x < 8" "0 \<le> y" "y < 64" "0 \<le> z" "z < 64" "0 \<le> w" "w < 64"
    and "x * 262144 + y * 4096 + z * 64 + w = 65536 + p * 1024 + q" "0 \<le> q" "q < 1024"
  shows "utf8_char e t = ([55296 + p, 56320 + q], t + 4)"
proof -
  have b: "uint (byteAt e t) = x + 240" "uint (byteAt e (t + 1)) = y + 128" "uint (byteAt e (t + 2)) = z + 128"
    "uint (byteAt e (t + 3)) = w + 128"
    using byteAt_drop [OF assms(1), of 0] byteAt_drop [OF assms(1), of 1] byteAt_drop [OF assms(1), of 2]
      byteAt_drop [OF assms(1), of 3] assms(2-5) by simp_all
  have "push_bit 6 z OR w = z * 64 + w" using shift_or [of w 6 z] assms(12,13) by simp
  moreover have "push_bit 12 y OR (z * 64 + w) = y * 4096 + z * 64 + w"
    using shift_or [of "z * 64 + w" 12 y] assms(10-13) by simp
  moreover have "push_bit 18 x OR (y * 4096 + z * 64 + w) = x * 262144 + y * 4096 + z * 64 + w"
    using shift_or [of "y * 4096 + z * 64 + w" 18 x] assms(8-13) by simp
  ultimately have v: "push_bit 18 x OR push_bit 12 y OR push_bit 6 z OR w = x * 262144 + y * 4096 + z * 64 + w"
    by (simp only: or.assoc)
  have "(q + 1024 * p) div 1024 = p" "(q + 1024 * p) mod 1024 = q" using assms(15,16) by simp_all
  then have "drop_bit 10 (p * 1024 + q) = p" "(p * 1024 + q) AND 1023 = q"
    by (simp_all add: drop_bit_eq_div int_and_mask add.commute mult.commute)
  with b assms(6-16) v show ?thesis by (simp add: utf8_char_def Let_def low_bits six_bits)
qed

text \<open>What the reader makes of the first character of an encoded string.\<close>

lemma utf8_char_unit:
  assumes "drop t e = utf8_write (c # cs)" "\<not> (\<exists>d ds. \<not> c < 2048 \<and> cs = d # ds \<and> is_high_surrogate c \<and> is_low_surrogate d)"
  obtains t' where "utf8_char e t = ([uint c], t')" "drop t' e = utf8_write cs"
proof -
  consider (one) "c < 128" | (two) "\<not> c < 128" "c < 2048" | (three) "\<not> c < 2048" by blast
  then show thesis
  proof cases
    case one
    then have "uint (ucast c :: byte) = uint c" by (simp add: uint_byte word_less_def)
    moreover from this one have "(ucast c :: byte) < 128" by (simp add: word_less_def)
    moreover have d: "drop t e = ucast c # utf8_write cs" using assms(1) one by simp
    moreover have "drop (t + 1) e = drop 1 (drop t e)" by (simp add: add.commute)
    ultimately show thesis using utf8_char_one [OF d] that [of "t + 1"] by simp
  next
    case two
    from utf8_two_bytes [OF two] obtain a b where ab: "utf8_two c = [a, b]" "uint a = uint c div 64 + 192"
      "uint b = uint c mod 64 + 128" "0 \<le> uint c div 64" "uint c div 64 < 32" by blast
    have d: "drop t e = [a, b] @ utf8_write cs" using assms(1) two ab(1) by simp
    have "utf8_char e t = ([uint c], t + 2)" using utf8_char_two [OF d ab(2,3,4,5)] by simp
    moreover have "drop (t + 2) e = drop 2 (drop t e)" by (simp add: add.commute)
    ultimately show thesis using that d by simp
  next
    case three
    from utf8_three_bytes [OF three] obtain a b d where ab: "utf8_three c = [a, b, d]" "uint a = uint c div 4096 + 224"
      "uint b = uint c div 64 mod 64 + 128" "uint d = uint c mod 64 + 128" "0 \<le> uint c div 4096" "uint c div 4096 < 16" by blast
    have "\<not> c < 128" using three by (auto simp: word_less_def)
    then have d: "drop t e = [a, b, d] @ utf8_write cs" using assms three ab(1) by (cases cs) auto
    have "utf8_char e t = ([uint c], t + 3)" using utf8_char_three [OF d ab(2,3,4,5,6)] by (simp add: base64)
    moreover have "drop (t + 3) e = drop 3 (drop t e)" by (simp add: add.commute)
    ultimately show thesis using that d by simp
  qed
qed

lemma utf8_char_pair:
  assumes "drop t e = utf8_write (c # d # ds)" "\<not> c < 2048" "is_high_surrogate c" "is_low_surrogate d"
  shows "utf8_char e t = ([uint c, uint d], t + 4)" "drop (t + 4) e = utf8_write ds"
proof -
  from utf8_four_bytes [OF assms(3,4)] obtain a1 a2 a3 a4 and n p q :: int where f: "utf8_four c d = [a1, a2, a3, a4]"
    "uint a1 = n div 262144 + 240" "uint a2 = n div 4096 mod 64 + 128" "uint a3 = n div 64 mod 64 + 128"
    "uint a4 = n mod 64 + 128" "n = 65536 + p * 1024 + q" "0 \<le> p" "p < 1024" "0 \<le> q" "q < 1024"
    "uint c = 55296 + p" "uint d = 56320 + q" by blast
  have "\<not> c < 128" using assms(2) by (auto simp: word_less_def)
  then have dr: "drop t e = [a1, a2, a3, a4] @ utf8_write ds" using assms f(1) by simp
  have n: "0 \<le> n div 262144" "n div 262144 < 8" using f(6-10) by (simp_all add: div_less_iff_mult pos_imp_zdiv_nonneg_iff)
  have "n div 262144 * 262144 + n div 4096 mod 64 * 4096 + n div 64 mod 64 * 64 + n mod 64 = 65536 + p * 1024 + q"
    using four_groups [of n] f(6) by simp
  then show "utf8_char e t = ([uint c, uint d], t + 4)"
    using utf8_char_four [OF dr f(2-5) n _ _ _ _ _ _ _ f(9,10)] f(11,12) by simp
  have "drop (t + 4) e = drop 4 (drop t e)" by (simp add: add.commute)
  with dr show "drop (t + 4) e = utf8_write ds" by simp
qed

section \<open>The chunks\<close>

definition plain :: "jstring \<Rightarrow> bool" where
  "plain s \<longleftrightarrow> list_all (\<lambda>c. \<not> is_high_surrogate c) s"

text \<open>The chunk buffer holds \<open>P\<close> units; either it is fresh and the string fits, or every chunk is full.\<close>

definition chunk_ok :: "int list \<Rightarrow> nat \<Rightarrow> jstring \<Rightarrow> bool" where
  "chunk_ok c P s \<longleftrightarrow> (P = length c \<and> P + length s < 8192) \<or> (P < 8192 \<and> (length c = P \<or> length c = 8192) \<and> plain s)"

lemma fromCharCode_append: "fromCharCode (a @ b) = fromCharCode a @ fromCharCode b"
  by (simp add: fromCharCode_def)

lemma fromCharCode_uint [simp]: "fromCharCode [] = []" "fromCharCode (uint u # us) = u # fromCharCode us"
  by (simp_all add: fromCharCode_def)

lemma put_take:
  assumes "P \<le> length c" "put_unit v (c, P) = (c', P')"
  shows "P' = Suc P" "take (Suc P) c' = take P c @ [v]" "length c' = max (length c) (Suc P)"
  using assms by (auto simp: put_unit_def take_Suc_conv_app_nth split: if_splits)

lemma utf8_write_Cons_not_Nil: "utf8_write (u # us) \<noteq> []"
  by (auto simp: utf8_two_def utf8_three_def utf8_four_def Let_def split: list.split)

text \<open>One round of the loop.\<close>

lemma utf8Read_step:
  assumes "drop t e = utf8_write (u # us)" "utf8_char e t = (vs, t')" "fold put_unit vs (c, P) = (c', P')"
  shows "utf8Read_loop e t (c, P) l =
    (if 8191 < P' then utf8Read_loop e t' (c', 0) (l @ [fromCharCode c']) else utf8Read_loop e t' (c', P') l)"
proof -
  have "t < length e" using assms(1) utf8_write_Cons_not_Nil [of u us] by (cases "length e \<le> t") auto
  with assms(2,3) show ?thesis by (simp add: utf8Read_loop.simps [of e t])
qed

lemma utf8Read_loop_exact:
  "drop t e = utf8_write s \<Longrightarrow> chunk_ok c P s \<Longrightarrow> utf8Read_loop e t (c, P) l = concat l @ fromCharCode (take P c) @ s"
proof (induction s arbitrary: t c P l rule: length_induct)
  case (1 s)
  show ?case
  proof (cases s)
    case Nil
    with 1(2) show ?thesis by (simp add: utf8Read_loop.simps [of e t])
  next
    case (Cons u us)
    have P: "P \<le> length c" "P < 8192" using 1(3) by (auto simp: chunk_ok_def)
    show ?thesis
    proof (cases "\<exists>d ds. \<not> u < 2048 \<and> us = d # ds \<and> is_high_surrogate u \<and> is_low_surrogate d")
      case True
      then obtain d ds where d: "\<not> u < 2048" "us = d # ds" "is_high_surrogate u" "is_low_surrogate d" by blast
      have fresh: "P = length c" "P + length s < 8192" using 1(3) d Cons by (auto simp: chunk_ok_def plain_def)
      note ch = utf8_char_pair [OF 1(2) [unfolded Cons d(2)] d(1,3,4)]
      have f: "fold put_unit [uint u, uint d] (c, P) = (c @ [uint u, uint d], Suc (Suc P))"
        using fresh(1) by (simp add: put_unit_def)
      have IH: "utf8Read_loop e (t + 4) (c @ [uint u, uint d], Suc (Suc P)) l
          = concat l @ fromCharCode (take (Suc (Suc P)) (c @ [uint u, uint d])) @ ds"
        by (rule 1(1) [rule_format]) (use ch(2) fresh Cons d(2) in \<open>simp_all add: chunk_ok_def\<close>)
      show ?thesis using utf8Read_step [OF 1(2) [unfolded Cons] ch(1) f, of l] IH fresh Cons d(2)
        by (simp add: fromCharCode_append)
    next
      case False
      from utf8_char_unit [OF 1(2) [unfolded Cons] False] obtain t' where
        ch: "utf8_char e t = ([uint u], t')" "drop t' e = utf8_write us" .
      obtain c' P' where f: "fold put_unit [uint u] (c, P) = (c', P')" by fastforce
      then have p: "P' = Suc P" "take (Suc P) c' = take P c @ [uint u]" "length c' = max (length c) (Suc P)"
        using put_take [OF P(1), of "uint u" c' P'] by simp_all
      note step = utf8Read_step [OF 1(2) [unfolded Cons] ch(1) f, of l]
      have IH: "utf8Read_loop e t' (c', Q) k = concat k @ fromCharCode (take Q c') @ us" if "chunk_ok c' Q us" for Q k
        using 1(1) ch(2) that Cons by simp
      show ?thesis
      proof (cases "8191 < P'")
        case True
        with p P have full: "P' = 8192" by simp
        with 1(3) p P have "length c' = 8192" "plain us" using Cons by (auto simp: chunk_ok_def plain_def)
        with full p show ?thesis using step IH [of 0] Cons by (simp add: chunk_ok_def fromCharCode_append)
      next
        case False
        have "chunk_ok c' P' us" using 1(3) p P False Cons by (auto simp: chunk_ok_def plain_def)
        with False p show ?thesis using step IH [of P'] Cons by (simp add: fromCharCode_append)
      qed
    qed
  qed
qed

lemma utf8Read_eq: "utf8Read e = utf8Read_loop e 0 ([], 0) []"
  by (simp add: utf8Read_def utf8Read_loop.simps [of "[]"])

lemma utf8Read_write: "length s < 8192 \<or> plain s \<Longrightarrow> utf8Read (utf8_write s) = s"
  using utf8Read_loop_exact [of 0 "utf8_write s" s "[]" 0 "[]"] by (simp add: utf8Read_eq chunk_ok_def)

section \<open>A unit left behind\<close>

lemma put_unit_eq: "P \<le> length c \<Longrightarrow> put_unit v (c, P) = (take P c @ [v] @ drop (Suc P) c, Suc P)"
  by (auto simp: put_unit_def upd_conv_take_nth_drop)

lemma ascii_run:
  assumes "u < 128"
  shows "drop t e = utf8_write (replicate n u @ r) \<Longrightarrow> P \<le> length c \<Longrightarrow> P + n < 8192 \<Longrightarrow>
    \<exists>t'. drop t' e = utf8_write r \<and>
      utf8Read_loop e t (c, P) l = utf8Read_loop e t' (take P c @ replicate n (uint u) @ drop (P + n) c, P + n) l"
proof (induction n arbitrary: t c P)
  case 0
  then show ?case by auto
next
  case (Suc n)
  have w: "drop t e = utf8_write (u # replicate n u @ r)" using Suc.prems(1) by simp
  have "\<not> \<not> u < 2048" using assms by (simp add: word_less_def)
  with utf8_char_unit [OF w] obtain t' where ch: "utf8_char e t = ([uint u], t')" "drop t' e = utf8_write (replicate n u @ r)"
    by blast
  let ?c = "take P c @ [uint u] @ drop (Suc P) c"
  have f: "fold put_unit [uint u] (c, P) = (?c, Suc P)" using Suc.prems(2) by (simp add: put_unit_eq)
  have "utf8Read_loop e t (c, P) l = utf8Read_loop e t' (?c, Suc P) l"
    using utf8Read_step [OF w ch(1) f] Suc.prems(3) by simp
  moreover from Suc.IH [OF ch(2), of "Suc P" ?c] Suc.prems obtain t'' where "drop t'' e = utf8_write r"
    "utf8Read_loop e t' (?c, Suc P) l
      = utf8Read_loop e t'' (take (Suc P) ?c @ replicate n (uint u) @ drop (Suc P + n) ?c, Suc P + n) l" by auto
  moreover have "take (Suc P) ?c = take P c @ [uint u]" "drop (Suc P + n) ?c = drop (P + Suc n) c"
    using Suc.prems(2) by (simp_all add: min_absorb2 add.commute)
  ultimately show ?case by auto
qed

text \<open>8191 ASCII units, a pair, and 8192 more: the low surrogate comes out a second time at the end.\<close>

lemma utf8Read_stale:
  assumes "u < 128" "is_high_surrogate h" "is_low_surrogate d" "\<not> h < 2048"
  defines "s \<equiv> replicate 8191 u @ h # d # replicate 8192 u"
  shows "utf8Read (utf8_write s) = s @ [d]"
proof -
  let ?e = "utf8_write s"
  have e0: "drop 0 ?e = utf8_write (replicate 8191 u @ h # d # replicate 8191 u @ [u])"
    by (simp add: s_def replicate_append_same flip: replicate_Suc)
  obtain t1 where t1: "drop t1 ?e = utf8_write (h # d # replicate 8191 u @ [u])"
    "utf8Read_loop ?e 0 ([], 0) [] = utf8Read_loop ?e t1 (replicate 8191 (uint u), 8191) []"
    using ascii_run [OF assms(1) e0, of 0 "[]" "[]"] by auto
  note pair = utf8_char_pair [OF t1(1) assms(4,2,3)]
  let ?c = "replicate 8191 (uint u) @ [uint h, uint d]"
  have "fold put_unit [uint h, uint d] (replicate 8191 (uint u), 8191) = (?c, 8193)" by (simp add: put_unit_def)
  note t2 = utf8Read_step [OF t1(1) pair(1) this, of "[]"]
  obtain t3 where t3: "drop t3 ?e = utf8_write [u]"
    "utf8Read_loop ?e (t1 + 4) (?c, 0) [fromCharCode ?c]
      = utf8Read_loop ?e t3 (replicate 8191 (uint u) @ [uint h, uint d], 8191) [fromCharCode ?c]"
    using ascii_run [OF assms(1) pair(2), of 0 ?c "[fromCharCode ?c]"] by auto
  have "\<not> \<not> u < 2048" using assms(1) by (simp add: word_less_def)
  with utf8_char_unit [OF t3(1)] obtain t4 where t4: "utf8_char ?e t3 = ([uint u], t4)" "drop t4 ?e = utf8_write []" by blast
  let ?c' = "replicate 8191 (uint u) @ [uint u, uint d]"
  have "fold put_unit [uint u] (?c, 8191) = (?c', 8192)" by (simp add: put_unit_eq)
  note t5 = utf8Read_step [OF t3(1) t4(1) this, of "[fromCharCode ?c]"]
  have "utf8Read_loop ?e t4 (?c', 0) [fromCharCode ?c, fromCharCode ?c'] = fromCharCode ?c @ fromCharCode ?c'"
    using t4(2) by (simp add: utf8Read_loop.simps [of ?e t4])
  then have "utf8Read ?e = fromCharCode ?c @ fromCharCode ?c'"
    using t1(2) t2 t3(2) t5 by (simp add: utf8Read_eq)
  also have "\<dots> = s @ [d]" by (simp add: s_def fromCharCode_def replicate_append_same flip: replicate_Suc)
  finally show ?thesis .
qed

end
