(* ===== verification/ReaderCodec.thy ===== *)
theory ReaderCodec
  imports ReaderText
begin

text \<open>
  What the decoders of the bundle make of well-formed messages.

  \<open>wire_bytes\<close> is the canonical encoding of a list of fields, the one the chain produces. \<open>reads m bs x\<close> says that a reader
  standing before \<open>bs\<close> returns \<open>x\<close> and stands behind them, whatever the rest of the buffer holds; \<open>steps\<close> says the same of
  the loop of a \<open>decode\<close> within a message. Both compose, and \<open>wire_decoder\<close> is the contract of a codec.
\<close>

section \<open>Canonical bytes\<close>

fun wire_payload :: "wire \<Rightarrow> byte list" where
  "wire_payload (WVarint v) = varint v"
| "wire_payload (WBytes b) = varint (int (length b)) @ b"

fun wire_key :: "int \<times> wire \<Rightarrow> int" where
  "wire_key (n, WVarint v) = n * 8"
| "wire_key (n, WBytes b) = n * 8 + 2"

definition field_bytes :: "int \<times> wire \<Rightarrow> byte list" where
  "field_bytes x = varint (wire_key x) @ wire_payload (snd x)"

definition wire_bytes :: "(int \<times> wire) list \<Rightarrow> byte list" where
  "wire_bytes fs = concat (map field_bytes fs)"

lemma wire_bytes_simps [simp]:
  "wire_bytes [] = []" "wire_bytes (x # fs) = field_bytes x @ wire_bytes fs" "wire_bytes (fs @ gs) = wire_bytes fs @ wire_bytes gs"
  by (simp_all add: wire_bytes_def)

text \<open>A field number of protobuf and a value that fits its type.\<close>

fun wire_ok :: "int \<times> wire \<Rightarrow> bool" where
  "wire_ok (n, WVarint v) \<longleftrightarrow> 0 < n \<and> n < 536870912 \<and> 0 \<le> v \<and> v < 18446744073709551616"
| "wire_ok (n, WBytes b) \<longleftrightarrow> 0 < n \<and> n < 536870912 \<and> small b"

lemma parse_wire_bytes: "list_all wire_ok fs \<Longrightarrow> parse_fields (wire_bytes fs) = Some fs"
proof -
  assume "list_all wire_ok fs"
  then have "parses (wire_bytes fs) fs"
  proof (induction fs)
    case (Cons x fs)
    have "parses (field_bytes x) [x]" using Cons.prems
      by (cases x rule: wire_ok.cases) (auto simp: field_bytes_def parses_varint parses_bytes)
    from parses_append [OF this, of "wire_bytes fs" fs] Cons show ?case by simp
  qed (simp add: parses_Nil)
  then show ?thesis by (rule parses_fields)
qed

section \<open>Reading a piece of the buffer\<close>

definition reads :: "'a read \<Rightarrow> byte list \<Rightarrow> 'a \<Rightarrow> bool" where
  "reads m bs x \<longleftrightarrow> (\<forall>pre post. m (pre @ bs @ post) (length pre) = Inr (x, length pre + length bs))"

named_theorems reads_intros "what the methods of the reader read"

lemma readsD: "reads m bs x \<Longrightarrow> m (pre @ bs @ post) (length pre) = Inr (x, length pre + length bs)"
  by (simp add: reads_def)

lemma reads_andRead: "reads m a x \<Longrightarrow> reads (k x) b y \<Longrightarrow> reads (andRead m k) (a @ b) y"
proof -
  assume m: "reads m a x" and k: "reads (k x) b y"
  show ?thesis unfolding reads_def
  proof (intro allI)
    fix pre post
    show "andRead m k (pre @ (a @ b) @ post) (length pre) = Inr (y, length pre + length (a @ b))"
      using readsD [OF m, of pre "b @ post"] readsD [OF k, of "pre @ a" post] by (simp add: andRead_def add.assoc)
  qed
qed

lemma reads_mapRead [reads_intros]: "reads m bs x \<Longrightarrow> reads (mapRead g m) bs (g x)"
  by (simp add: reads_def mapRead_def andRead_def retRead_def)

lemma reads_varint:
  assumes "0 \<le> v" "v < 18446744073709551616"
    and m: "\<And>buf p bs r. sees buf p bs \<Longrightarrow> read_varint bs = Some (v, r) \<Longrightarrow>
      m buf p = 
        (if 10 < length bs - length r then Inl (newError (lit ''invalid varint''))
         else assertBounds x buf (p + (length bs - length r)))"
  shows "reads m (varint v) x"
  unfolding reads_def
proof (intro allI)
  fix pre post :: "byte list"
  let ?buf = "pre @ varint v @ post"
  have "sees ?buf (length pre) (varint v @ post @ [0])" by (simp add: sees_def)
  moreover have "read_varint (varint v @ post @ [0]) = Some (v, post @ [0])" using assms(1) by simp
  moreover have "length (varint v) \<le> 10" using length_varint_le [of v 10] assms(1,2) by simp
  ultimately show "m ?buf (length pre) = Inr (x, length pre + length (varint v))"
    using m [of ?buf "length pre" "varint v @ post @ [0]" "post @ [0]"] by (simp add: assertBounds_def)
qed

lemma reads_uint32 [reads_intros]: "0 \<le> v \<Longrightarrow> v < 4294967296 \<Longrightarrow> reads r_uint32 (varint v) (of_int v)"
  unfolding r_uint32_def by (rule reads_varint) (simp_all add: varint32read_exact)

lemma reads_uint64 [reads_intros]: "0 \<le> v \<Longrightarrow> v < 18446744073709551616 \<Longrightarrow> reads r_uint64 (varint v) v"
  by (rule reads_varint) (simp_all add: r_uint64_exact mod_pos_pos_trivial)

lemma reads_int64 [reads_intros]: "0 \<le> v \<Longrightarrow> v < 18446744073709551616 \<Longrightarrow> reads r_int64 (varint v) (signed64 v)"
  by (rule reads_varint) (simp_all add: r_int64_exact mod_pos_pos_trivial)

lemma unat_small: "small b \<Longrightarrow> unat (of_int (int (length b)) :: u32) = length b"
  by (simp add: small_def unsigned_of_nat take_bit_nat_eq_self)

lemma reads_bytes [reads_intros]: "small b \<Longrightarrow> reads r_bytes (wire_payload (WBytes b)) b"
  unfolding r_bytes_def wire_payload.simps
  by (rule reads_andRead [OF reads_uint32]) (simp_all add: small_def reads_def assertBounds_def unsigned_of_nat take_bit_nat_eq_self)

definition readable_str :: "jstring \<Rightarrow> bool" where
  "readable_str s \<longleftrightarrow> short s \<and> (length s < 8192 \<or> plain s)"

lemma reads_string [reads_intros]: "readable_str s \<Longrightarrow> reads r_string (wire_payload (WBytes (utf8_write s))) s"
proof -
  assume s: "readable_str s"
  then have "small (utf8_write s)" by (simp add: readable_str_def short_def small_def utf8_length_correct)
  from reads_mapRead [OF reads_bytes [OF this], of utf8Read] s show ?thesis
    by (simp add: r_string_def utf8Read_write readable_str_def)
qed

section \<open>Reading a message\<close>

definition steps :: "(u32 \<Rightarrow> 'm \<Rightarrow> 'm read) \<Rightarrow> 'm \<Rightarrow> byte list \<Rightarrow> 'm \<Rightarrow> bool" where
  "steps step m bs m' \<longleftrightarrow> (\<forall>pre post f. length pre + length bs \<le> f \<longrightarrow>
     decode_until step m f (pre @ bs @ post) (length pre) = decode_until step m' f (pre @ bs @ post) (length pre + length bs))"

lemma steps_Nil: "steps step m [] m"
  by (simp add: steps_def)

lemma steps_append: "steps step m a m' \<Longrightarrow> steps step m' b m'' \<Longrightarrow> steps step m (a @ b) m''"
proof -
  assume a: "steps step m a m'" and b: "steps step m' b m''"
  show ?thesis unfolding steps_def
  proof (intro allI impI)
    fix pre post :: "byte list" and f
    assume f: "length pre + length (a @ b) \<le> f"
    have "decode_until step m f (pre @ a @ b @ post) (length pre)
        = decode_until step m' f (pre @ a @ b @ post) (length pre + length a)"
      using a f by (simp add: steps_def)
    also have "\<dots> = decode_until step m'' f ((pre @ a) @ b @ post) (length (pre @ a) + length b)"
      using b f unfolding steps_def by (metis append.assoc length_append add.assoc)
    finally show "decode_until step m f (pre @ (a @ b) @ post) (length pre)
        = decode_until step m'' f (pre @ (a @ b) @ post) (length pre + length (a @ b))" by (simp add: add.assoc)
  qed
qed

lemma wire_key_bounds: "wire_ok x \<Longrightarrow> 0 \<le> wire_key x \<and> wire_key x < 4294967296"
  by (cases x rule: wire_ok.cases) simp_all

definition onward :: "(u32 \<Rightarrow> 'm \<Rightarrow> 'm read) \<Rightarrow> bool" where
  "onward step \<longleftrightarrow> (\<forall>l m. forward (step l m))"

lemma steps_field:
  assumes step: "onward step"
    and x: "wire_ok x" "reads (step (of_int (wire_key x)) m) (wire_payload (snd x)) m'"
  shows "steps step m (field_bytes x) m'"
  unfolding steps_def
proof (intro allI impI)
  fix pre post :: "byte list" and f
  assume f: "length pre + length (field_bytes x) \<le> f"
  let ?buf = "pre @ field_bytes x @ post"
  have fwd: "forward (step l m)" for l m using step by (simp add: onward_def)
  have "r_uint32 ?buf (length pre) = Inr (of_int (wire_key x), length (pre @ varint (wire_key x)))"
    using readsD [OF reads_uint32, of "wire_key x" pre "wire_payload (snd x) @ post"] wire_key_bounds [OF x(1)]
    by (simp add: field_bytes_def)
  moreover have "step (of_int (wire_key x)) m ?buf (length (pre @ varint (wire_key x)))
      = Inr (m', length pre + length (field_bytes x))"
    using readsD [OF x(2), of "pre @ varint (wire_key x)" post] by (simp add: field_bytes_def add.assoc)
  moreover have "length pre < f" 
    using f length_varint_pos [of "wire_key x"] unfolding field_bytes_def length_append by linarith
  ultimately show "decode_until step m f ?buf (length pre) = decode_until step m' f ?buf (length pre + length (field_bytes x))"
    by (simp add: decode_until_unfold [of step m f ?buf "length pre", OF fwd] andRead_def)
qed

lemma steps_end: "steps step m bs m' \<Longrightarrow> reads (\<lambda>buf p. decode_until step m (p + length bs) buf p) bs m'"
  by (simp add: steps_def reads_def decode_until_def [of step m'])

text \<open>Fields no \<open>case\<close> of the \<open>switch\<close> names are skipped.\<close>

lemma skip_varint_run: "sees buf p bs \<Longrightarrow> read_varint bs = Some (v, r) \<Longrightarrow> p + (length bs - length r) \<le> length buf \<Longrightarrow>
    skip_varint buf p = Inr ((), p + (length bs - length r))"
proof (induction bs arbitrary: p v)
  case (Cons b bs)
  note b = sees_Cons [OF Cons.prems(1)]
  have p: "\<not> length buf \<le> p" using Cons.prems(2,3) read_varint_shorter [OF Cons.prems(2)] by simp
  from Cons.prems(2) show ?case
  proof (cases rule: read_varint_ConsD)
    case (last c)
    with b p show ?thesis by (simp add: skip_varint.simps [of buf p] high_bit)
  next
    case (more c bs' w)
    then have l: "length r < length bs" using read_varint_shorter by simp
    with more Cons.IH [OF b(2), of w] Cons.prems(3)
    have "skip_varint buf (Suc p) = Inr ((), Suc p + (length bs - length r))" by simp
    with b p more l show ?thesis by (simp add: skip_varint.simps [of buf p] high_bit Suc_diff_le)
  qed
qed simp

lemma key_parts:
  assumes "wire_ok x"
  shows "drop_bit 3 (of_int (wire_key x) :: u32) = of_int (fst x)"
    and "(of_int (wire_key x) :: u32) AND 7 = (case snd x of WVarint _ \<Rightarrow> 0 | WBytes _ \<Rightarrow> 2)"
proof -
  let ?k = "wire_key x"
  have u: "uint (of_int ?k :: u32) = ?k" using wire_key_bounds [OF assms] by (simp add: uint_word_of_int mod_pos_pos_trivial)
  have n: "uint (of_int (fst x) :: u32) = fst x" using assms
    by (cases x rule: wire_ok.cases) (simp_all add: uint_word_of_int mod_pos_pos_trivial)
  have d: "?k div 8 = fst x" "?k mod 8 = (case snd x of WVarint _ \<Rightarrow> 0 | WBytes _ \<Rightarrow> 2)"
    by (cases x rule: wire_ok.cases; simp)+
  show "drop_bit 3 (of_int ?k :: u32) = of_int (fst x)"
    by (rule word_uint_eqI) (simp only: uint_drop_bit_div u n, simp add: d)
  have "uint ((of_int ?k :: u32) AND 7) = ?k mod 8" using int_and_bits [of ?k 3] by (simp add: uint_and u)
  then show "(of_int ?k :: u32) AND 7 = (case snd x of WVarint _ \<Rightarrow> 0 | WBytes _ \<Rightarrow> 2)"
    unfolding d by (intro word_uint_eqI) (simp split: wire.split)
qed

lemma reads_skip:
  assumes "wire_ok x" shows "reads (skip_field (of_int (wire_key x)) m) (wire_payload (snd x)) m"
proof -
  have "reads (skipType ((of_int (wire_key x) :: u32) AND 7)) (wire_payload (snd x)) ()"
  proof (cases "snd x")
    case (WVarint v)
    then have v: "0 \<le> v" using assms by (cases x) simp
    have "reads skip_varint (varint v) ()" unfolding reads_def
    proof (intro allI)
      fix pre post :: "byte list"
      have "sees (pre @ varint v @ post) (length pre) (varint v @ post @ [0])" by (simp add: sees_def)
      from skip_varint_run [OF this, of v "post @ [0]"] v
      show "skip_varint (pre @ varint v @ post) (length pre) = Inr ((), length pre + length (varint v))" by simp
    qed
    with WVarint show ?thesis by (simp add: key_parts(2) [OF assms] skipType_def skip_plain_def)
  next
    case (WBytes b)
    then have b: "small b" using assms by (cases x) simp
    have "reads (skip (unat (of_int (int (length b)) :: u32))) b ()"
      unfolding unat_small [OF b] by (simp add: reads_def skip_def)
    then have "reads (andRead r_uint32 (\<lambda>n. skip (unat n))) (varint (int (length b)) @ b) ()"
      using b by (intro reads_andRead [OF reads_uint32]) (simp_all add: small_def)
    with WBytes show ?thesis by (simp add: key_parts(2) [OF assms] skipType_def skip_plain_def)
  qed
  from reads_mapRead [OF this, of "\<lambda>_. m"] show ?thesis by (simp add: skip_field_def)
qed

section \<open>The contract of a decoder\<close>

locale wire_decoder =
  fixes step :: "u32 \<Rightarrow> 'm \<Rightarrow> 'm read"
    and blank :: 'm
    and fields_of :: "'m \<Rightarrow> (int \<times> wire) list"
    and readable :: "'m \<Rightarrow> bool"
  assumes step_forward: "onward step"
    and reads_fields: "readable m \<Longrightarrow> steps step blank (wire_bytes (fields_of m)) m"
begin

lemma decode_bytes: "readable m \<Longrightarrow> decode_msg step blank (wire_bytes (fields_of m)) = Inr m"
  using readsD [OF steps_end [OF reads_fields], of m "[]" "[]"] by (simp add: decode_msg_def)

lemma decode_nested [reads_intros]:
  assumes "readable m" "small (wire_bytes (fields_of m))"
  shows "reads (decode_sub step blank) (wire_payload (WBytes (wire_bytes (fields_of m)))) m"
  unfolding decode_sub_def wire_payload.simps
proof (rule reads_andRead [OF reads_uint32])
  show "reads (\<lambda>buf p. decode_until step blank (p + unat (of_int (int (length (wire_bytes (fields_of m)))) :: u32)) buf p)
      (wire_bytes (fields_of m)) m"
    unfolding unat_small [OF assms(2)] by (rule steps_end [OF reads_fields [OF assms(1)]])
qed (use assms(2) in \<open>simp_all add: small_def\<close>)

end

end
