(* ===== verification/Base64.thy ===== *)
theory Base64
  imports Wire
begin

text \<open>
  \<open>toBase64\<close> and \<open>fromBase64\<close> of \<open>static/wallet-deps.bundle.mjs\<close> (base64-js behind a check of the alphabet):
  public keys and signatures travel as such strings between the signer and the client.

  The encoder turns three bytes into four characters; its loop works in chunks of 16383 bytes, a multiple
  of three, which concatenates to the same. A shift is a division or multiplication and a mask a
  remainder: all values are small and non-negative. \<open>fromBase64_toBase64\<close>: decoding inverts encoding.
\<close>

section \<open>The alphabet\<close>

definition b64_char :: "int \<Rightarrow> unit16" where
  "b64_char i =
     (if i < 26 then of_int (65 + i) else if i < 52 then of_int (71 + i) else if i < 62 then of_int (i - 4)
      else if i = 62 then 43 else 47)"

definition b64_index :: "unit16 \<Rightarrow> int" where
  "b64_index c =
     (if 65 \<le> c \<and> c \<le> 90 then uint c - 65 else if 97 \<le> c \<and> c \<le> 122 then uint c - 71
      else if 48 \<le> c \<and> c \<le> 57 then uint c + 4 else if c = 43 then 62 else 63)"

definition in_alphabet :: "unit16 \<Rightarrow> bool" where
  "in_alphabet c \<longleftrightarrow> (97 \<le> c \<and> c \<le> 122) \<or> (65 \<le> c \<and> c \<le> 90) \<or> (48 \<le> c \<and> c \<le> 57) \<or> c = 43 \<or> c = 47"

section \<open>Encoding\<close>

fun toBase64 :: "byte list \<Rightarrow> jstring" where
  "toBase64 (a # b # c # r) =
     (let f = uint a * 65536 + uint b * 256 + uint c
      in [b64_char (f div 262144 mod 64), b64_char (f div 4096 mod 64), b64_char (f div 64 mod 64), b64_char (f mod 64)]
         @ toBase64 r)"
| "toBase64 [a, b] =
     (let t = uint a * 256 + uint b
      in [b64_char (t div 1024), b64_char (t div 16 mod 64), b64_char (t * 4 mod 64), 61])"
| "toBase64 [a] = (let t = uint a in [b64_char (t div 4), b64_char (t * 16 mod 64), 61, 61])"
| "toBase64 [] = []"

section \<open>Decoding\<close>

text \<open>The characters before the padding; the last group has two or three of them when there is padding.\<close>

fun toByteArray :: "jstring \<Rightarrow> byte list" where
  "toByteArray (a # b # c # d # r) =
     (let t = b64_index a * 262144 + b64_index b * 4096 + b64_index c * 64 + b64_index d
      in [of_int (t div 65536 mod 256), of_int (t div 256 mod 256), of_int (t mod 256)] @ toByteArray r)"
| "toByteArray [a, b, c] =
     (let t = b64_index a * 1024 + b64_index b * 16 + b64_index c div 4
      in [of_int (t div 256 mod 256), of_int (t mod 256)])"
| "toByteArray [a, b] = (let t = b64_index a * 4 + b64_index b div 16 in [of_int (t mod 256)])"
| "toByteArray _ = []"

definition fromBase64 :: "jstring \<Rightarrow> jstring + byte list" where
  "fromBase64 e =
     (let body = takeWhile (\<lambda>c. c \<noteq> 61) e; pad = dropWhile (\<lambda>c. c \<noteq> 61) e
      in if \<not> list_all in_alphabet body \<or> pad \<notin> {[], [61], [61, 61]} then Inl (lit ''Invalid base64 string format'')
         else if length e mod 4 > 0 then Inl (lit ''Invalid string. Length must be a multiple of 4'')
         else Inr (toByteArray body))"

section \<open>Decoding inverts encoding\<close>

lemma b64_char_table: "list_all (\<lambda>i. b64_index (b64_char i) = i \<and> in_alphabet (b64_char i) \<and> b64_char i \<noteq> 61) [0..63]"
  by code_simp

lemma b64_char_ok:
  assumes "0 \<le> i" "i < 64"
  shows "b64_index (b64_char i) = i" "in_alphabet (b64_char i)" "b64_char i \<noteq> 61"
  using b64_char_table assms unfolding list_all_iff by auto

lemma byte_range: "0 \<le> uint b" "uint b < 256" for b :: byte
  using uint_lt2p [of b] by simp_all

lemma byte_mod [simp]: "uint b div 256 = 0" "uint b mod 256 = uint b" for b :: byte
  using byte_range [of b] by simp_all

lemma b64_char_div [simp]:
  "b64_index (b64_char (n mod 64)) = n mod 64" "in_alphabet (b64_char (n mod 64))" "b64_char (n mod 64) \<noteq> 61"
  by (simp_all add: b64_char_ok)

lemma sextets:
  fixes f :: int
  assumes "0 \<le> f" "f < 16777216"
  shows "f div 262144 mod 64 * 262144 + f div 4096 mod 64 * 4096 + f div 64 mod 64 * 64 + f mod 64 = f"
proof -
  have "f div 262144 < 64" "0 \<le> f div 262144" using assms by (simp_all add: div_less_iff_mult pos_imp_zdiv_nonneg_iff)
  then have "f div 262144 mod 64 = f div 262144" by (simp add: mod_pos_pos_trivial)
  moreover have "f div 262144 = f div 4096 div 64" by (simp flip: zdiv_zmult2_eq)
  ultimately show ?thesis using base64 [of f] mult_div_mod_eq [of 64 "f div 4096"] by linarith
qed

lemma three_bytes:
  fixes x y z :: int
  assumes "0 \<le> x" "x < 256" "0 \<le> y" "y < 256" "0 \<le> z" "z < 256"
  shows "(x * 65536 + y * 256 + z) div 65536 mod 256 = x" "(x * 65536 + y * 256 + z) div 256 mod 256 = y"
    "(x * 65536 + y * 256 + z) mod 256 = z"
proof -
  have "x * 65536 + y * 256 + z = 65536 * x + (y * 256 + z)" "0 \<le> y * 256 + z" "y * 256 + z < 65536" using assms by simp_all
  then have "(x * 65536 + y * 256 + z) div 65536 = x" by (simp add: div_pos_pos_trivial)
  then show "(x * 65536 + y * 256 + z) div 65536 mod 256 = x" using assms by simp
  have "x * 65536 + y * 256 + z = 256 * (x * 256 + y) + z" by simp
  then have "(x * 65536 + y * 256 + z) div 256 = x * 256 + y" "(x * 65536 + y * 256 + z) mod 256 = z mod 256"
    using assms by (simp_all add: div_pos_pos_trivial del: distrib_left_numeral)
  then show "(x * 65536 + y * 256 + z) div 256 mod 256 = y" "(x * 65536 + y * 256 + z) mod 256 = z"
    using assms by simp_all
qed

lemma two_bytes:
  fixes x y :: int
  assumes "0 \<le> x" "x < 256" "0 \<le> y" "y < 256"
  defines "t \<equiv> x * 256 + y"
  shows "t div 1024 * 1024 + t div 16 mod 64 * 16 + t * 4 mod 64 div 4 = t" "t div 1024 < 64" "0 \<le> t div 1024"
    "t div 256 mod 256 = x" "t mod 256 = y"
proof -
  have t: "0 \<le> t" "t < 65536" using assms by simp_all
  have "t * 4 mod 64 = t mod 16 * 4" using mult_mod_left [of t 16 4] by simp
  then have q: "t * 4 mod 64 div 4 = t mod 16" by simp
  have "t div 1024 = t div 16 div 64" by (simp flip: zdiv_zmult2_eq)
  then show "t div 1024 * 1024 + t div 16 mod 64 * 16 + t * 4 mod 64 div 4 = t"
    using q mult_div_mod_eq [of 16 t] mult_div_mod_eq [of 64 "t div 16"] by linarith
  show "t div 1024 < 64" "0 \<le> t div 1024" using t by (simp_all add: div_less_iff_mult pos_imp_zdiv_nonneg_iff)
  show "t div 256 mod 256 = x" "t mod 256 = y" using assms by (simp_all add: t_def)
qed

lemma one_byte:
  fixes x :: int
  assumes "0 \<le> x" "x < 256"
  shows "x div 4 * 4 + x * 16 mod 64 div 16 = x" "x div 4 < 64" "0 \<le> x div 4"
proof -
  have "x * 16 mod 64 = x mod 4 * 16" using mult_mod_left [of x 4 16] by simp
  then show "x div 4 * 4 + x * 16 mod 64 div 16 = x" by simp
  show "x div 4 < 64" "0 \<le> x div 4" using assms by (simp_all add: div_less_iff_mult pos_imp_zdiv_nonneg_iff)
qed

lemma toBase64_shape:
  "toByteArray (takeWhile (\<lambda>c. c \<noteq> 61) (toBase64 bs)) = bs \<and> list_all in_alphabet (takeWhile (\<lambda>c. c \<noteq> 61) (toBase64 bs))
   \<and> dropWhile (\<lambda>c. c \<noteq> 61) (toBase64 bs) \<in> {[], [61], [61, 61]} \<and> length (toBase64 bs) mod 4 = 0"
proof (induction bs rule: toBase64.induct)
  case (1 a b c r)
  let ?f = "uint a * 65536 + uint b * 256 + uint c"
  have "0 \<le> ?f" "?f < 16777216" using byte_range [of a] byte_range [of b] byte_range [of c] by simp_all
  note s = sextets [OF this]
  note t = three_bytes [OF byte_range [of a] byte_range [of b] byte_range [of c]]
  show ?case using 1 by (simp add: Let_def s t)
next
  case (2 a b)
  note t = two_bytes [OF byte_range [of a] byte_range [of b]]
  show ?case by (simp add: Let_def t b64_char_ok [OF t(3,2)] del: distrib_right_numeral)
next
  case (3 a)
  note t = one_byte [OF byte_range [of a]]
  show ?case by (simp add: Let_def t(1) b64_char_ok [OF t(3,2)])
qed simp

lemma fromBase64_toBase64 [simp]: "fromBase64 (toBase64 bs) = Inr bs"
  using toBase64_shape [of bs] by (auto simp: fromBase64_def Let_def)

end
