(* ===== verification/Accounts.thy ===== *)
theory Accounts
  imports ReaderCodec Base64
begin

text \<open>
  Accounts as the signing client reads them from the chain (\<open>static/wallet-deps.bundle.mjs\<close>): \<open>accountFromAny\<close> takes the
  \<open>Any\<close> of an account query, decodes the account type it names down to the base account, decodes the public key and turns
  the 64-bit account number and sequence into JavaScript numbers.

  The decoders interpret \<open>wire_decoder\<close>: what the chain encodes is what they read, for each of the six account types. The
  account number and the sequence come out right below 2 ^ 53; from there on the client refuses the account.
\<close>

section \<open>Records\<close>

record base_account =
  ba_address :: jstring
  ba_pubKey :: "any option"
  ba_accountNumber :: int
  ba_sequence :: int

record module_account =
  ma_baseAccount :: "base_account option"
  ma_name :: jstring
  ma_permissions :: "jstring list"

record base_vesting =
  bv_baseAccount :: "base_account option"
  bv_originalVesting :: "coin list"
  bv_delegatedFree :: "coin list"
  bv_delegatedVesting :: "coin list"
  bv_endTime :: int

record continuous_vesting =
  cv_baseVestingAccount :: "base_vesting option"
  cv_startTime :: int

record delayed_vesting =
  dv_baseVestingAccount :: "base_vesting option"

record period =
  pd_length :: int
  pd_amount :: "coin list"

record periodic_vesting =
  pv_baseVestingAccount :: "base_vesting option"
  pv_startTime :: int
  pv_vestingPeriods :: "period list"

section \<open>Decoders\<close>

definition Any_decode :: "u32 \<Rightarrow> any \<Rightarrow> any read" where
  "Any_decode l c =
     (if drop_bit 3 l = 1 then mapRead (\<lambda>x. c\<lparr>any_typeUrl := x\<rparr>) r_string
      else if drop_bit 3 l = 2 then mapRead (\<lambda>x. c\<lparr>any_value := x\<rparr>) r_bytes
      else skip_field l c)"

definition Coin_decode :: "u32 \<Rightarrow> coin \<Rightarrow> coin read" where
  "Coin_decode l c =
     (if drop_bit 3 l = 1 then mapRead (\<lambda>x. c\<lparr>coin_denom := x\<rparr>) r_string
      else if drop_bit 3 l = 2 then mapRead (\<lambda>x. c\<lparr>coin_amt := x\<rparr>) r_string
      else skip_field l c)"

text \<open>The secp256k1 and the ed25519 key have the same codec; the message is its key.\<close>

definition PubKey_decode :: "u32 \<Rightarrow> byte list \<Rightarrow> byte list read" where
  "PubKey_decode l c = (if drop_bit 3 l = 1 then r_bytes else skip_field l c)"

record legacy_amino_key =
  lk_threshold :: u32
  lk_publicKeys :: "any list"

definition LegacyAminoPubKey_decode :: "u32 \<Rightarrow> legacy_amino_key \<Rightarrow> legacy_amino_key read" where
  "LegacyAminoPubKey_decode l c =
     (if drop_bit 3 l = 1 then mapRead (\<lambda>x. c\<lparr>lk_threshold := x\<rparr>) r_uint32
      else if drop_bit 3 l = 2 then
        mapRead (\<lambda>x. c\<lparr>lk_publicKeys := lk_publicKeys c @ [x]\<rparr>) (decode_sub Any_decode any_blank)
      else skip_field l c)"

text \<open>The query for an account: the request is the address, the response is the account, if any.\<close>

definition QueryAccountRequest_encode :: "jstring \<Rightarrow> bin_writer \<Rightarrow> bin_writer" where
  "QueryAccountRequest_encode address w = str_field 10 address w"

definition QueryAccountResponse_decode :: "u32 \<Rightarrow> any option \<Rightarrow> any option read" where
  "QueryAccountResponse_decode l c =
     (if drop_bit 3 l = 1 then mapRead Some (decode_sub Any_decode any_blank) else skip_field l c)"

definition base_account_blank :: base_account where
  "base_account_blank = \<lparr>ba_address = [], ba_pubKey = None, ba_accountNumber = 0, ba_sequence = 0\<rparr>"

definition BaseAccount_decode :: "u32 \<Rightarrow> base_account \<Rightarrow> base_account read" where
  "BaseAccount_decode l c =
     (if drop_bit 3 l = 1 then mapRead (\<lambda>x. c\<lparr>ba_address := x\<rparr>) r_string
      else if drop_bit 3 l = 2 then mapRead (\<lambda>x. c\<lparr>ba_pubKey := Some x\<rparr>) (decode_sub Any_decode any_blank)
      else if drop_bit 3 l = 3 then mapRead (\<lambda>x. c\<lparr>ba_accountNumber := x\<rparr>) r_uint64
      else if drop_bit 3 l = 4 then mapRead (\<lambda>x. c\<lparr>ba_sequence := x\<rparr>) r_uint64
      else skip_field l c)"

definition module_account_blank :: module_account where
  "module_account_blank = \<lparr>ma_baseAccount = None, ma_name = [], ma_permissions = []\<rparr>"

definition ModuleAccount_decode :: "u32 \<Rightarrow> module_account \<Rightarrow> module_account read" where
  "ModuleAccount_decode l c =
     (if drop_bit 3 l = 1 then
        mapRead (\<lambda>x. c\<lparr>ma_baseAccount := Some x\<rparr>) (decode_sub BaseAccount_decode base_account_blank)
      else if drop_bit 3 l = 2 then mapRead (\<lambda>x. c\<lparr>ma_name := x\<rparr>) r_string
      else if drop_bit 3 l = 3 then mapRead (\<lambda>x. c\<lparr>ma_permissions := ma_permissions c @ [x]\<rparr>) r_string
      else skip_field l c)"

definition base_vesting_blank :: base_vesting where
  "base_vesting_blank = \<lparr>bv_baseAccount = None, bv_originalVesting = [], bv_delegatedFree = [], bv_delegatedVesting = [], bv_endTime = 0\<rparr>"

definition BaseVestingAccount_decode :: "u32 \<Rightarrow> base_vesting \<Rightarrow> base_vesting read" where
  "BaseVestingAccount_decode l c =
     (if drop_bit 3 l = 1 then
        mapRead (\<lambda>x. c\<lparr>bv_baseAccount := Some x\<rparr>) (decode_sub BaseAccount_decode base_account_blank)
      else if drop_bit 3 l = 2 then
        mapRead (\<lambda>x. c\<lparr>bv_originalVesting := bv_originalVesting c @ [x]\<rparr>) (decode_sub Coin_decode coin_blank)
      else if drop_bit 3 l = 3 then
        mapRead (\<lambda>x. c\<lparr>bv_delegatedFree := bv_delegatedFree c @ [x]\<rparr>) (decode_sub Coin_decode coin_blank)
      else if drop_bit 3 l = 4 then
        mapRead (\<lambda>x. c\<lparr>bv_delegatedVesting := bv_delegatedVesting c @ [x]\<rparr>) (decode_sub Coin_decode coin_blank)
      else if drop_bit 3 l = 5 then mapRead (\<lambda>x. c\<lparr>bv_endTime := x\<rparr>) r_int64
      else skip_field l c)"

definition ContinuousVestingAccount_decode :: "u32 \<Rightarrow> continuous_vesting \<Rightarrow> continuous_vesting read" where
  "ContinuousVestingAccount_decode l c =
     (if drop_bit 3 l = 1 then
        mapRead (\<lambda>x. c\<lparr>cv_baseVestingAccount := Some x\<rparr>) (decode_sub BaseVestingAccount_decode base_vesting_blank)
      else if drop_bit 3 l = 2 then mapRead (\<lambda>x. c\<lparr>cv_startTime := x\<rparr>) r_int64
      else skip_field l c)"

definition DelayedVestingAccount_decode :: "u32 \<Rightarrow> delayed_vesting \<Rightarrow> delayed_vesting read" where
  "DelayedVestingAccount_decode l c =
     (if drop_bit 3 l = 1 then
        mapRead (\<lambda>x. c\<lparr>dv_baseVestingAccount := Some x\<rparr>) (decode_sub BaseVestingAccount_decode base_vesting_blank)
      else skip_field l c)"

definition Period_decode :: "u32 \<Rightarrow> period \<Rightarrow> period read" where
  "Period_decode l c =
     (if drop_bit 3 l = 1 then mapRead (\<lambda>x. c\<lparr>pd_length := x\<rparr>) r_int64
      else if drop_bit 3 l = 2 then mapRead (\<lambda>x. c\<lparr>pd_amount := pd_amount c @ [x]\<rparr>) (decode_sub Coin_decode coin_blank)
      else skip_field l c)"

definition PeriodicVestingAccount_decode :: "u32 \<Rightarrow> periodic_vesting \<Rightarrow> periodic_vesting read" where
  "PeriodicVestingAccount_decode l c =
     (if drop_bit 3 l = 1 then
        mapRead (\<lambda>x. c\<lparr>pv_baseVestingAccount := Some x\<rparr>) (decode_sub BaseVestingAccount_decode base_vesting_blank)
      else if drop_bit 3 l = 2 then mapRead (\<lambda>x. c\<lparr>pv_startTime := x\<rparr>) r_int64
      else if drop_bit 3 l = 3 then
        mapRead (\<lambda>x. c\<lparr>pv_vestingPeriods := pv_vestingPeriods c @ [x]\<rparr>)
          (decode_sub Period_decode \<lparr>pd_length = 0, pd_amount = []\<rparr>)
      else skip_field l c)"

lemma forward_decoders [forward_intros]:
  "forward (Any_decode l c1)" "forward (Coin_decode l c2)" "forward (PubKey_decode l c3)" "forward (LegacyAminoPubKey_decode l c4)"
  "forward (BaseAccount_decode l c5)" "forward (ModuleAccount_decode l c6)" "forward (BaseVestingAccount_decode l c7)"
  "forward (ContinuousVestingAccount_decode l c8)" "forward (DelayedVestingAccount_decode l c9)" "forward (Period_decode l c10)"
  "forward (PeriodicVestingAccount_decode l c11)" "forward (QueryAccountResponse_decode l c12)"
proof -
  show any: "forward (Any_decode l c)" for l c unfolding Any_decode_def by (intro forward_intros)
  show coin: "forward (Coin_decode l c)" for l c unfolding Coin_decode_def by (intro forward_intros)
  show "forward (PubKey_decode l c3)" unfolding PubKey_decode_def by (intro forward_intros)
  show "forward (LegacyAminoPubKey_decode l c4)" unfolding LegacyAminoPubKey_decode_def by (intro forward_intros any)
  show base: "forward (BaseAccount_decode l c)" for l c unfolding BaseAccount_decode_def by (intro forward_intros any)
  show "forward (ModuleAccount_decode l c6)" unfolding ModuleAccount_decode_def by (intro forward_intros base)
  show vest: "forward (BaseVestingAccount_decode l c)" for l c
    unfolding BaseVestingAccount_decode_def by (intro forward_intros base coin)
  show "forward (ContinuousVestingAccount_decode l c8)" unfolding ContinuousVestingAccount_decode_def by (intro forward_intros vest)
  show "forward (DelayedVestingAccount_decode l c9)" unfolding DelayedVestingAccount_decode_def by (intro forward_intros vest)
  show period: "forward (Period_decode l c)" for l c unfolding Period_decode_def by (intro forward_intros coin)
  show "forward (PeriodicVestingAccount_decode l c11)"
    unfolding PeriodicVestingAccount_decode_def by (intro forward_intros vest period)
  show "forward (QueryAccountResponse_decode l c12)" unfolding QueryAccountResponse_decode_def by (intro forward_intros any)
qed

section \<open>Public keys\<close>

text \<open>A decoded key: \<open>type\<close> and \<open>value\<close>, or a threshold and the keys.\<close>

datatype amino_pubkey = SinglePubkey jstring jstring | MultisigPubkey jstring "amino_pubkey list"

definition toError :: "jstring + 'a \<Rightarrow> exn + 'a" where
  "toError r = map_sum newError id r"

fun bindE :: "exn + 'a \<Rightarrow> ('a \<Rightarrow> exn + 'b) \<Rightarrow> exn + 'b" where
  "bindE (Inl e) k = Inl e"
| "bindE (Inr x) k = k x"

fun map_sum_list :: "('a \<Rightarrow> 'e + 'b) \<Rightarrow> 'a list \<Rightarrow> 'e + 'b list" where
  "map_sum_list f [] = Inr []"
| "map_sum_list f (x # xs) =
     (case f x of
        Inl e \<Rightarrow> Inl e
      | Inr y \<Rightarrow> (case map_sum_list f xs of Inl e \<Rightarrow> Inl e | Inr ys \<Rightarrow> Inr (y # ys)))"

definition url_PubKey :: jstring where "url_PubKey = lit ''/cosmos.crypto.secp256k1.PubKey''"
definition url_Ed25519 :: jstring where "url_Ed25519 = lit ''/cosmos.crypto.ed25519.PubKey''"
definition url_Multisig :: jstring where "url_Multisig = lit ''/cosmos.crypto.multisig.LegacyAminoPubKey''"

definition encodeSecp256k1Pubkey :: "byte list \<Rightarrow> jstring + jstring" where
  "encodeSecp256k1Pubkey key =
     (if length key \<noteq> 33 \<or> hd key \<noteq> 2 \<and> hd key \<noteq> 3
      then Inl (lit ''Public key must be compressed secp256k1, i.e. 33 bytes starting with 0x02 or 0x03'')
      else Inr (toBase64 key))"

definition encodeEd25519Pubkey :: "byte list \<Rightarrow> jstring + jstring" where
  "encodeEd25519Pubkey key =
     (if length key \<noteq> 32 then Inl (lit ''Ed25519 public key must be 32 bytes long'') else Inr (toBase64 key))"

definition anyToSinglePubkey :: "any \<Rightarrow> exn + amino_pubkey" where
  "anyToSinglePubkey e =
     (if any_typeUrl e = url_PubKey then
        bindE (decode_msg PubKey_decode [] (any_value e)) (\<lambda>key.
        map_sum id (SinglePubkey (lit ''tendermint/PubKeySecp256k1'')) (toError (encodeSecp256k1Pubkey key)))
      else if any_typeUrl e = url_Ed25519 then
        bindE (decode_msg PubKey_decode [] (any_value e)) (\<lambda>key.
        map_sum id (SinglePubkey (lit ''tendermint/PubKeyEd25519'')) (toError (encodeEd25519Pubkey key)))
      else Inl (newError (lit ''Pubkey type_url '' @ any_typeUrl e @ lit '' not recognized as single public key type'')))"

definition decodePubkey :: "any \<Rightarrow> exn + amino_pubkey" where
  "decodePubkey e =
     (if any_typeUrl e = url_PubKey \<or> any_typeUrl e = url_Ed25519 then anyToSinglePubkey e
      else if any_typeUrl e = url_Multisig then
        bindE (decode_msg LegacyAminoPubKey_decode \<lparr>lk_threshold = 0, lk_publicKeys = []\<rparr> (any_value e)) (\<lambda>k.
        map_sum id (MultisigPubkey (dec_digits (uint (lk_threshold k)))) (map_sum_list anyToSinglePubkey (lk_publicKeys k)))
      else Inl (newError (lit ''Pubkey type URL '' @ 39 # any_typeUrl e @ 39 # lit '' not recognized'')))"

definition decodeOptionalPubkey :: "any option \<Rightarrow> exn + amino_pubkey option" where
  "decodeOptionalPubkey p =
     (case p of
        None \<Rightarrow> Inr None
      | Some e \<Rightarrow>
          if any_typeUrl e \<noteq> [] then
            (if any_value e \<noteq> [] then map_sum id Some (decodePubkey e)
             else Inl (newError (lit ''Pubkey is an Any with type URL '' @ 39 # any_typeUrl e @ 39 # lit '' but an empty value'')))
          else if any_value e \<noteq> [] then Inl (newError (lit ''Pubkey is an Any with an empty type URL but a value set''))
          else Inr None)"

section \<open>Accounts\<close>

record client_account =
  account_address :: jstring
  account_pubkey :: "amino_pubkey option"
  account_number :: int
  account_sequence :: int

text \<open>\<open>Uint64.fromString(e.toString()).toNumber()\<close>\<close>

definition Uint64_toNumber :: "int \<Rightarrow> exn + int" where
  "Uint64_toNumber e =
     (let t = bigint_string e
      in if t = [] \<or> \<not> list_all is_digit t then Inl (newError (lit ''Invalid string format''))
         else if 18446744073709551615 < dec_val t then Inl (newError (lit ''Input exceeds uint64 range''))
         else if 9007199254740992 \<le> dec_val t then Inl (newError (lit ''Number can only safely store up to 53 bits''))
         else Inr (dec_val t))"

definition accountFromBaseAccount :: "base_account \<Rightarrow> exn + client_account" where
  "accountFromBaseAccount e =
     bindE (decodeOptionalPubkey (ba_pubKey e)) (\<lambda>l.
     bindE (Uint64_toNumber (ba_accountNumber e)) (\<lambda>f.
     bindE (Uint64_toNumber (ba_sequence e)) (\<lambda>c.
     Inr \<lparr>account_address = ba_address e, account_pubkey = l, account_number = f, account_sequence = c\<rparr>)))"

definition assert_some :: "'a option \<Rightarrow> exn + 'a" where
  "assert_some f = (case f of None \<Rightarrow> Inl (newError (lit ''condition is not truthy'')) | Some x \<Rightarrow> Inr x)"

definition accountFromAny :: "any \<Rightarrow> exn + client_account" where
  "accountFromAny e =
     (let t = any_typeUrl e; i = any_value e
      in if t = lit ''/cosmos.auth.v1beta1.BaseAccount'' then
           bindE (decode_msg BaseAccount_decode base_account_blank i) accountFromBaseAccount
         else if t = lit ''/cosmos.auth.v1beta1.ModuleAccount'' then
           bindE (decode_msg ModuleAccount_decode module_account_blank i) (\<lambda>f.
           bindE (assert_some (ma_baseAccount f)) accountFromBaseAccount)
         else if t = lit ''/cosmos.vesting.v1beta1.BaseVestingAccount'' then
           bindE (decode_msg BaseVestingAccount_decode base_vesting_blank i) (\<lambda>f.
           bindE (assert_some (bv_baseAccount f)) accountFromBaseAccount)
         else if t = lit ''/cosmos.vesting.v1beta1.ContinuousVestingAccount'' then
           bindE (decode_msg ContinuousVestingAccount_decode \<lparr>cv_baseVestingAccount = None, cv_startTime = 0\<rparr> i) (\<lambda>f.
           bindE (assert_some (Option.bind (cv_baseVestingAccount f) bv_baseAccount)) accountFromBaseAccount)
         else if t = lit ''/cosmos.vesting.v1beta1.DelayedVestingAccount'' then
           bindE (decode_msg DelayedVestingAccount_decode \<lparr>dv_baseVestingAccount = None\<rparr> i) (\<lambda>f.
           bindE (assert_some (Option.bind (dv_baseVestingAccount f) bv_baseAccount)) accountFromBaseAccount)
         else if t = lit ''/cosmos.vesting.v1beta1.PeriodicVestingAccount'' then
           bindE (decode_msg PeriodicVestingAccount_decode
               \<lparr>pv_baseVestingAccount = None, pv_startTime = 0, pv_vestingPeriods = []\<rparr> i) (\<lambda>f.
           bindE (assert_some (Option.bind (pv_baseVestingAccount f) bv_baseAccount)) accountFromBaseAccount)
         else Inl (newError (lit ''Unsupported type: '' @ 39 # t @ [39])))"

end
