(* ===== verification/Signing.thy ===== *)
theory Signing
  imports Accounts
begin

text \<open>
  The signing client of \<open>static/wallet-deps.bundle.mjs\<close> (CosmJS): what \<open>client.signAndBroadcast(address, msgs, fee, "")\<close>
  of \<open>wallet.js\<close> does. \<open>sign\<close> asks the node for the account and the chain id and has the signer sign the document
  made of the encoded body and the encoded auth info (\<open>signDirect\<close>), or the amino form of the messages when the
  signer has no direct mode (\<open>signAmino\<close>); \<open>broadcastTx\<close> hands the bytes to the node and polls for the result.

  \<^item> \<open>client_state\<close>: the cached chain id and the trace of calls. \<open>network\<close>: the node, the signer and the clock, whose
    replies are functions of that trace, as in \<open>WalletEnv\<close>. Errors they throw are Error objects.
  \<^item> \<open>queryAbci\<close> gives the bytes of the node's reply; \<open>auth_account\<close> decodes the response of the account query in them, and
    \<open>getAccount\<close> the account.
  \<^item> The poll loop runs until the transaction is found, a query fails or the timer has fired. It is a
    \<open>partial_function\<close>; \<open>timers_in_order\<close> is what the code relies on of \<open>setTimeout\<close>: once sleeps of \<open>interval\<close> ms add up to
    the timeout, the timer set before them has fired. Then the loop returns (theory \<open>SigningFacts\<close>).
  \<^item> What follows the conversion of the messages in \<open>signAmino\<close> is a parameter: no message of the wallet is converted.
\<close>

section \<open>State and environment\<close>

record chain_account =
  acc_accountNumber :: int
  acc_sequence :: int

record abci_reply =
  abci_code :: int
  abci_log :: jstring
  abci_value :: "byte list"
  abci_height :: int

record signer_account =
  sa_address :: jstring
  sa_pubkey :: "byte list"

record sync_reply =
  sync_code :: int
  sync_codespace :: jstring
  sync_log :: jstring
  sync_hash :: "byte list"

record found_tx =
  found_code :: int
  found_log :: jstring

datatype client_event =
    AbciQuery jstring "byte list" "exn + abci_reply"
  | QueryStatus "exn + jstring"
  | SignerAccounts "exn + signer_account list"
  | SignDirect jstring sign_doc "exn + sign_doc \<times> jstring"
  | SignAmino jstring "exn + tx_raw"
  | StartTimer nat
  | BroadcastTxSync "byte list" "exn + sync_reply"
  | Sleep nat
  | TxSearch jstring "exn + found_tx list"

type_synonym ctrace = "client_event list"

record network =
  n_abci :: "ctrace \<Rightarrow> jstring \<Rightarrow> byte list \<Rightarrow> exn + abci_reply"
  n_status :: "ctrace \<Rightarrow> exn + jstring"
  n_direct :: bool
  n_accounts :: "ctrace \<Rightarrow> exn + signer_account list"
  n_signDirect :: "ctrace \<Rightarrow> jstring \<Rightarrow> sign_doc \<Rightarrow> exn + sign_doc \<times> jstring"
  n_signAmino :: "ctrace \<Rightarrow> jstring \<Rightarrow> exn + tx_raw"
  n_broadcast :: "ctrace \<Rightarrow> byte list \<Rightarrow> exn + sync_reply"
  n_search :: "ctrace \<Rightarrow> jstring \<Rightarrow> exn + found_tx list"
  n_timedOut :: "ctrace \<Rightarrow> bool"

record client_state =
  cl_chainId :: "jstring option"
  cl_tr :: ctrace

type_synonym 'a cproc = "(client_state, exn, 'a) proc"

definition cl_log :: "client_event \<Rightarrow> client_state \<Rightarrow> client_state" where
  "cl_log ev s = s\<lparr>cl_tr := cl_tr s @ [ev]\<rparr>"

definition ask :: "(ctrace \<Rightarrow> exn + 'a) \<Rightarrow> (exn + 'a \<Rightarrow> client_event) \<Rightarrow> 'a cproc" where
  "ask r ev = Act (\<lambda>s. cl_log (ev (r (cl_tr s))) s) (\<lambda>s. Finish (r (cl_tr s)))"

text \<open>A pure computation that may throw an Error with a message.\<close>

definition orThrow :: "jstring + 'a \<Rightarrow> 'a cproc" where
  "orThrow r = (case r of Inl m \<Rightarrow> throw (newError m) | Inr x \<Rightarrow> ret x)"

definition orRaise :: "exn + 'a \<Rightarrow> 'a cproc" where
  "orRaise r = (case r of Inl e \<Rightarrow> throw e | Inr x \<Rightarrow> ret x)"

section \<open>Queries\<close>

definition queryAbci :: "network \<Rightarrow> jstring \<Rightarrow> byte list \<Rightarrow> byte list cproc" where
  "queryAbci N path data =
     andThen (ask (\<lambda>h. n_abci N h path data) (AbciQuery path data)) (\<lambda>c.
     if abci_code c \<noteq> 0
     then throw (newError (lit ''Query failed with ('' @ numToString (Fin (of_int (abci_code c))) @ lit ''): '' @ abci_log c))
     else if abci_height c = 0 then throw (newError (lit ''No query height returned''))
     else ret (abci_value c))"

definition accountPath :: jstring where "accountPath = lit ''/cosmos.auth.v1beta1.Query/Account''"

definition accountRequest :: "jstring \<Rightarrow> byte list" where
  "accountRequest a = finish (QueryAccountRequest_encode a bcreate)"

text \<open>\<open>auth.account\<close>: no account in the response is \<open>null\<close>.\<close>

definition auth_account :: "network \<Rightarrow> jstring \<Rightarrow> any option cproc" where
  "auth_account N f =
     andThen (queryAbci N accountPath (accountRequest f)) (\<lambda>c. orRaise (decode_msg QueryAccountResponse_decode None c))"

definition getAccount :: "network \<Rightarrow> jstring \<Rightarrow> client_account option cproc" where
  "getAccount N a =
     catch (andThen (auth_account N a) (\<lambda>i.
            case i of None \<Rightarrow> ret None | Some x \<Rightarrow> andThen (orRaise (accountFromAny x)) (\<lambda>acc. ret (Some acc))))
       (\<lambda>i. if includesStr (map ascii_lower (ex_string i)) (lit ''rpc error: code = notfound'') then ret None else throw i)"

definition getSequence :: "network \<Rightarrow> jstring \<Rightarrow> chain_account cproc" where
  "getSequence N a =
     andThen (getAccount N a) (\<lambda>i.
     case i of
       None \<Rightarrow> throw (newError (lit ''Account '' @ 39 # a @ 39 #
                 lit '' does not exist on chain. Send some tokens there before trying to query sequence.''))
     | Some x \<Rightarrow> ret \<lparr>acc_accountNumber = account_number x, acc_sequence = account_sequence x\<rparr>)"

definition getChainId :: "network \<Rightarrow> jstring cproc" where
  "getChainId N =
     andThen (gets cl_chainId) (\<lambda>cached.
     case cached of
       Some c \<Rightarrow> ret c
     | None \<Rightarrow>
         andThen (ask (n_status N) QueryStatus) (\<lambda>i.
         if i = [] then throw (newError (lit ''Chain ID must not be empty''))
         else andThen (modify (\<lambda>s. s\<lparr>cl_chainId := Some i\<rparr>)) (\<lambda>_. ret i)))"

section \<open>The parts of a transaction\<close>

definition Int53_fromString :: "jstring \<Rightarrow> jstring + int" where
  "Int53_fromString t =
     (let minus = (t \<noteq> [] \<and> hd t = 45); ds = (if minus then tl t else t);
          v = (if minus then - dec_val ds else dec_val ds)
      in if ds = [] \<or> \<not> list_all is_digit ds then Inl (lit ''Invalid string format'')
         else if v < - (2 ^ 53 - 1) \<or> 2 ^ 53 - 1 < v then Inl (lit ''Input not in int53 range: '' @ numToString (toNumber t))
         else Inr v)"

text \<open>\<open>encodePubkey\<close> of a secp256k1 key, the only kind the client makes.\<close>

definition encodePubkey :: "jstring \<Rightarrow> jstring + any" where
  "encodePubkey value =
     (case fromBase64 value of
        Inl e \<Rightarrow> Inl e
      | Inr key \<Rightarrow> Inr \<lparr>any_typeUrl = url_PubKey, any_value = finish (PubKey_encode key bcreate)\<rparr>)"

text \<open>No caller builds an object whose value has the shape of another type, so that error has no text.\<close>

definition encodeAsAny :: "registry \<Rightarrow> encode_object \<Rightarrow> jstring + any" where
  "encodeAsAny reg t =
     (case registry_encode reg t of
        Inl (UnregisteredType u) \<Rightarrow> Inl (lit ''Unregistered type url: '' @ u)
      | Inl ShapeMismatch \<Rightarrow> Inl []
      | Inr bs \<Rightarrow> Inr \<lparr>any_typeUrl = typeUrl t, any_value = bs\<rparr>)"

definition encodeTxBody :: "registry \<Rightarrow> encode_object list \<Rightarrow> jstring \<Rightarrow> int option \<Rightarrow> jstring + byte list" where
  "encodeTxBody reg msgs memo timeoutHeight =
     (case map_sum_list (encodeAsAny reg) msgs of
        Inl e \<Rightarrow> Inl e
      | Inr anys \<Rightarrow>
          Inr (finish (TxBody_encode
            \<lparr>tb_messages = anys, tb_memo = memo, tb_timeoutHeight = (case timeoutHeight of Some n \<Rightarrow> n | None \<Rightarrow> 0),
             tb_extensionOptions = [], tb_nonCriticalExtensionOptions = []\<rparr> bcreate)))"

definition SIGN_MODE_DIRECT :: int where "SIGN_MODE_DIRECT = 1"

definition makeSignerInfos :: "(any \<times> int) list \<Rightarrow> int \<Rightarrow> signer_info list" where
  "makeSignerInfos signers signMode =
     map (\<lambda>(pubkey, sequence). \<lparr>si_publicKey = Some pubkey, si_modeInfo = Some \<lparr>mi_single = Some signMode\<rparr>, si_sequence = sequence\<rparr>)
       signers"

definition makeAuthInfo :: "(any \<times> int) list \<Rightarrow> coin list \<Rightarrow> int \<Rightarrow> jstring option \<Rightarrow> jstring option \<Rightarrow> int \<Rightarrow> auth_info" where
  "makeAuthInfo signers feeAmount gasLimit feeGranter feePayer signMode =
     \<lparr>ai_signerInfos = makeSignerInfos signers signMode, ai_fee = Some (Fee_fromPartial feeAmount gasLimit feeGranter feePayer)\<rparr>"

definition makeAuthInfoBytes :: "(any \<times> int) list \<Rightarrow> coin list \<Rightarrow> int \<Rightarrow> jstring option \<Rightarrow> jstring option \<Rightarrow> int \<Rightarrow> byte list" where
  "makeAuthInfoBytes signers feeAmount gasLimit feeGranter feePayer signMode =
     finish (AuthInfo_encode (makeAuthInfo signers feeAmount gasLimit feeGranter feePayer signMode) bcreate)"

definition makeSignDoc :: "byte list \<Rightarrow> byte list \<Rightarrow> jstring \<Rightarrow> int \<Rightarrow> sign_doc" where
  "makeSignDoc bodyBytes authInfoBytes chainId accountNumber =
     \<lparr>sd_bodyBytes = bodyBytes, sd_authInfoBytes = authInfoBytes, sd_chainId = chainId, sd_accountNumber = accountNumber\<rparr>"

definition makeSignBytes :: "sign_doc \<Rightarrow> byte list" where
  "makeSignBytes doc = finish (SignDoc_encode doc bcreate)"

section \<open>Signing\<close>

text \<open>The coins of a fee (\<open>calculateFee\<close> makes one) and the account the signer reports under an address.\<close>

definition fee_coins :: "std_fee \<Rightarrow> coin list" where
  "fee_coins fee = [\<lparr>coin_denom = fee_denom fee, coin_amt = fee_amount fee\<rparr>]"

definition signerAccount :: "network \<Rightarrow> jstring \<Rightarrow> signer_account cproc" where
  "signerAccount N a =
     andThen (ask (n_accounts N) SignerAccounts) (\<lambda>accounts.
     case find (\<lambda>x. sa_address x = a) accounts of
       None \<Rightarrow> throw (newError (lit ''Failed to retrieve account from signer''))
     | Some x \<Rightarrow> ret x)"

definition signDirect :: "network \<Rightarrow> registry \<Rightarrow> jstring \<Rightarrow> encode_object list \<Rightarrow> std_fee \<Rightarrow> jstring \<Rightarrow> chain_account \<Rightarrow> jstring \<Rightarrow> tx_raw cproc" where
  "signDirect N reg a msgs fee memo acc chainId =
     andThen (signerAccount N a) (\<lambda>x.
     andThen (orThrow (encodeSecp256k1Pubkey (sa_pubkey x))) (\<lambda>value.
     andThen (orThrow (encodePubkey value)) (\<lambda>pubkey.
     andThen (orThrow (encodeTxBody reg msgs memo None)) (\<lambda>body.
     andThen (orThrow (Int53_fromString (fee_gas fee))) (\<lambda>gasLimit.
     let auth = makeAuthInfoBytes [(pubkey, acc_sequence acc)] (fee_coins fee) gasLimit None None SIGN_MODE_DIRECT;
         doc = makeSignDoc body auth chainId (acc_accountNumber acc) in
     andThen (ask (\<lambda>h. n_signDirect N h a doc) (SignDirect a doc)) (\<lambda>(signed, signature).
     andThen (orThrow (fromBase64 signature)) (\<lambda>sig.
     ret \<lparr>raw_bodyBytes = sd_bodyBytes signed, raw_authInfoBytes = sd_authInfoBytes signed, raw_signatures = [sig]\<rparr>)))))))"

text \<open>The type URLs of \<open>createDefaultAminoConverters\<close>.\<close>

definition amino_urls :: "jstring list" where
  "amino_urls = map lit
     [''/cosmos.bank.v1beta1.MsgSend'', ''/cosmos.bank.v1beta1.MsgMultiSend'',
      ''/cosmos.distribution.v1beta1.MsgFundCommunityPool'', ''/cosmos.distribution.v1beta1.MsgSetWithdrawAddress'',
      ''/cosmos.distribution.v1beta1.MsgWithdrawDelegatorReward'', ''/cosmos.distribution.v1beta1.MsgWithdrawValidatorCommission'',
      ''/cosmos.gov.v1beta1.MsgDeposit'', ''/cosmos.gov.v1beta1.MsgVote'', ''/cosmos.gov.v1beta1.MsgVoteWeighted'',
      ''/cosmos.gov.v1beta1.MsgSubmitProposal'', ''/cosmos.staking.v1beta1.MsgBeginRedelegate'',
      ''/cosmos.staking.v1beta1.MsgCreateValidator'', ''/cosmos.staking.v1beta1.MsgDelegate'',
      ''/cosmos.staking.v1beta1.MsgEditValidator'', ''/cosmos.staking.v1beta1.MsgUndelegate'',
      ''/cosmos.staking.v1beta1.MsgCancelUnbondingDelegation'', ''/ibc.applications.transfer.v1.MsgTransfer'',
      ''/cosmos.vesting.v1beta1.MsgCreateVestingAccount'']"

definition toAmino_error :: "jstring \<Rightarrow> jstring" where
  "toAmino_error t =
     lit ''Type URL '' @ 39 # t @ 39 # lit '' does not exist in the Amino message type register. If you need support for this message type, you can pass in additional entries to the AminoTypes constructor. If you think this message type should be included by default, please open an issue at https://github.com/cosmos/cosmjs/issues.''"

definition signAmino :: "network \<Rightarrow> jstring \<Rightarrow> encode_object list \<Rightarrow> tx_raw cproc" where
  "signAmino N a msgs =
     andThen (signerAccount N a) (\<lambda>x.
     andThen (orThrow (encodeSecp256k1Pubkey (sa_pubkey x))) (\<lambda>value.
     andThen (orThrow (encodePubkey value)) (\<lambda>_.
     case find (\<lambda>m. typeUrl m \<notin> set amino_urls) msgs of
       Some m \<Rightarrow> throw (newError (toAmino_error (typeUrl m)))
     | None \<Rightarrow> ask (\<lambda>h. n_signAmino N h a) (SignAmino a))))"

definition sign :: "network \<Rightarrow> registry \<Rightarrow> jstring \<Rightarrow> encode_object list \<Rightarrow> std_fee \<Rightarrow> jstring \<Rightarrow> tx_raw cproc" where
  "sign N reg a msgs fee memo =
     andThen (getSequence N a) (\<lambda>acc.
     andThen (getChainId N) (\<lambda>chainId.
     if n_direct N then signDirect N reg a msgs fee memo acc chainId else signAmino N a msgs))"

section \<open>Broadcasting\<close>

definition hexDigit :: "int \<Rightarrow> unit16" where
  "hexDigit n = (if n < 10 then of_int (48 + n) else of_int (55 + n))"

definition toUpperHex :: "byte list \<Rightarrow> jstring" where
  "toUpperHex bs = concat (map (\<lambda>b. [hexDigit (uint b div 16), hexDigit (uint b mod 16)]) bs)"

definition broadcastTxSync :: "network \<Rightarrow> byte list \<Rightarrow> jstring cproc" where
  "broadcastTxSync N t =
     andThen (ask (\<lambda>h. n_broadcast N h t) (BroadcastTxSync t)) (\<lambda>i.
     if sync_code i \<noteq> 0
     then throw (newError (lit ''Broadcasting transaction failed with code '' @ numToString (Fin (of_int (sync_code i)))
            @ lit '' (codespace: '' @ sync_codespace i @ lit ''). Log: '' @ sync_log i))
     else ret (toUpperHex (sync_hash i)))"

definition getTx :: "network \<Rightarrow> jstring \<Rightarrow> found_tx option cproc" where
  "getTx N t =
     (let query = lit ''tx.hash='' @ 39 # t @ [39]
      in andThen (ask (\<lambda>h. n_search N h query) (TxSearch query)) (\<lambda>txs.
         ret (case txs of [] \<Rightarrow> None | x # _ \<Rightarrow> Some x)))"

definition timeoutError :: "nat \<Rightarrow> jstring \<Rightarrow> exn" where
  "timeoutError timeoutMs txId =
     newError (lit ''Transaction with ID '' @ txId @ lit '' was submitted but was not yet found on the chain. You might want to check later. There was a wait of ''
       @ numToString (Fin (of_nat timeoutMs / 1000)) @ lit '' seconds.'')"

partial_function (option) pollForTx ::
  "network \<Rightarrow> nat \<Rightarrow> nat \<Rightarrow> jstring \<Rightarrow> client_state \<Rightarrow> ((exn + tx_result) \<times> client_state) option" where
  "pollForTx N timeoutMs pollIntervalMs txId s =
     (if n_timedOut N (cl_tr s) then Some (Inl (timeoutError timeoutMs txId), s)
      else case run (andThen (modify (cl_log (Sleep pollIntervalMs))) (\<lambda>_. getTx N txId)) s of
        (Inl e, s') \<Rightarrow> Some (Inl e, s')
      | (Inr (Some tx), s') \<Rightarrow>
          Some (Inr \<lparr>tx_code = found_code tx, rawLog = found_log tx, transactionHash = txId\<rparr>, s')
      | (Inr None, s') \<Rightarrow> pollForTx N timeoutMs pollIntervalMs txId s')"

text \<open>\<open>signAndBroadcast\<close> up to the moment the node has answered, and the whole of it.\<close>

definition submit :: "network \<Rightarrow> registry \<Rightarrow> jstring \<Rightarrow> encode_object list \<Rightarrow> std_fee \<Rightarrow> jstring \<Rightarrow> nat \<Rightarrow> jstring cproc" where
  "submit N reg a msgs fee memo timeoutMs =
     andThen (sign N reg a msgs fee memo) (\<lambda>q.
     andThen (modify (cl_log (StartTimer timeoutMs))) (\<lambda>_.
     broadcastTxSync N (finish (TxRaw_encode q bcreate))))"

definition signAndBroadcast ::
  "network \<Rightarrow> registry \<Rightarrow> jstring \<Rightarrow> encode_object list \<Rightarrow> std_fee \<Rightarrow> jstring \<Rightarrow> client_state \<Rightarrow> ((exn + tx_result) \<times> client_state) option" where
  "signAndBroadcast N reg a msgs fee memo s =
     (case run (submit N reg a msgs fee memo 60000) s of
        (Inl e, s') \<Rightarrow> Some (Inl e, s')
      | (Inr txId, s') \<Rightarrow> pollForTx N 60000 3000 txId s')"

end
