(* ===== verification/TxSize.thy ===== *)
theory TxSize
  imports TxCodec
begin

text \<open>
  Sizes of transactions. A length prefix of the writer holds 32 bits, so the codecs of \<open>TxCodec\<close> are only right on
  parts shorter than 2 ^ 32 bytes. \<open>steady enc\<close>: an encoder adds a fixed number of bytes, its \<open>weight\<close>, to whatever the
  writer holds, and a part never weighs more than the whole. So it is enough that the transaction as a
  whole has less than 2 ^ 32 bytes: the contract \<open>sized_codec\<close> replaces the bounds on all parts by that one, and
  leaves the conditions on numbers (\<open>numbers_ok\<close>).
\<close>

section \<open>Weights\<close>

lemma length_write_at [simp]: "length (write_at buf i bs) = length buf"
  by (induction bs arbitrary: buf i) simp_all

lemma length_run_ops [simp]: "length (run_ops os i buf) = length buf"
  by (induction os arbitrary: i buf) auto

lemma length_finish: "length (finish w) = wlen w"
  by (simp add: finish_def)

definition weight :: "(bin_writer \<Rightarrow> bin_writer) \<Rightarrow> nat" where
  "weight enc = wlen (enc bcreate)"

definition steady :: "(bin_writer \<Rightarrow> bin_writer) \<Rightarrow> bool" where
  "steady enc \<longleftrightarrow> (\<forall>w. wlen (enc w) = wlen w + weight enc \<and> states (enc w) = states w)"

lemma small_weight: "small (finish (enc bcreate)) \<longleftrightarrow> weight enc < 2 ^ 32"
  by (simp add: small_def length_finish weight_def)

lemma steadyI:
  assumes "\<And>w. wlen (enc w) = wlen w + k" "\<And>w. states (enc w) = states w"
  shows "steady enc" "weight enc = k"
proof -
  show "weight enc = k" using assms(1) [of bcreate] by (simp add: weight_def bcreate_def)
  with assms show "steady enc" by (simp add: steady_def)
qed

lemma steady_id [simp]: "steady (\<lambda>w. w)" "weight (\<lambda>w. w) = 0"
  using steadyI [of "\<lambda>w. w" 0] by simp_all

lemma steady_comp:
  assumes "steady f" "steady g"
  shows "steady (\<lambda>w. g (f w))" "weight (\<lambda>w. g (f w)) = weight f + weight g"
  using steadyI [of "\<lambda>w. g (f w)" "weight f + weight g"] assms by (simp_all add: steady_def)

lemma steady_if [simp]:
  "steady (\<lambda>w. if c then f w else g w) \<longleftrightarrow> (if c then steady f else steady g)"
  "weight (\<lambda>w. if c then f w else g w) = (if c then weight f else weight g)"
  by simp_all

lemma steady_fold:
  assumes "\<And>x. steady (enc x)"
  shows "steady (fold enc xs)" "weight (fold enc xs) = sum_list (map (\<lambda>x. weight (enc x)) xs)"
proof -
  have "steady (fold enc xs) \<and> weight (fold enc xs) = sum_list (map (\<lambda>x. weight (enc x)) xs)"
  proof (induction xs)
    case Nil
    then show ?case by (simp add: id_def)
  next
    case (Cons x xs)
    then show ?case using steady_comp [OF assms, of "fold enc xs" x] by (simp add: comp_def)
  qed
  then show "steady (fold enc xs)" "weight (fold enc xs) = sum_list (map (\<lambda>x. weight (enc x)) xs)" by simp_all
qed

lemma steady_push: "steady (push bs n)" "weight (push bs n) = n"
  using steadyI [of "push bs n" n] by (simp_all add: push_def)

lemma steady_uint32: "steady (uint32 t)"
  using steady_push by (simp add: uint32_def)

lemma string_push:
  "string s = (if utf8_length s \<noteq> 0 then (\<lambda>w. push (utf8_write s) (utf8_length s) (uint32 (of_nat (utf8_length s)) w)) else push [0] 1)"
  by (rule ext) (simp add: string_def Let_def)

lemma steady_string: "steady (string s)" "utf8_length s \<le> weight (string s :: bin_writer \<Rightarrow> bin_writer)"
  using steady_comp [OF steady_uint32 steady_push(1)] steady_push by (simp_all add: string_push)

lemma bin_bytes_push:
  "bin_bytes t = (if t \<noteq> [] then (\<lambda>w. push t (length t) (uint32 (of_nat (length t)) w)) else push [0] 1)"
  by (rule ext) (simp add: bin_bytes_def Let_def)

lemma steady_bin_bytes: "steady (bin_bytes t)" "length t \<le> weight (bin_bytes t)"
  using steady_comp [OF steady_uint32 steady_push(1)] steady_push by (simp_all add: bin_bytes_push)

lemma steady_bytes: "steady (\<lambda>w. bin_bytes t (uint32 tag w))" "length t \<le> weight (\<lambda>w. bin_bytes t (uint32 tag w))"
  using steady_comp [OF steady_uint32 steady_bin_bytes(1)] steady_bin_bytes(2) [of t] by (simp_all add: trans_le_add2)

lemma steady_int: "steady (bin_int64 v)" "steady (bin_int32 v)"
  unfolding bin_int64_def [abs_def] bin_int32_def [abs_def] Let_def
  by (simp_all add: steady_push steady_uint32)

lemma steady_fields:
  "steady (str_field tag s)" "steady (bytes_field tag bs)" "steady (u64_field tag v)" "steady (ModeInfo_Single_encode v)"
  using steady_comp(1) [OF steady_uint32 steady_string(1)] steady_comp(1) [OF steady_uint32 steady_int(1)]
    steady_comp(1) [OF steady_uint32 steady_int(2)] steady_bytes(1)
  by (simp_all add: str_field_def [abs_def] bytes_field_def [abs_def] u64_field_def [abs_def] ModeInfo_Single_encode_def [abs_def])

lemma weight_fields:
  "utf8_length s \<le> weight (str_field tag s)" "length bs \<le> weight (bytes_field tag bs)"
  using steady_comp(2) [OF steady_uint32 steady_string(1)] steady_string(2) [of s] steady_bytes(2) [of bs tag]
  by (simp_all add: str_field_def [abs_def] bytes_field_def [abs_def] trans_le_add2)

lemma weight_nested:
  assumes "steady enc"
  shows "weight (nested tag enc) = weight (uint32 tag) + weight (uint32 (of_nat (weight enc))) + weight enc" (is "_ = ?k")
    "steady (nested tag enc)"
proof -
  have u: "wlen (uint32 t w) = wlen w + weight (uint32 t)" "states (uint32 t w) = states w" for t and w :: bin_writer
    using steady_uint32 [of t] by (simp_all add: steady_def)
  have e: "wlen (enc (fork v)) = weight enc" "states (enc (fork v)) = (ops v, wlen v) # states v" for v
    using assms by (simp_all add: steady_def fork_def)
  have r: "wlen (reset (enc (fork v))) = wlen v" "states (reset (enc (fork v))) = states v" for v
    using e(2) [of v] by (simp_all add: reset_def)
  have "wlen (nested tag enc w) = wlen w + ?k" "states (nested tag enc w) = states w" for w
    by (simp_all add: nested_def ldelim_def Let_def e r u)
  from steadyI [of "nested tag enc", OF this] show "weight (nested tag enc) = ?k" "steady (nested tag enc)" by simp_all
qed

lemma steady_nested:
  assumes "steady enc"
  shows "steady (nested tag enc)" "weight enc \<le> weight (nested tag enc)"
  using weight_nested [OF assms] by simp_all

lemma steady_nested_opt: "(\<And>m. steady (enc m)) \<Longrightarrow> steady (nested_opt tag enc x)"
  using steady_nested(1) by (cases x) (simp_all add: nested_opt_def [abs_def])

text \<open>From above: a field adds at most ten bytes to its content.\<close>

lemma wlen_ops [simp]:
  "wlen (push bs n w) = wlen w + n" "wlen (uint32 t w) = wlen w + varint32_len t"
  by (simp_all add: push_def uint32_def)

lemma varint32_len_le: "varint32_len t \<le> 5"
  by (simp add: varint32_len_def)

lemma weight_above:
  "weight (bytes_field tag bs) \<le> 10 + length bs" "weight (str_field tag s) \<le> 10 + utf8_length s"
  "steady enc \<Longrightarrow> weight (nested tag enc) \<le> 10 + weight enc"
proof -
  note v = varint32_len_le [of tag] varint32_len_le [of "of_nat (length bs)"] varint32_len_le [of "of_nat (utf8_length s)"]
    varint32_len_le [of "of_nat (weight enc)"]
  show "weight (bytes_field tag bs) \<le> 10 + length bs" "weight (str_field tag s) \<le> 10 + utf8_length s"
    using v by (simp_all add: weight_def bytes_field_def bin_bytes_def str_field_def string_def Let_def bcreate_def)
  show "weight (nested tag enc) \<le> 10 + weight enc" if "steady enc"
    using v weight_nested(1) [OF that, of tag] by (simp add: weight_def bcreate_def)
qed

section \<open>One bound for all parts\<close>

locale sized_codec = binary_codec encode fields_of step blank encodable
  for encode :: "'m \<Rightarrow> bin_writer \<Rightarrow> bin_writer" and fields_of step blank encodable +
  fixes numbers_ok :: "'m \<Rightarrow> bool"
  assumes encode_steady: "steady (encode m)"
    and small_encodable: "numbers_ok m \<Longrightarrow> weight (encode m) < 2 ^ 32 \<Longrightarrow> encodable m"
begin

lemma fits_small: "numbers_ok m \<Longrightarrow> weight (encode m) < 2 ^ 32 \<Longrightarrow> fits encode encodable m"
  by (simp add: fits_def small_encodable small_weight)

lemma decode_small:
  "numbers_ok m \<Longrightarrow> small (finish (encode m bcreate)) \<Longrightarrow> read_message step blank (finish (encode m bcreate)) = Some m"
  by (simp add: small_weight small_encodable decode_encode)

lemma steady_parts:
  "steady (fold (\<lambda>m. nested tag (encode m)) ms)" "steady (nested_opt tag encode x)"
  using steady_fold(1) [of "\<lambda>m. nested tag (encode m)"] steady_nested(1) steady_nested_opt encode_steady by blast+

lemma repeated_fit:
  assumes "list_all numbers_ok ms" "weight (fold (\<lambda>m. nested tag (encode m)) ms) < 2 ^ 32"
  shows "list_all (fits encode encodable) ms"
  unfolding list_all_iff
proof
  fix m assume m: "m \<in> set ms"
  have "weight (encode m) \<le> weight (nested tag (encode m))" by (rule steady_nested(2) [OF encode_steady])
  also have "\<dots> \<le> sum_list (map (\<lambda>m. weight (nested tag (encode m))) ms)" using m by (intro member_le_sum_list) auto
  also have "\<dots> < 2 ^ 32" using assms(2) steady_fold(2) [of "\<lambda>m. nested tag (encode m)" ms] steady_nested(1) encode_steady by simp
  finally show "fits encode encodable m" using assms(1) m by (auto simp: list_all_iff intro: fits_small)
qed

lemma optional_fit:
  assumes "pred_option numbers_ok x" "weight (nested_opt tag encode x) < 2 ^ 32"
  shows "fits_opt encode encodable x"
proof (cases x)
  case (Some m)
  have "weight (encode m) \<le> weight (nested tag (encode m))" by (rule steady_nested(2) [OF encode_steady])
  with assms Some show ?thesis by (auto simp: fits_opt_def nested_opt_def [abs_def] intro: fits_small)
qed (simp add: fits_opt_def)

end

interpretation any_size: sized_codec Any_encode any_fields any_step any_blank any_ok "\<lambda>_. True"
proof
  fix m :: any
  have e: "Any_encode m = (\<lambda>w. bytes_field 18 (any_value m) (str_field 10 (any_typeUrl m) w))" by (rule ext) (simp add: Any_encode_def)
  note c = steady_comp [OF steady_fields(1) [of 10 "any_typeUrl m"] steady_fields(2) [of 18 "any_value m"]]
  show "steady (Any_encode m)" using c by (simp add: e)
  show "any_ok m" if "weight (Any_encode m) < 2 ^ 32"
    using that c weight_fields(1) [of "any_typeUrl m" 10] weight_fields(2) [of "any_value m" 18]
    by (simp add: e any_ok_def short_def small_def)
qed

interpretation coin_size: sized_codec Coin_encode coin_fields coin_step coin_blank coin_ok "\<lambda>_. True"
proof
  fix m :: coin
  have e: "Coin_encode m = (\<lambda>w. str_field 18 (coin_amt m) (str_field 10 (coin_denom m) w))" by (rule ext) (simp add: Coin_encode_def)
  note c = steady_comp [OF steady_fields(1) [of 10 "coin_denom m"] steady_fields(1) [of 18 "coin_amt m"]]
  show "steady (Coin_encode m)" using c by (simp add: e)
  show "coin_ok m" if "weight (Coin_encode m) < 2 ^ 32"
    using that c weight_fields(1) [of "coin_denom m" 10] weight_fields(1) [of "coin_amt m" 18]
    by (simp add: e coin_ok_def short_def)
qed

interpretation fee_size: sized_codec Fee_encode fee_fields fee_step fee_blank fee_ok "\<lambda>m. u64_ok (tf_gasLimit m)"
proof
  fix m :: tx_fee
  let ?c = "fold (\<lambda>c. nested 10 (Coin_encode c)) (tf_amount m)"
  have e: "Fee_encode m = (\<lambda>w. str_field 34 (tf_granter m) (str_field 26 (tf_payer m) (u64_field 16 (tf_gasLimit m) (?c w))))"
    by (rule ext) (simp add: Fee_encode_def)
  note c1 = steady_comp [OF coin_size.steady_parts(1) [of 10 "tf_amount m"] steady_fields(3) [of 16 "tf_gasLimit m"]]
  note c2 = steady_comp [OF c1(1) steady_fields(1) [of 26 "tf_payer m"]]
  note c3 = steady_comp [OF c2(1) steady_fields(1) [of 34 "tf_granter m"]]
  show "steady (Fee_encode m)" using c3 by (simp add: e)
  assume n: "u64_ok (tf_gasLimit m)" and "weight (Fee_encode m) < 2 ^ 32"
  then have w: "weight ?c + weight (u64_field 16 (tf_gasLimit m)) + weight (str_field 26 (tf_payer m) :: bin_writer \<Rightarrow> bin_writer)
      + weight (str_field 34 (tf_granter m) :: bin_writer \<Rightarrow> bin_writer) < 2 ^ 32"
    by (simp only: e c1(2) c2(2) c3(2))
  have "list_all (fits Coin_encode coin_ok) (tf_amount m)" by (rule coin_size.repeated_fit [where tag = 10]) (use w in \<open>simp_all add: list_all_iff\<close>)
  with n w weight_fields(1) [of "tf_payer m" 26] weight_fields(1) [of "tf_granter m" 34] show "fee_ok m"
    by (simp add: fee_ok_def short_def)
qed

interpretation single_size: sized_codec ModeInfo_Single_encode single_fields single_step 0 single_ok single_ok
  by unfold_locales (simp_all add: steady_fields)

interpretation mode_size: sized_codec ModeInfo_encode mode_fields mode_step "\<lparr>mi_single = None\<rparr>" mode_ok
  "\<lambda>m. pred_option single_ok (mi_single m)"
proof
  fix m :: mode_info
  have e: "ModeInfo_encode m = nested_opt 10 ModeInfo_Single_encode (mi_single m)" by (rule ext) (simp add: ModeInfo_encode_def)
  show "steady (ModeInfo_encode m)" using single_size.steady_parts(2) by (simp add: e)
  show "mode_ok m" if "pred_option single_ok (mi_single m)" "weight (ModeInfo_encode m) < 2 ^ 32"
    using single_size.optional_fit [of "mi_single m" 10] that by (simp add: e mode_ok_def)
qed

definition signer_numbers :: "signer_info \<Rightarrow> bool" where
  "signer_numbers m \<longleftrightarrow> u64_ok (si_sequence m) \<and> pred_option (\<lambda>i. pred_option single_ok (mi_single i)) (si_modeInfo m)"

interpretation signer_size: sized_codec SignerInfo_encode signer_fields signer_step signer_blank signer_ok signer_numbers
proof
  fix m :: signer_info
  let ?k = "nested_opt 10 Any_encode (si_publicKey m)" and ?i = "nested_opt 18 ModeInfo_encode (si_modeInfo m)"
  have e: "SignerInfo_encode m = (\<lambda>w. u64_field 24 (si_sequence m) (?i (?k w)))" by (rule ext) (simp add: SignerInfo_encode_def)
  note c1 = steady_comp [OF any_size.steady_parts(2) [of 10 "si_publicKey m"] mode_size.steady_parts(2) [of 18 "si_modeInfo m"]]
  note c2 = steady_comp [OF c1(1) steady_fields(3) [of 24 "si_sequence m"]]
  show "steady (SignerInfo_encode m)" using c2 by (simp add: e)
  assume n: "signer_numbers m" and "weight (SignerInfo_encode m) < 2 ^ 32"
  then have w: "weight ?k + weight ?i + weight (u64_field 24 (si_sequence m)) < 2 ^ 32" by (simp only: e c1(2) c2(2))
  have "fits_opt Any_encode any_ok (si_publicKey m)"
    by (rule any_size.optional_fit [where tag = 10]) (use w in \<open>simp_all add: pred_option_def\<close>)
  moreover have "fits_opt ModeInfo_encode mode_ok (si_modeInfo m)"
    by (rule mode_size.optional_fit [where tag = 18]) (use w n in \<open>simp_all add: signer_numbers_def\<close>)
  ultimately show "signer_ok m" using n by (simp add: signer_ok_def signer_numbers_def)
qed

definition auth_numbers :: "auth_info \<Rightarrow> bool" where
  "auth_numbers m \<longleftrightarrow> list_all signer_numbers (ai_signerInfos m) \<and> pred_option (\<lambda>f. u64_ok (tf_gasLimit f)) (ai_fee m)"

interpretation auth_size: sized_codec AuthInfo_encode auth_fields auth_step auth_blank auth_ok auth_numbers
proof
  fix m :: auth_info
  let ?s = "fold (\<lambda>i. nested 10 (SignerInfo_encode i)) (ai_signerInfos m)" and ?f = "nested_opt 18 Fee_encode (ai_fee m)"
  have e: "AuthInfo_encode m = (\<lambda>w. ?f (?s w))" by (rule ext) (simp add: AuthInfo_encode_def)
  note c = steady_comp [OF signer_size.steady_parts(1) [of 10 "ai_signerInfos m"] fee_size.steady_parts(2) [of 18 "ai_fee m"]]
  show "steady (AuthInfo_encode m)" using c by (simp add: e)
  assume n: "auth_numbers m" and "weight (AuthInfo_encode m) < 2 ^ 32"
  then have w: "weight ?s + weight ?f < 2 ^ 32" by (simp only: e c(2))
  have "list_all (fits SignerInfo_encode signer_ok) (ai_signerInfos m)"
    by (rule signer_size.repeated_fit [where tag = 10]) (use w n in \<open>simp_all add: auth_numbers_def\<close>)
  moreover have "fits_opt Fee_encode fee_ok (ai_fee m)"
    by (rule fee_size.optional_fit [where tag = 18]) (use w n in \<open>simp_all add: auth_numbers_def\<close>)
  ultimately show "auth_ok m" by (simp add: auth_ok_def)
qed

interpretation body_size: sized_codec TxBody_encode body_fields body_step body_blank body_ok "\<lambda>m. u64_ok (tb_timeoutHeight m)"
proof
  fix m :: tx_body
  let ?a = "\<lambda>t as. fold (\<lambda>a. nested t (Any_encode a)) as"
  let ?m = "?a 10 (tb_messages m)" and ?x = "?a 8186 (tb_extensionOptions m)" and ?y = "?a 16378 (tb_nonCriticalExtensionOptions m)"
  have e: "TxBody_encode m = (\<lambda>w. ?y (?x (u64_field 24 (tb_timeoutHeight m) (str_field 18 (tb_memo m) (?m w)))))"
    by (rule ext) (simp add: TxBody_encode_def)
  note c1 = steady_comp [OF any_size.steady_parts(1) [of 10 "tb_messages m"] steady_fields(1) [of 18 "tb_memo m"]]
  note c2 = steady_comp [OF c1(1) steady_fields(3) [of 24 "tb_timeoutHeight m"]]
  note c3 = steady_comp [OF c2(1) any_size.steady_parts(1) [of 8186 "tb_extensionOptions m"]]
  note c4 = steady_comp [OF c3(1) any_size.steady_parts(1) [of 16378 "tb_nonCriticalExtensionOptions m"]]
  show "steady (TxBody_encode m)" using c4 by (simp add: e)
  assume n: "u64_ok (tb_timeoutHeight m)" and "weight (TxBody_encode m) < 2 ^ 32"
  then have w: "weight ?m + weight (str_field 18 (tb_memo m) :: bin_writer \<Rightarrow> bin_writer) + weight (u64_field 24 (tb_timeoutHeight m))
      + weight ?x + weight ?y < 2 ^ 32" by (simp only: e c1(2) c2(2) c3(2) c4(2))
  have "list_all (fits Any_encode any_ok) (tb_messages m)"
    by (rule any_size.repeated_fit [where tag = 10]) (use w in \<open>simp_all add: list_all_iff\<close>)
  moreover have "list_all (fits Any_encode any_ok) (tb_extensionOptions m)"
    by (rule any_size.repeated_fit [where tag = 8186]) (use w in \<open>simp_all add: list_all_iff\<close>)
  moreover have "list_all (fits Any_encode any_ok) (tb_nonCriticalExtensionOptions m)"
    by (rule any_size.repeated_fit [where tag = 16378]) (use w in \<open>simp_all add: list_all_iff\<close>)
  ultimately show "body_ok m" using n w weight_fields(1) [of "tb_memo m" 18] by (simp add: body_ok_def short_def)
qed

interpretation doc_size: sized_codec SignDoc_encode doc_fields doc_step doc_blank doc_ok "\<lambda>m. u64_ok (sd_accountNumber m)"
proof
  fix m :: sign_doc
  have e: "SignDoc_encode m = (\<lambda>w. u64_field 32 (sd_accountNumber m) (str_field 26 (sd_chainId m)
      (bytes_field 18 (sd_authInfoBytes m) (bytes_field 10 (sd_bodyBytes m) w))))" by (rule ext) (simp add: SignDoc_encode_def)
  note c1 = steady_comp [OF steady_fields(2) [of 10 "sd_bodyBytes m"] steady_fields(2) [of 18 "sd_authInfoBytes m"]]
  note c2 = steady_comp [OF c1(1) steady_fields(1) [of 26 "sd_chainId m"]]
  note c3 = steady_comp [OF c2(1) steady_fields(3) [of 32 "sd_accountNumber m"]]
  show "steady (SignDoc_encode m)" using c3 by (simp add: e)
  show "doc_ok m" if "u64_ok (sd_accountNumber m)" "weight (SignDoc_encode m) < 2 ^ 32"
    using that c1(2) c2(2) c3(2) weight_fields(2) [of "sd_bodyBytes m" 10] weight_fields(2) [of "sd_authInfoBytes m" 18]
      weight_fields(1) [of "sd_chainId m" 26]
    by (simp add: e doc_ok_def short_def small_def)
qed

interpretation raw_size: sized_codec TxRaw_encode raw_fields raw_step raw_blank raw_ok "\<lambda>_. True"
proof
  fix m :: tx_raw
  let ?s = "fold (\<lambda>s w. bin_bytes s (uint32 26 w)) (raw_signatures m)"
  have e: "TxRaw_encode m = (\<lambda>w. ?s (bytes_field 18 (raw_authInfoBytes m) (bytes_field 10 (raw_bodyBytes m) w)))"
    by (rule ext) (simp add: TxRaw_encode_def)
  note c1 = steady_comp [OF steady_fields(2) [of 10 "raw_bodyBytes m"] steady_fields(2) [of 18 "raw_authInfoBytes m"]]
  note s = steady_fold [of "\<lambda>s w. bin_bytes s (uint32 26 w)" "raw_signatures m", OF steady_bytes(1)]
  note c2 = steady_comp [OF c1(1) s(1)]
  show "steady (TxRaw_encode m)" using c2 by (simp add: e)
  assume "weight (TxRaw_encode m) < 2 ^ 32"
  then have w: "weight (bytes_field 10 (raw_bodyBytes m)) + weight (bytes_field 18 (raw_authInfoBytes m)) + weight ?s < 2 ^ 32"
    by (simp only: e c1(2) c2(2))
  have "small x" if "x \<in> set (raw_signatures m)" for x
  proof -
    have "length x \<le> weight (\<lambda>w. bin_bytes x (uint32 26 w))" by (rule steady_bytes(2))
    also have "\<dots> \<le> weight ?s" unfolding s(2) using that by (intro member_le_sum_list) auto
    also have "\<dots> < 2 ^ 32" using w by linarith
    finally show ?thesis by (simp add: small_def)
  qed
  with w weight_fields(2) [of "raw_bodyBytes m" 10] weight_fields(2) [of "raw_authInfoBytes m" 18] show "raw_ok m"
    by (simp add: raw_ok_def small_def list_all_iff)
qed

end
