(* ===== verification/AccountFacts.thy ===== *)
theory AccountFacts
  imports Accounts
begin

text \<open>
  What the chain encodes is what the client reads: the canonical bytes of the six account types, decoded to the account
  they hold.
\<close>

section \<open>Fields of a message\<close>

definition omfield :: "int \<Rightarrow> ('m \<Rightarrow> (int \<times> wire) list) \<Rightarrow> 'm option \<Rightarrow> (int \<times> wire) list" where
  "omfield n fs x = (case x of None \<Rightarrow> [] | Some m \<Rightarrow> [(n, WBytes (wire_bytes (fs m)))])"

definition rmfield :: "int \<Rightarrow> ('m \<Rightarrow> (int \<times> wire) list) \<Rightarrow> 'm list \<Rightarrow> (int \<times> wire) list" where
  "rmfield n fs xs = map (\<lambda>m. (n, WBytes (wire_bytes (fs m)))) xs"

definition field_no :: "int \<Rightarrow> bool" where
  "field_no n \<longleftrightarrow> 0 < n \<and> n < 536870912"

lemma steps_one:
  assumes "onward step" "wire_ok (n, w)" "step (of_int (wire_key (n, w))) m = mapRead g r" "reads r (wire_payload w) x"
  shows "steps step m (wire_bytes [(n, w)]) (g x)"
  using steps_field [OF assms(1,2), of m "g x"] assms(3,4) by (simp add: reads_mapRead)

lemma steps_str:
  assumes "onward step" "field_no n" "step (of_int (n * 8 + 2)) m = mapRead g r_string" "readable_str s"
    and "s = [] \<Longrightarrow> g [] = m"
  shows "steps step m (wire_bytes (sfield n s)) (g s)"
proof (cases "s = []")
  case True
  then show ?thesis using assms(5) steps_Nil [of step m] by (simp add: sfield_def)
next
  case False
  have "small (utf8_write s)" using assms(4) by (simp add: readable_str_def short_def small_def utf8_length_correct)
  then show ?thesis using False steps_one [OF assms(1) _ _ reads_string [OF assms(4)]] assms(2,3)
    by (simp add: sfield_def field_no_def)
qed

lemma steps_bytes:
  assumes "onward step" "field_no n" "step (of_int (n * 8 + 2)) m = mapRead g r_bytes" "small b"
    and "b = [] \<Longrightarrow> g [] = m"
  shows "steps step m (wire_bytes (bfield n b)) (g b)"
proof (cases "b = []")
  case True
  then show ?thesis using assms(5) steps_Nil [of step m] by (simp add: bfield_def)
next
  case False
  then show ?thesis using steps_one [OF assms(1) _ _ reads_bytes [OF assms(4)]] assms(2,3,4)
    by (simp add: bfield_def field_no_def)
qed

definition u64 :: "int \<Rightarrow> bool" where
  "u64 v \<longleftrightarrow> 0 \<le> v \<and> v < 18446744073709551616"

lemma steps_uint64:
  assumes "onward step" "field_no n" "step (of_int (n * 8)) m = mapRead g r_uint64" "u64 v"
    and "v = 0 \<Longrightarrow> g 0 = m"
  shows "steps step m (wire_bytes (ifield n v)) (g v)"
proof (cases "v = 0")
  case True
  then show ?thesis using assms(5) steps_Nil [of step m] by (simp add: ifield_def)
next
  case False
  then show ?thesis using steps_one [OF assms(1), of n "WVarint v" m g r_uint64 v] reads_uint64 [of v] assms(2,3,4)
    by (simp add: ifield_def field_no_def u64_def)
qed

text \<open>A signed number is encoded as its two's complement.\<close>

definition s64 :: "int \<Rightarrow> bool" where
  "s64 v \<longleftrightarrow> - 9223372036854775808 \<le> v \<and> v < 9223372036854775808"

definition sfixed :: "int \<Rightarrow> int \<Rightarrow> (int \<times> wire) list" where
  "sfixed n v = ifield n (v mod 18446744073709551616)"

lemma signed64_mod: "s64 v \<Longrightarrow> signed64 (v mod 18446744073709551616) = v"
proof (cases "0 \<le> v")
  case False
  assume "s64 v"
  with False have "v mod 18446744073709551616 = v + 18446744073709551616"
    using mod_add_self2 [of v 18446744073709551616] by (simp add: s64_def mod_pos_pos_trivial del: mod_add_self2)
  with False \<open>s64 v\<close> show ?thesis by (simp add: signed64_def s64_def)
qed (simp add: signed64_def s64_def)

lemma steps_int64:
  assumes "onward step" "field_no n" "step (of_int (n * 8)) m = mapRead g r_int64" "s64 v"
    and "v = 0 \<Longrightarrow> g 0 = m"
  shows "steps step m (wire_bytes (sfixed n v)) (g v)"
proof -
  define u where "u = v mod 18446744073709551616"
  have u: "0 \<le> u" "u < 18446744073709551616" "signed64 u = v" using signed64_mod [OF assms(4)] by (simp_all add: u_def)
  show ?thesis
  proof (cases "u = 0")
    case True
    then have "v = 0" using u(3) by (simp add: signed64_def)
    then show ?thesis using assms(5) steps_Nil [of step m] by (simp add: sfixed_def ifield_def)
  next
    case False
    then show ?thesis using steps_one [OF assms(1), of n "WVarint u" m g r_int64 v] reads_int64 [OF u(1,2)] assms(2,3) u
      by (simp add: sfixed_def ifield_def field_no_def flip: u_def)
  qed
qed

text \<open>A message that is read back, and that fits a length-delimited field.\<close>

definition deliverable :: "('m \<Rightarrow> bool) \<Rightarrow> ('m \<Rightarrow> (int \<times> wire) list) \<Rightarrow> 'm \<Rightarrow> bool" where
  "deliverable ok fs m \<longleftrightarrow> ok m \<and> small (wire_bytes (fs m))"

context wire_decoder
begin

lemma steps_msg:
  assumes "onward outer" "field_no n" "outer (of_int (n * 8 + 2)) c = mapRead g (decode_sub step blank)"
    and "deliverable readable fields_of a"
  shows "steps outer c (wire_bytes [(n, WBytes (wire_bytes (fields_of a)))]) (g a)"
proof -
  have a: "readable a" "small (wire_bytes (fields_of a))" using assms(4) by (simp_all add: deliverable_def)
  from steps_one [OF assms(1) _ _ decode_nested [OF a]] assms(2,3) a(2) show ?thesis by (simp add: field_no_def)
qed

lemma steps_msgs:
  assumes "onward outer" "field_no n" "\<And>c. outer (of_int (n * 8 + 2)) c = mapRead (put c) (decode_sub step blank)"
  shows "list_all (deliverable readable fields_of) as \<Longrightarrow> fold (\<lambda>a c. put c a) as c = c' \<Longrightarrow>
    steps outer c (wire_bytes (rmfield n fields_of as)) c'"
proof (induction as arbitrary: c)
  case Nil
  then show ?case using steps_Nil [of outer c] by (simp add: rmfield_def)
next
  case (Cons a as)
  have "steps outer c (wire_bytes [(n, WBytes (wire_bytes (fields_of a)))]) (put c a)"
    using Cons.prems by (intro steps_msg assms) simp_all
  from steps_append [OF this Cons.IH] Cons.prems show ?case by (simp add: rmfield_def)
qed

end

section \<open>Any, coins and keys\<close>

lemma onward_decoders [simp]:
  "onward Any_decode" "onward Coin_decode" "onward PubKey_decode" "onward LegacyAminoPubKey_decode" "onward BaseAccount_decode"
  "onward ModuleAccount_decode" "onward BaseVestingAccount_decode" "onward ContinuousVestingAccount_decode"
  "onward DelayedVestingAccount_decode" "onward Period_decode" "onward PeriodicVestingAccount_decode" "onward QueryAccountResponse_decode"
  by (simp_all add: onward_def forward_decoders)

definition any_readable :: "any \<Rightarrow> bool" where
  "any_readable m \<longleftrightarrow> readable_str (any_typeUrl m) \<and> small (any_value m)"

interpretation any_r: wire_decoder Any_decode any_blank any_fields any_readable
proof
  show "steps Any_decode any_blank (wire_bytes (any_fields m)) m" if "any_readable m" for m
  proof -
    have "steps Any_decode any_blank (wire_bytes (sfield 1 (any_typeUrl m))) (any_blank\<lparr>any_typeUrl := any_typeUrl m\<rparr>)"
      by (rule steps_str [OF onward_decoders(1)]) (use that in \<open>simp_all add: field_no_def Any_decode_def any_readable_def any_blank_def\<close>)
    moreover have "steps Any_decode (any_blank\<lparr>any_typeUrl := any_typeUrl m\<rparr>) (wire_bytes (bfield 2 (any_value m)))
        (any_blank\<lparr>any_typeUrl := any_typeUrl m, any_value := any_value m\<rparr>)"
      by (rule steps_bytes [OF onward_decoders(1)]) (use that in \<open>simp_all add: field_no_def Any_decode_def any_readable_def any_blank_def\<close>)
    moreover have "any_blank\<lparr>any_typeUrl := any_typeUrl m, any_value := any_value m\<rparr> = m" by (simp add: any_blank_def)
    ultimately show ?thesis unfolding any_fields_def wire_bytes_simps by (metis steps_append)
  qed
qed simp

definition coin_readable :: "coin \<Rightarrow> bool" where
  "coin_readable m \<longleftrightarrow> readable_str (coin_denom m) \<and> readable_str (coin_amt m)"

interpretation coin_r: wire_decoder Coin_decode coin_blank coin_fields coin_readable
proof
  show "steps Coin_decode coin_blank (wire_bytes (coin_fields m)) m" if "coin_readable m" for m
  proof -
    have "steps Coin_decode coin_blank (wire_bytes (sfield 1 (coin_denom m))) (coin_blank\<lparr>coin_denom := coin_denom m\<rparr>)"
      by (rule steps_str [OF onward_decoders(2)]) (use that in \<open>simp_all add: field_no_def Coin_decode_def coin_readable_def coin_blank_def\<close>)
    moreover have "steps Coin_decode (coin_blank\<lparr>coin_denom := coin_denom m\<rparr>) (wire_bytes (sfield 2 (coin_amt m)))
        (coin_blank\<lparr>coin_denom := coin_denom m, coin_amt := coin_amt m\<rparr>)"
      by (rule steps_str [OF onward_decoders(2)]) (use that in \<open>simp_all add: field_no_def Coin_decode_def coin_readable_def coin_blank_def\<close>)
    moreover have "coin_blank\<lparr>coin_denom := coin_denom m, coin_amt := coin_amt m\<rparr> = m" by (simp add: coin_blank_def)
    ultimately show ?thesis unfolding coin_fields_def wire_bytes_simps by (metis steps_append)
  qed
qed simp

lemma mapRead_id: "mapRead (\<lambda>x. x) m = m"
  by (intro ext) (simp add: mapRead_def andRead_def retRead_def split: sum.split)

interpretation key_r: wire_decoder PubKey_decode "[]" pubkey_fields small
proof
  show "steps PubKey_decode [] (wire_bytes (pubkey_fields m)) m" if "small m" for m
    unfolding pubkey_fields_def
    by (rule steps_bytes [OF onward_decoders(3), of 1 "[]" "\<lambda>x. x" m]) (use that in \<open>simp_all add: field_no_def PubKey_decode_def mapRead_id\<close>)
qed simp

section \<open>The base account\<close>

definition base_account_fields :: "base_account \<Rightarrow> (int \<times> wire) list" where
  "base_account_fields m =
     ((sfield 1 (ba_address m) @ omfield 2 any_fields (ba_pubKey m)) @ ifield 3 (ba_accountNumber m)) @ ifield 4 (ba_sequence m)"

definition base_account_readable :: "base_account \<Rightarrow> bool" where
  "base_account_readable m \<longleftrightarrow> readable_str (ba_address m) \<and> u64 (ba_accountNumber m) \<and> u64 (ba_sequence m)
     \<and> pred_option (deliverable any_readable any_fields) (ba_pubKey m)"

context wire_decoder
begin

lemma steps_opt:
  assumes "onward outer" "field_no n" "outer (of_int (n * 8 + 2)) c = mapRead (\<lambda>x. g (Some x)) (decode_sub step blank)"
    and "pred_option (deliverable readable fields_of) x" "x = None \<Longrightarrow> g None = c"
  shows "steps outer c (wire_bytes (omfield n fields_of x)) (g x)"
proof (cases x)
  case None
  then show ?thesis using assms(5) steps_Nil [of outer c] by (simp add: omfield_def)
next
  case (Some a)
  then show ?thesis using steps_msg [OF assms(1-3)] assms(4) by (simp add: omfield_def)
qed

end

interpretation base_r: wire_decoder BaseAccount_decode base_account_blank base_account_fields base_account_readable
proof
  show "steps BaseAccount_decode base_account_blank (wire_bytes (base_account_fields m)) m" if ok: "base_account_readable m" for m
  proof -
    let ?b0 = base_account_blank and ?b1 = "base_account_blank\<lparr>ba_address := ba_address m\<rparr>"
    let ?b2 = "?b1\<lparr>ba_pubKey := ba_pubKey m\<rparr>"
    let ?b3 = "?b2\<lparr>ba_accountNumber := ba_accountNumber m\<rparr>"
    note defs = field_no_def BaseAccount_decode_def base_account_readable_def base_account_blank_def
    have "steps BaseAccount_decode ?b0 (wire_bytes (sfield 1 (ba_address m))) ?b1"
      by (rule steps_str [OF onward_decoders(5)]) (use ok in \<open>simp_all add: defs\<close>)
    moreover have "steps BaseAccount_decode ?b1 (wire_bytes (omfield 2 any_fields (ba_pubKey m))) ?b2"
      by (rule any_r.steps_opt [OF onward_decoders(5)]) (use ok in \<open>simp_all add: defs\<close>)
    moreover have "steps BaseAccount_decode ?b2 (wire_bytes (ifield 3 (ba_accountNumber m))) ?b3"
      by (rule steps_uint64 [OF onward_decoders(5)]) (use ok in \<open>simp_all add: defs\<close>)
    moreover have "steps BaseAccount_decode ?b3 (wire_bytes (ifield 4 (ba_sequence m))) (?b3\<lparr>ba_sequence := ba_sequence m\<rparr>)"
      by (rule steps_uint64 [OF onward_decoders(5)]) (use ok in \<open>simp_all add: defs\<close>)
    moreover have "?b3\<lparr>ba_sequence := ba_sequence m\<rparr> = m" by (simp add: base_account_blank_def)
    ultimately show ?thesis unfolding base_account_fields_def wire_bytes_simps by (metis steps_append)
  qed
qed simp

section \<open>Module accounts\<close>

definition module_account_fields :: "module_account \<Rightarrow> (int \<times> wire) list" where
  "module_account_fields m =
     (omfield 1 base_account_fields (ma_baseAccount m) @ sfield 2 (ma_name m)) @ map (\<lambda>s. (3, WBytes (utf8_write s))) (ma_permissions m)"

definition module_account_readable :: "module_account \<Rightarrow> bool" where
  "module_account_readable m \<longleftrightarrow> pred_option (deliverable base_account_readable base_account_fields) (ma_baseAccount m) \<and> readable_str (ma_name m)
     \<and> list_all readable_str (ma_permissions m)"

lemma steps_permissions:
  "list_all readable_str xs \<Longrightarrow>
   steps ModuleAccount_decode c (wire_bytes (map (\<lambda>s. (3, WBytes (utf8_write s))) xs)) (c\<lparr>ma_permissions := ma_permissions c @ xs\<rparr>)"
proof (induction xs arbitrary: c)
  case Nil
  then show ?case by (simp add: steps_Nil)
next
  case (Cons x xs)
  have "small (utf8_write x)" using Cons.prems by (simp add: readable_str_def short_def small_def utf8_length_correct)
  then have "steps ModuleAccount_decode c (wire_bytes [(3, WBytes (utf8_write x))]) (c\<lparr>ma_permissions := ma_permissions c @ [x]\<rparr>)"
    using Cons.prems by (intro steps_one [OF onward_decoders(6), where r = r_string] reads_string) (simp_all add: ModuleAccount_decode_def)
  from steps_append [OF this Cons.IH] Cons.prems show ?case by simp
qed

interpretation module_r: wire_decoder ModuleAccount_decode module_account_blank module_account_fields module_account_readable
proof
  show "steps ModuleAccount_decode module_account_blank (wire_bytes (module_account_fields m)) m"
    if ok: "module_account_readable m" for m
  proof -
    let ?b1 = "module_account_blank\<lparr>ma_baseAccount := ma_baseAccount m\<rparr>"
    let ?b2 = "?b1\<lparr>ma_name := ma_name m\<rparr>"
    note defs = field_no_def ModuleAccount_decode_def module_account_readable_def module_account_blank_def
    have "steps ModuleAccount_decode module_account_blank (wire_bytes (omfield 1 base_account_fields (ma_baseAccount m))) ?b1"
      by (rule base_r.steps_opt [OF onward_decoders(6)]) (use ok in \<open>simp_all add: defs\<close>)
    moreover have "steps ModuleAccount_decode ?b1 (wire_bytes (sfield 2 (ma_name m))) ?b2"
      by (rule steps_str [OF onward_decoders(6)]) (use ok in \<open>simp_all add: defs\<close>)
    moreover have "steps ModuleAccount_decode ?b2 (wire_bytes (map (\<lambda>s. (3, WBytes (utf8_write s))) (ma_permissions m)))
        (?b2\<lparr>ma_permissions := ma_permissions ?b2 @ ma_permissions m\<rparr>)"
      using ok by (intro steps_permissions) (simp add: module_account_readable_def)
    moreover have "?b2\<lparr>ma_permissions := ma_permissions ?b2 @ ma_permissions m\<rparr> = m" by (simp add: module_account_blank_def)
    ultimately show ?thesis unfolding module_account_fields_def wire_bytes_simps by (metis steps_append)
  qed
qed simp

section \<open>Vesting accounts\<close>

lemma fold_bv_originalVesting: "fold (\<lambda>x c. c\<lparr>bv_originalVesting := bv_originalVesting c @ [x]\<rparr>) xs v = v\<lparr>bv_originalVesting := bv_originalVesting v @ xs\<rparr>"
  by (induction xs arbitrary: v) simp_all

lemma fold_bv_delegatedFree: "fold (\<lambda>x c. c\<lparr>bv_delegatedFree := bv_delegatedFree c @ [x]\<rparr>) xs v = v\<lparr>bv_delegatedFree := bv_delegatedFree v @ xs\<rparr>"
  by (induction xs arbitrary: v) simp_all

lemma fold_bv_delegatedVesting: "fold (\<lambda>x c. c\<lparr>bv_delegatedVesting := bv_delegatedVesting c @ [x]\<rparr>) xs v = v\<lparr>bv_delegatedVesting := bv_delegatedVesting v @ xs\<rparr>"
  by (induction xs arbitrary: v) simp_all

lemma fold_pd_amount: "fold (\<lambda>x c. c\<lparr>pd_amount := pd_amount c @ [x]\<rparr>) xs v = v\<lparr>pd_amount := pd_amount v @ xs\<rparr>"
  by (induction xs arbitrary: v) simp_all

lemma fold_pv_vestingPeriods: "fold (\<lambda>x c. c\<lparr>pv_vestingPeriods := pv_vestingPeriods c @ [x]\<rparr>) xs v = v\<lparr>pv_vestingPeriods := pv_vestingPeriods v @ xs\<rparr>"
  by (induction xs arbitrary: v) simp_all

lemmas fold_put = fold_bv_originalVesting fold_bv_delegatedFree fold_bv_delegatedVesting fold_pd_amount fold_pv_vestingPeriods

definition base_vesting_fields :: "base_vesting \<Rightarrow> (int \<times> wire) list" where
  "base_vesting_fields m =
     (((omfield 1 base_account_fields (bv_baseAccount m) @ rmfield 2 coin_fields (bv_originalVesting m))
       @ rmfield 3 coin_fields (bv_delegatedFree m)) @ rmfield 4 coin_fields (bv_delegatedVesting m)) @ sfixed 5 (bv_endTime m)"

abbreviation coins_readable :: "coin list \<Rightarrow> bool" where
  "coins_readable \<equiv> list_all (deliverable coin_readable coin_fields)"

definition base_vesting_readable :: "base_vesting \<Rightarrow> bool" where
  "base_vesting_readable m \<longleftrightarrow> pred_option (deliverable base_account_readable base_account_fields) (bv_baseAccount m)
     \<and> coins_readable (bv_originalVesting m) \<and> coins_readable (bv_delegatedFree m) \<and> coins_readable (bv_delegatedVesting m) \<and> s64 (bv_endTime m)"

interpretation vesting_r: wire_decoder BaseVestingAccount_decode base_vesting_blank base_vesting_fields base_vesting_readable
proof
  show "steps BaseVestingAccount_decode base_vesting_blank (wire_bytes (base_vesting_fields m)) m"
    if ok: "base_vesting_readable m" for m
  proof -
    let ?D = BaseVestingAccount_decode
    let ?b1 = "base_vesting_blank\<lparr>bv_baseAccount := bv_baseAccount m\<rparr>"
    let ?b2 = "?b1\<lparr>bv_originalVesting := bv_originalVesting ?b1 @ bv_originalVesting m\<rparr>"
    let ?b3 = "?b2\<lparr>bv_delegatedFree := bv_delegatedFree ?b2 @ bv_delegatedFree m\<rparr>"
    let ?b4 = "?b3\<lparr>bv_delegatedVesting := bv_delegatedVesting ?b3 @ bv_delegatedVesting m\<rparr>"
    note defs = field_no_def BaseVestingAccount_decode_def base_vesting_readable_def base_vesting_blank_def
    have s1: "steps ?D base_vesting_blank (wire_bytes (omfield 1 base_account_fields (bv_baseAccount m))) ?b1"
      by (rule base_r.steps_opt [OF onward_decoders(7)]) (use ok in \<open>simp_all add: defs\<close>)
    have s2: "steps ?D ?b1 (wire_bytes (rmfield 2 coin_fields (bv_originalVesting m))) ?b2"
      by (rule coin_r.steps_msgs [OF onward_decoders(7), where put = "\<lambda>c x. c\<lparr>bv_originalVesting := bv_originalVesting c @ [x]\<rparr>"])
        (use ok in \<open>simp_all add: defs fold_put\<close>)
    have s3: "steps ?D ?b2 (wire_bytes (rmfield 3 coin_fields (bv_delegatedFree m))) ?b3"
      by (rule coin_r.steps_msgs [OF onward_decoders(7), where put = "\<lambda>c x. c\<lparr>bv_delegatedFree := bv_delegatedFree c @ [x]\<rparr>"])
        (use ok in \<open>simp_all add: defs fold_put\<close>)
    have s4: "steps ?D ?b3 (wire_bytes (rmfield 4 coin_fields (bv_delegatedVesting m))) ?b4"
      by (rule coin_r.steps_msgs [OF onward_decoders(7), where put = "\<lambda>c x. c\<lparr>bv_delegatedVesting := bv_delegatedVesting c @ [x]\<rparr>"])
        (use ok in \<open>simp_all add: defs fold_put\<close>)
    have s5: "steps ?D ?b4 (wire_bytes (sfixed 5 (bv_endTime m))) (?b4\<lparr>bv_endTime := bv_endTime m\<rparr>)"
      by (rule steps_int64 [OF onward_decoders(7)]) (use ok in \<open>simp_all add: defs\<close>)
    have "?b4\<lparr>bv_endTime := bv_endTime m\<rparr> = m" by (simp add: base_vesting_blank_def)
    with steps_append [OF steps_append [OF steps_append [OF steps_append [OF s1 s2] s3] s4] s5]
    show ?thesis by (simp only: base_vesting_fields_def wire_bytes_simps)
  qed
qed simp

abbreviation vesting_ok :: "base_vesting option \<Rightarrow> bool" where
  "vesting_ok \<equiv> pred_option (deliverable base_vesting_readable base_vesting_fields)"

definition continuous_vesting_fields :: "continuous_vesting \<Rightarrow> (int \<times> wire) list" where
  "continuous_vesting_fields m = omfield 1 base_vesting_fields (cv_baseVestingAccount m) @ sfixed 2 (cv_startTime m)"

definition continuous_vesting_readable :: "continuous_vesting \<Rightarrow> bool" where
  "continuous_vesting_readable m \<longleftrightarrow> vesting_ok (cv_baseVestingAccount m) \<and> s64 (cv_startTime m)"

interpretation continuous_r: wire_decoder ContinuousVestingAccount_decode "\<lparr>cv_baseVestingAccount = None, cv_startTime = 0\<rparr>"
  continuous_vesting_fields continuous_vesting_readable
proof
  show "steps ContinuousVestingAccount_decode \<lparr>cv_baseVestingAccount = None, cv_startTime = 0\<rparr>
      (wire_bytes (continuous_vesting_fields m)) m" if ok: "continuous_vesting_readable m" for m
  proof -
    let ?b = "\<lparr>cv_baseVestingAccount = None, cv_startTime = 0\<rparr>" and ?D = ContinuousVestingAccount_decode
    note defs = field_no_def ContinuousVestingAccount_decode_def continuous_vesting_readable_def
    have s1: "steps ?D ?b (wire_bytes (omfield 1 base_vesting_fields (cv_baseVestingAccount m)))
        (?b\<lparr>cv_baseVestingAccount := cv_baseVestingAccount m\<rparr>)"
      by (rule vesting_r.steps_opt [OF onward_decoders(8)]) (use ok in \<open>simp_all add: defs\<close>)
    have s2: "steps ?D (?b\<lparr>cv_baseVestingAccount := cv_baseVestingAccount m\<rparr>) (wire_bytes (sfixed 2 (cv_startTime m)))
        (?b\<lparr>cv_baseVestingAccount := cv_baseVestingAccount m, cv_startTime := cv_startTime m\<rparr>)"
      by (rule steps_int64 [OF onward_decoders(8)]) (use ok in \<open>simp_all add: defs\<close>)
    from steps_append [OF s1 s2] show ?thesis by (cases m) (simp add: continuous_vesting_fields_def)
  qed
qed simp

definition delayed_vesting_fields :: "delayed_vesting \<Rightarrow> (int \<times> wire) list" where
  "delayed_vesting_fields m = omfield 1 base_vesting_fields (dv_baseVestingAccount m)"

definition delayed_vesting_readable :: "delayed_vesting \<Rightarrow> bool" where
  "delayed_vesting_readable m \<longleftrightarrow> vesting_ok (dv_baseVestingAccount m)"

interpretation delayed_r: wire_decoder DelayedVestingAccount_decode "\<lparr>dv_baseVestingAccount = None\<rparr>"
  delayed_vesting_fields delayed_vesting_readable
proof
  show "steps DelayedVestingAccount_decode \<lparr>dv_baseVestingAccount = None\<rparr> (wire_bytes (delayed_vesting_fields m)) m"
    if ok: "delayed_vesting_readable m" for m
  proof -
    let ?b = "\<lparr>dv_baseVestingAccount = None\<rparr>"
    have "steps DelayedVestingAccount_decode ?b (wire_bytes (omfield 1 base_vesting_fields (dv_baseVestingAccount m)))
        (?b\<lparr>dv_baseVestingAccount := dv_baseVestingAccount m\<rparr>)"
      by (rule vesting_r.steps_opt [OF onward_decoders(9)])
         (use ok in \<open>simp_all add: field_no_def DelayedVestingAccount_decode_def delayed_vesting_readable_def\<close>)
    then show ?thesis by (cases m) (simp add: delayed_vesting_fields_def)
  qed
qed simp

definition period_fields :: "period \<Rightarrow> (int \<times> wire) list" where
  "period_fields m = sfixed 1 (pd_length m) @ rmfield 2 coin_fields (pd_amount m)"

definition period_readable :: "period \<Rightarrow> bool" where
  "period_readable m \<longleftrightarrow> s64 (pd_length m) \<and> coins_readable (pd_amount m)"

interpretation period_r: wire_decoder Period_decode "\<lparr>pd_length = 0, pd_amount = []\<rparr>" period_fields period_readable
proof
  show "steps Period_decode \<lparr>pd_length = 0, pd_amount = []\<rparr> (wire_bytes (period_fields m)) m" if ok: "period_readable m" for m
  proof -
    let ?b = "\<lparr>pd_length = 0, pd_amount = []\<rparr>" and ?b1 = "\<lparr>pd_length = pd_length m, pd_amount = []\<rparr>"
    note defs = field_no_def Period_decode_def period_readable_def
    have s1: "steps Period_decode ?b (wire_bytes (sfixed 1 (pd_length m))) (?b\<lparr>pd_length := pd_length m\<rparr>)"
      by (rule steps_int64 [OF onward_decoders(10)]) (use ok in \<open>simp_all add: defs\<close>)
    have s2: "steps Period_decode (?b\<lparr>pd_length := pd_length m\<rparr>) (wire_bytes (rmfield 2 coin_fields (pd_amount m))) m"
      by (rule coin_r.steps_msgs [OF onward_decoders(10), where put = "\<lambda>c x. c\<lparr>pd_amount := pd_amount c @ [x]\<rparr>"])
        (use ok in \<open>simp_all add: defs fold_put\<close>)
    from steps_append [OF s1 s2] show ?thesis by (simp add: period_fields_def)
  qed
qed simp

definition periodic_vesting_fields :: "periodic_vesting \<Rightarrow> (int \<times> wire) list" where
  "periodic_vesting_fields m =
     (omfield 1 base_vesting_fields (pv_baseVestingAccount m) @ sfixed 2 (pv_startTime m)) @ rmfield 3 period_fields (pv_vestingPeriods m)"

definition periodic_vesting_readable :: "periodic_vesting \<Rightarrow> bool" where
  "periodic_vesting_readable m \<longleftrightarrow> vesting_ok (pv_baseVestingAccount m) \<and> s64 (pv_startTime m)
     \<and> list_all (deliverable period_readable period_fields) (pv_vestingPeriods m)"

interpretation periodic_r: wire_decoder PeriodicVestingAccount_decode
  "\<lparr>pv_baseVestingAccount = None, pv_startTime = 0, pv_vestingPeriods = []\<rparr>" periodic_vesting_fields periodic_vesting_readable
proof
  show "steps PeriodicVestingAccount_decode \<lparr>pv_baseVestingAccount = None, pv_startTime = 0, pv_vestingPeriods = []\<rparr>
      (wire_bytes (periodic_vesting_fields m)) m" if ok: "periodic_vesting_readable m" for m
  proof -
    let ?b = "\<lparr>pv_baseVestingAccount = None, pv_startTime = 0, pv_vestingPeriods = []\<rparr>" and ?D = PeriodicVestingAccount_decode
    let ?b1 = "?b\<lparr>pv_baseVestingAccount := pv_baseVestingAccount m\<rparr>"
    note defs = field_no_def PeriodicVestingAccount_decode_def periodic_vesting_readable_def
    have s1: "steps ?D ?b (wire_bytes (omfield 1 base_vesting_fields (pv_baseVestingAccount m))) ?b1"
      by (rule vesting_r.steps_opt [OF onward_decoders(11)]) (use ok in \<open>simp_all add: defs\<close>)
    have s2: "steps ?D ?b1 (wire_bytes (sfixed 2 (pv_startTime m))) (?b1\<lparr>pv_startTime := pv_startTime m\<rparr>)"
      by (rule steps_int64 [OF onward_decoders(11)]) (use ok in \<open>simp_all add: defs\<close>)
    have s3: "steps ?D (?b1\<lparr>pv_startTime := pv_startTime m\<rparr>) (wire_bytes (rmfield 3 period_fields (pv_vestingPeriods m))) m"
      by (rule period_r.steps_msgs [OF onward_decoders(11), where put = "\<lambda>c x. c\<lparr>pv_vestingPeriods := pv_vestingPeriods c @ [x]\<rparr>"])
        (use ok in \<open>simp_all add: defs fold_put\<close>)
    from steps_append [OF steps_append [OF s1 s2] s3] show ?thesis by (simp add: periodic_vesting_fields_def)
  qed
qed simp

section \<open>Accounts of the chain\<close>

text \<open>The account types the client knows, as the chain sends them.\<close>

datatype chain_side =
    PlainAccount base_account
  | ModuleAccount module_account
  | VestingAccount base_vesting
  | ContinuousVesting continuous_vesting
  | DelayedVesting delayed_vesting
  | PeriodicVesting periodic_vesting

fun account_any :: "chain_side \<Rightarrow> any" where
  "account_any (PlainAccount m) = \<lparr>any_typeUrl = lit ''/cosmos.auth.v1beta1.BaseAccount'', any_value = wire_bytes (base_account_fields m)\<rparr>"
| "account_any (ModuleAccount m) = \<lparr>any_typeUrl = lit ''/cosmos.auth.v1beta1.ModuleAccount'', any_value = wire_bytes (module_account_fields m)\<rparr>"
| "account_any (VestingAccount m) = \<lparr>any_typeUrl = lit ''/cosmos.vesting.v1beta1.BaseVestingAccount'', any_value = wire_bytes (base_vesting_fields m)\<rparr>"
| "account_any (ContinuousVesting m) = \<lparr>any_typeUrl = lit ''/cosmos.vesting.v1beta1.ContinuousVestingAccount'', any_value = wire_bytes (continuous_vesting_fields m)\<rparr>"
| "account_any (DelayedVesting m) = \<lparr>any_typeUrl = lit ''/cosmos.vesting.v1beta1.DelayedVestingAccount'', any_value = wire_bytes (delayed_vesting_fields m)\<rparr>"
| "account_any (PeriodicVesting m) = \<lparr>any_typeUrl = lit ''/cosmos.vesting.v1beta1.PeriodicVestingAccount'', any_value = wire_bytes (periodic_vesting_fields m)\<rparr>"

fun account_readable :: "chain_side \<Rightarrow> bool" where
  "account_readable (PlainAccount m) = base_account_readable m"
| "account_readable (ModuleAccount m) = module_account_readable m"
| "account_readable (VestingAccount m) = base_vesting_readable m"
| "account_readable (ContinuousVesting m) = continuous_vesting_readable m"
| "account_readable (DelayedVesting m) = delayed_vesting_readable m"
| "account_readable (PeriodicVesting m) = periodic_vesting_readable m"

fun base_of :: "chain_side \<Rightarrow> base_account option" where
  "base_of (PlainAccount m) = Some m"
| "base_of (ModuleAccount m) = ma_baseAccount m"
| "base_of (VestingAccount m) = bv_baseAccount m"
| "base_of (ContinuousVesting m) = Option.bind (cv_baseVestingAccount m) bv_baseAccount"
| "base_of (DelayedVesting m) = Option.bind (dv_baseVestingAccount m) bv_baseAccount"
| "base_of (PeriodicVesting m) = Option.bind (pv_baseVestingAccount m) bv_baseAccount"

lemma accountFromAny_chain:
  "account_readable x \<Longrightarrow> accountFromAny (account_any x) = bindE (assert_some (base_of x)) accountFromBaseAccount"
  by (cases x) (simp_all add: accountFromAny_def base_r.decode_bytes module_r.decode_bytes vesting_r.decode_bytes
      continuous_r.decode_bytes delayed_r.decode_bytes periodic_r.decode_bytes assert_some_def)

lemma Uint64_toNumber_eq:
  assumes "u64 v"
  shows "Uint64_toNumber v = (if v < 9007199254740992 then Inr v else Inl (newError (lit ''Number can only safely store up to 53 bits'')))"
proof -
  have "dec_digits v \<noteq> []" "list_all is_digit (dec_digits v)" "dec_val (dec_digits v) = v"
    using dec_digits_spec [of v] assms by (simp_all add: u64_def)
  then show ?thesis using assms by (simp add: Uint64_toNumber_def bigint_string_def u64_def)
qed

section \<open>Public keys\<close>

definition legacy_key_fields :: "legacy_amino_key \<Rightarrow> (int \<times> wire) list" where
  "legacy_key_fields m = ifield 1 (uint (lk_threshold m)) @ rmfield 2 any_fields (lk_publicKeys m)"

definition legacy_key_readable :: "legacy_amino_key \<Rightarrow> bool" where
  "legacy_key_readable m \<longleftrightarrow> list_all (deliverable any_readable any_fields) (lk_publicKeys m)"

lemma fold_lk_publicKeys: "fold (\<lambda>x c. c\<lparr>lk_publicKeys := lk_publicKeys c @ [x]\<rparr>) xs v = v\<lparr>lk_publicKeys := lk_publicKeys v @ xs\<rparr>"
  by (induction xs arbitrary: v) simp_all

interpretation legacy_r: wire_decoder LegacyAminoPubKey_decode "\<lparr>lk_threshold = 0, lk_publicKeys = []\<rparr>"
  legacy_key_fields legacy_key_readable
proof
  show "steps LegacyAminoPubKey_decode \<lparr>lk_threshold = 0, lk_publicKeys = []\<rparr> (wire_bytes (legacy_key_fields m)) m"
    if ok: "legacy_key_readable m" for m
  proof -
    let ?b = "\<lparr>lk_threshold = 0, lk_publicKeys = []\<rparr>" and ?D = LegacyAminoPubKey_decode
    have s1: "steps ?D ?b (wire_bytes (ifield 1 (uint (lk_threshold m)))) (?b\<lparr>lk_threshold := lk_threshold m\<rparr>)"
    proof (cases "lk_threshold m = 0")
      case True
      then show ?thesis by (simp add: ifield_def steps_Nil)
    next
      case False
      have "reads r_uint32 (wire_payload (WVarint (uint (lk_threshold m)))) (lk_threshold m)"
        using reads_uint32 [of "uint (lk_threshold m)"] uint_lt2p [of "lk_threshold m"] by simp
      then show ?thesis using False uint_lt2p [of "lk_threshold m"]
          steps_one [OF onward_decoders(4), of 1 "WVarint (uint (lk_threshold m))" ?b "\<lambda>x. ?b\<lparr>lk_threshold := x\<rparr>" r_uint32]
        by (simp add: ifield_def uint_0_iff LegacyAminoPubKey_decode_def del: wire_bytes_simps(2))
    qed
    have s2: "steps ?D (?b\<lparr>lk_threshold := lk_threshold m\<rparr>) (wire_bytes (rmfield 2 any_fields (lk_publicKeys m))) m"
      by (rule any_r.steps_msgs [OF onward_decoders(4), where put = "\<lambda>c x. c\<lparr>lk_publicKeys := lk_publicKeys c @ [x]\<rparr>"])
        (use ok in \<open>simp_all add: field_no_def LegacyAminoPubKey_decode_def legacy_key_readable_def fold_lk_publicKeys\<close>)
    from steps_append [OF s1 s2] show ?thesis by (simp add: legacy_key_fields_def)
  qed
qed simp

text \<open>The keys an account of the chain can have, their encoding and what the client makes of them.\<close>

datatype single_key = SecpKey "byte list" | EdKey "byte list"

datatype chain_key = NoKey | SingleKey single_key | MultiKey u32 "single_key list"

fun single_any :: "single_key \<Rightarrow> any" where
  "single_any (SecpKey k) = \<lparr>any_typeUrl = url_PubKey, any_value = wire_bytes (pubkey_fields k)\<rparr>"
| "single_any (EdKey k) = \<lparr>any_typeUrl = url_Ed25519, any_value = wire_bytes (pubkey_fields k)\<rparr>"

fun single_valid :: "single_key \<Rightarrow> bool" where
  "single_valid (SecpKey k) \<longleftrightarrow> length k = 33 \<and> (hd k = 2 \<or> hd k = 3)"
| "single_valid (EdKey k) \<longleftrightarrow> length k = 32"

fun single_pubkey :: "single_key \<Rightarrow> amino_pubkey" where
  "single_pubkey (SecpKey k) = SinglePubkey (lit ''tendermint/PubKeySecp256k1'') (toBase64 k)"
| "single_pubkey (EdKey k) = SinglePubkey (lit ''tendermint/PubKeyEd25519'') (toBase64 k)"

fun key_any :: "chain_key \<Rightarrow> any option" where
  "key_any NoKey = None"
| "key_any (SingleKey k) = Some (single_any k)"
| "key_any (MultiKey t ks) = Some \<lparr>any_typeUrl = url_Multisig,
     any_value = wire_bytes (legacy_key_fields \<lparr>lk_threshold = t, lk_publicKeys = map single_any ks\<rparr>)\<rparr>"

fun key_valid :: "chain_key \<Rightarrow> bool" where
  "key_valid NoKey = True"
| "key_valid (SingleKey k) = single_valid k"
| "key_valid (MultiKey t ks) = (t \<noteq> 0 \<and> list_all single_valid ks)"

fun key_pubkey :: "chain_key \<Rightarrow> amino_pubkey option" where
  "key_pubkey NoKey = None"
| "key_pubkey (SingleKey k) = Some (single_pubkey k)"
| "key_pubkey (MultiKey t ks) = Some (MultisigPubkey (dec_digits (uint t)) (map single_pubkey ks))"

lemma url_distinct [simp]:
  "url_PubKey \<noteq> []" "url_Ed25519 \<noteq> []" "url_Multisig \<noteq> []" "url_Ed25519 \<noteq> url_PubKey" "url_Multisig \<noteq> url_PubKey" "url_Multisig \<noteq> url_Ed25519"
  by (simp_all add: url_PubKey_def url_Ed25519_def url_Multisig_def)

lemma small_key: "length k \<le> 33 \<Longrightarrow> small k"
  by (simp add: small_def)

lemma anyToSinglePubkey_single: "single_valid k \<Longrightarrow> anyToSinglePubkey (single_any k) = Inr (single_pubkey k)"
  by (cases k) (auto simp: anyToSinglePubkey_def key_r.decode_bytes small_key toError_def encodeSecp256k1Pubkey_def encodeEd25519Pubkey_def)

lemma map_sum_list_map: "list_all (\<lambda>x. f (h x) = Inr (g x)) xs \<Longrightarrow> map_sum_list f (map h xs) = Inr (map g xs)"
  by (induction xs) auto

lemma field_bytes_not_Nil [simp]: "field_bytes x \<noteq> []"
  by (simp add: field_bytes_def)

lemma utf8_length_bound: "utf8_length s \<le> 3 * length s"
proof (induction s rule: length_induct)
  case (1 s)
  show ?case
  proof (cases s)
    case (Cons c cs)
    with 1 have cs: "utf8_length cs \<le> 3 * length cs" by simp
    show ?thesis
    proof (cases cs)
      case Nil
      with Cons show ?thesis by simp
    next
      case (Cons d ds)
      with 1 \<open>s = c # cs\<close> have "utf8_length ds \<le> 3 * length ds" by simp
      with cs show ?thesis unfolding \<open>s = c # cs\<close> \<open>cs = d # ds\<close> utf8_length.simps(2) [of c "d # ds"]
        by (simp del: utf8_length.simps)
    qed
  qed simp
qed

lemma length_field_bytes: "wire_ok (n, WBytes b) \<Longrightarrow> length (field_bytes (n, WBytes b)) \<le> 20 + length b"
  using length_varint_le [of "n * 8 + 2" 10] length_varint_le [of "int (length b)" 10]
  by (simp add: field_bytes_def small_def)

lemma length_key_bytes: "length k \<le> 33 \<Longrightarrow> length (wire_bytes (pubkey_fields k)) \<le> 53"
  using length_field_bytes [of 1 k] by (simp add: pubkey_fields_def bfield_def small_def)

lemma deliverable_any:
  assumes "length (any_typeUrl a) < 1000" "length (any_value a) < 1000"
  shows "deliverable any_readable any_fields a"
proof -
  have u: "length (utf8_write (any_typeUrl a)) < 3000"
    using utf8_length_bound [of "any_typeUrl a"] assms(1) by (simp add: utf8_length_correct)
  have "length (wire_bytes (any_fields a)) \<le> (20 + length (utf8_write (any_typeUrl a))) + (20 + length (any_value a))"
    using length_field_bytes [of 1 "utf8_write (any_typeUrl a)"] length_field_bytes [of 2 "any_value a"] u assms(2)
    by (simp add: any_fields_def sfield_def bfield_def small_def)
  then show ?thesis using u assms
    by (simp add: deliverable_def any_readable_def readable_str_def short_def small_def utf8_length_correct)
qed

lemma deliverable_single: "single_valid k \<Longrightarrow> deliverable any_readable any_fields (single_any k)"
proof (intro deliverable_any)
  assume "single_valid k"
  then show "length (any_value (single_any k)) < 1000" by (cases k) (auto intro: order_le_less_trans [OF length_key_bytes])
  show "length (any_typeUrl (single_any k)) < 1000" by (cases k) (simp_all add: url_PubKey_def url_Ed25519_def)
qed

lemma decodeOptionalPubkey_chain: "key_valid k \<Longrightarrow> decodeOptionalPubkey (key_any k) = Inr (key_pubkey k)"
proof (cases k)
  case (SingleKey s)
  assume v: "key_valid k"
  then have "any_value (single_any s) \<noteq> []" using SingleKey by (cases s) (auto simp: pubkey_fields_def bfield_def)
  moreover have "any_typeUrl (single_any s) = url_PubKey \<or> any_typeUrl (single_any s) = url_Ed25519" by (cases s) simp_all
  moreover from this have "any_typeUrl (single_any s) \<noteq> []" by auto
  ultimately show ?thesis using v SingleKey by (simp add: decodeOptionalPubkey_def decodePubkey_def anyToSinglePubkey_single)
next
  case (MultiKey t ks)
  assume v: "key_valid k"
  let ?m = "\<lparr>lk_threshold = t, lk_publicKeys = map single_any ks\<rparr>"
  have "legacy_key_readable ?m" using v MultiKey by (auto simp: legacy_key_readable_def list_all_iff deliverable_single)
  moreover have "wire_bytes (legacy_key_fields ?m) \<noteq> []" using v MultiKey by (simp add: legacy_key_fields_def ifield_def uint_0_iff)
  moreover have "map_sum_list anyToSinglePubkey (map single_any ks) = Inr (map single_pubkey ks)"
    using v MultiKey by (intro map_sum_list_map) (auto simp: list_all_iff anyToSinglePubkey_single)
  ultimately show ?thesis using v MultiKey by (simp add: decodeOptionalPubkey_def decodePubkey_def legacy_r.decode_bytes)
qed (simp add: decodeOptionalPubkey_def)

section \<open>From the chain to the client\<close>

lemma accountFromBaseAccount_eq:
  assumes "base_account_readable b" "ba_pubKey b = key_any k" "key_valid k"
  shows "accountFromBaseAccount b =
    (if ba_accountNumber b < 9007199254740992 \<and> ba_sequence b < 9007199254740992
     then Inr \<lparr>account_address = ba_address b, account_pubkey = key_pubkey k,
       account_number = ba_accountNumber b, account_sequence = ba_sequence b\<rparr>
     else Inl (newError (lit ''Number can only safely store up to 53 bits'')))"
  using assms by (simp add: accountFromBaseAccount_def decodeOptionalPubkey_chain Uint64_toNumber_eq base_account_readable_def)

lemma accountFromAny_reads:
  assumes "account_readable x" "base_of x = Some b" "base_account_readable b" "ba_pubKey b = key_any k" "key_valid k"
  shows "accountFromAny (account_any x) =
    (if ba_accountNumber b < 9007199254740992 \<and> ba_sequence b < 9007199254740992
     then Inr \<lparr>account_address = ba_address b, account_pubkey = key_pubkey k,
       account_number = ba_accountNumber b, account_sequence = ba_sequence b\<rparr>
     else Inl (newError (lit ''Number can only safely store up to 53 bits'')))"
  using accountFromAny_chain [OF assms(1)] accountFromBaseAccount_eq [OF assms(3-5)] assms(2) by (simp add: assert_some_def)

section \<open>The response to an account query\<close>

interpretation response_r: wire_decoder QueryAccountResponse_decode None "omfield 1 any_fields" "pred_option (deliverable any_readable any_fields)"
proof
  show "steps QueryAccountResponse_decode None (wire_bytes (omfield 1 any_fields m)) m"
    if "pred_option (deliverable any_readable any_fields) m" for m
    by (rule any_r.steps_opt [OF onward_decoders(12)]) (use that in \<open>simp_all add: field_no_def QueryAccountResponse_decode_def\<close>)
qed simp

section \<open>Fields the client does not know\<close>

lemma BaseAccount_decode_unknown:
  assumes "wire_ok x" "4 < fst x"
  shows "BaseAccount_decode (of_int (wire_key x)) b = skip_field (of_int (wire_key x)) b"
proof -
  have "fst x < 536870912" using assms(1) by (cases x rule: wire_ok.cases) simp_all
  then have "uint (of_int (fst x) :: u32) = fst x" using assms(2) by (simp add: uint_word_of_int mod_pos_pos_trivial)
  then have "4 < (of_int (fst x) :: u32)" using assms(2) by (simp add: word_less_def)
  then have "of_int (fst x) \<notin> {1, 2, 3, 4 :: u32}" by auto
  then show ?thesis by (simp add: BaseAccount_decode_def key_parts(1) [OF assms(1)])
qed

lemma steps_unknown:
  "list_all wire_ok gs \<Longrightarrow> list_all (\<lambda>x. 4 < fst x) gs \<Longrightarrow> steps BaseAccount_decode b (wire_bytes gs) b"
proof (induction gs)
  case (Cons x gs)
  then have "steps BaseAccount_decode b (field_bytes x) b"
    by (intro steps_field onward_decoders) (simp_all add: BaseAccount_decode_unknown reads_skip)
  from steps_append [OF this Cons.IH] Cons.prems show ?case by simp
qed (simp add: steps_Nil)

lemma base_account_unknown:
  assumes "base_account_readable b" "list_all wire_ok gs" "list_all (\<lambda>x. 4 < fst x) gs"
  shows "decode_msg BaseAccount_decode base_account_blank (wire_bytes (base_account_fields b @ gs)) = Inr b"
  using readsD [OF steps_end [OF steps_append [OF base_r.reads_fields [OF assms(1)] steps_unknown [OF assms(2,3)]]], of "[]" "[]"]
  by (simp add: decode_msg_def)

end
