(* ===== verification/WalletChain.thy ===== *)
theory WalletChain
  imports WalletMsgs
begin

text \<open>
  What the chain receives: the registry encodes an encode object, a reader with the field numbers of
  \<open>tx.proto\<close> decodes it. \<open>intended\<close> is the message the codec completes from the partial object; \<open>registry_chain\<close>
  says that the reader gets exactly that message.
\<close>

section \<open>The registry\<close>

lemma walletRegistry_urls [simp]:
  "walletRegistry ds url_CreateSlot = Some CreateSlotCodec"
  "walletRegistry ds url_UpdateSlotStatus = Some UpdateSlotStatusCodec"
  "walletRegistry ds url_LeaseSlot = Some LeaseSlotCodec"
  "walletRegistry ds url_RegisterPublisher = Some RegisterPublisherCodec"
  by (simp_all add: walletRegistry_def register_def Let_def url_CreateSlot_def url_UpdateSlotStatus_def
      url_LeaseSlot_def url_RegisterPublisher_def)

text \<open>What the chain reads from the bytes of an encode object, per message type.\<close>

datatype chain_msg =
    CCreateSlot MsgCreateSlot
  | CUpdateSlotStatus MsgUpdateSlotStatus
  | CLeaseSlot MsgLeaseSlot
  | CRegisterPublisher MsgRegisterPublisher

definition chain_decode :: "jstring \<Rightarrow> byte list \<Rightarrow> chain_msg option" where
  "chain_decode url bs =
     (if url = url_CreateSlot then map_option CCreateSlot (decode_CreateSlot bs)
      else if url = url_UpdateSlotStatus then map_option CUpdateSlotStatus (decode_UpdateSlotStatus bs)
      else if url = url_LeaseSlot then map_option CLeaseSlot (decode_LeaseSlot bs)
      else if url = url_RegisterPublisher then map_option CRegisterPublisher (decode_RegisterPublisher bs)
      else None)"

definition intended :: "msg_value \<Rightarrow> chain_msg" where
  "intended v =
     (case v of
        CreateSlotValue p \<Rightarrow> CCreateSlot (MsgCreateSlot_fromPartial p)
      | UpdateSlotStatusValue p \<Rightarrow> CUpdateSlotStatus (MsgUpdateSlotStatus_fromPartial p)
      | LeaseSlotValue p \<Rightarrow> CLeaseSlot (MsgLeaseSlot_fromPartial p)
      | RegisterPublisherValue p \<Rightarrow> CRegisterPublisher (MsgRegisterPublisher_fromPartial p))"

definition sendable :: "msg_value \<Rightarrow> bool" where
  "sendable v =
     (case v of
        CreateSlotValue p \<Rightarrow> encodable_CreateSlot (MsgCreateSlot_fromPartial p)
      | UpdateSlotStatusValue p \<Rightarrow> encodable_UpdateSlotStatus (MsgUpdateSlotStatus_fromPartial p)
      | LeaseSlotValue p \<Rightarrow> encodable_LeaseSlot (MsgLeaseSlot_fromPartial p)
      | RegisterPublisherValue p \<Rightarrow> encodable_RegisterPublisher (MsgRegisterPublisher_fromPartial p))"

lemma registry_chain:
  assumes "well_typed obj" "sendable (msgValue obj)"
  shows "\<exists>bs. registry_encode (walletRegistry ds) obj = Inr bs \<and> chain_decode (typeUrl obj) bs = Some (intended (msgValue obj))"
proof (cases "msgValue obj")
  case (CreateSlotValue p)
  with assms create_slot.decode_encode [of "MsgCreateSlot_fromPartial p"] show ?thesis
    by (simp add: well_typed_def registry_encode_def sendable_def chain_decode_def intended_def)
next
  case (UpdateSlotStatusValue p)
  with assms update_slot_status.decode_encode [of "MsgUpdateSlotStatus_fromPartial p"] show ?thesis
    by (simp add: well_typed_def registry_encode_def sendable_def chain_decode_def intended_def
        url_CreateSlot_def url_UpdateSlotStatus_def [symmetric])
      (simp add: url_UpdateSlotStatus_def)
next
  case (LeaseSlotValue p)
  with assms lease_slot.decode_encode [of "MsgLeaseSlot_fromPartial p"] show ?thesis
    by (simp add: well_typed_def registry_encode_def sendable_def chain_decode_def intended_def)
      (simp add: url_CreateSlot_def url_UpdateSlotStatus_def url_LeaseSlot_def)
next
  case (RegisterPublisherValue p)
  with assms register_publisher.decode_encode [of "MsgRegisterPublisher_fromPartial p"] show ?thesis
    by (simp add: well_typed_def registry_encode_def sendable_def chain_decode_def intended_def)
      (simp add: url_CreateSlot_def url_UpdateSlotStatus_def url_LeaseSlot_def url_RegisterPublisher_def)
qed

end
