(* ===== verification/SigningFacts.thy ===== *)
theory SigningFacts
  imports Signing TxSize AccountFacts WalletChain
begin

text \<open>
  What the signing client does.

  \<^item> \<open>signAndBroadcast\<close> returns, after at most twenty sleeps, when timers fire in order; a result is what the node
    reported for the hash it gave to the bytes it was sent (\<open>poll_outcome\<close>).
  \<^item> \<open>signed_tx\<close> describes what \<open>sign\<close> makes: the document shown to the signer, what it returned, and the raw transaction.
    Nothing is broadcast before, and nothing else is broadcast (\<open>submit_sends\<close>).
  \<^item> a signer without direct mode fails on every message of the wallet before anything is signed.
  \<^item> \<open>weighs\<close> and \<open>heavy\<close>: an encoder adds at least the length of what it carries, so a transaction of less than
    2 ^ 32 bytes has no part that exceeds the writer's length prefixes; then reading it gives back everything
    that was put in (\<open>read_tx_back\<close>).
\<close>

section \<open>Evaluation rules\<close>

lemma wp_ask [wp_simps]:
  "wp (ask r ev) Q R s =
     (case r (cl_tr s) of Inl e \<Rightarrow> R e (cl_log (ev (Inl e)) s) | Inr x \<Rightarrow> Q x (cl_log (ev (Inr x)) s))"
  by (simp add: wp_def ask_def split: sum.split)

lemma wp_orThrow [wp_simps]: "wp (orThrow r) Q R s = (case r of Inl m \<Rightarrow> R (newError m) s | Inr x \<Rightarrow> Q x s)"
  by (simp add: orThrow_def wp_simps split: sum.split)

lemma wp_orRaise [wp_simps]: "wp (orRaise r) Q R s = (case r of Inl e \<Rightarrow> R e s | Inr x \<Rightarrow> Q x s)"
  by (cases r) (simp_all add: orRaise_def wp_simps)

lemma wp_case_prod [wp_simps]: "wp (case p of (x, y) \<Rightarrow> m x y) Q R s = (case p of (x, y) \<Rightarrow> wp (m x y) Q R s)"
  by (simp add: case_prod_unfold)

lemma wp_conj: "wp m Q R s \<Longrightarrow> wp m Q' R' s \<Longrightarrow> wp m (\<lambda>x s'. Q x s' \<and> Q' x s') (\<lambda>e s'. R e s' \<and> R' e s') s"
  by (auto simp: wp_def split: prod.splits sum.splits)

lemma cl_log_simps [simp]: "cl_tr (cl_log ev s) = cl_tr s @ [ev]" "cl_chainId (cl_log ev s) = cl_chainId s"
  by (simp_all add: cl_log_def)

section \<open>Polling ends\<close>

fun is_sleep :: "client_event \<Rightarrow> bool" where
  "is_sleep (Sleep _) = True"
| "is_sleep _ = False"

fun is_start :: "client_event \<Rightarrow> bool" where
  "is_start (StartTimer _) = True"
| "is_start _ = False"

fun is_send :: "client_event \<Rightarrow> bool" where
  "is_send (BroadcastTxSync _ _) = True"
| "is_send _ = False"

fun is_poll :: "client_event \<Rightarrow> bool" where
  "is_poll (Sleep _) = True"
| "is_poll (TxSearch _ _) = True"
| "is_poll _ = False"

text \<open>The sleeps since the timer was last set.\<close>

definition sleeps :: "ctrace \<Rightarrow> nat" where
  "sleeps h = length (filter is_sleep (takeWhile (\<lambda>ev. \<not> is_start ev) (rev h)))"

definition timers_in_order :: "network \<Rightarrow> nat \<Rightarrow> nat \<Rightarrow> bool" where
  "timers_in_order N timeoutMs intervalMs \<longleftrightarrow> (\<forall>h. timeoutMs \<le> intervalMs * sleeps h \<longrightarrow> n_timedOut N h)"

definition tx_query :: "jstring \<Rightarrow> jstring" where
  "tx_query txId = lit ''tx.hash='' @ 39 # txId @ [39]"

definition poll_outcome :: "network \<Rightarrow> nat \<Rightarrow> jstring \<Rightarrow> exn + tx_result \<Rightarrow> ctrace \<Rightarrow> bool" where
  "poll_outcome N timeoutMs txId r h \<longleftrightarrow>
     (r = Inl (timeoutError timeoutMs txId) \<and> n_timedOut N h)
     \<or> (\<exists>e. r = Inl e \<and> h \<noteq> [] \<and> last h = TxSearch (tx_query txId) (Inl e))
     \<or> (\<exists>tx txs. r = Inr \<lparr>tx_code = found_code tx, rawLog = found_log tx, transactionHash = txId\<rparr>
          \<and> h \<noteq> [] \<and> last h = TxSearch (tx_query txId) (Inr (tx # txs)))"

lemma run_poll_round:
  "run (andThen (modify (cl_log (Sleep i))) (\<lambda>_. getTx N txId)) s =
     (let h = cl_tr s @ [Sleep i]; reply = n_search N h (tx_query txId);
          s' = s\<lparr>cl_tr := h @ [TxSearch (tx_query txId) reply]\<rparr>
      in case reply of Inl e \<Rightarrow> (Inl e, s') | Inr [] \<Rightarrow> (Inr None, s') | Inr (tx # txs) \<Rightarrow> (Inr (Some tx), s'))"
  by (auto simp: getTx_def tx_query_def ask_def run_simps cl_log_def Let_def split: sum.split list.split)

lemma sleeps_round: "sleeps (h @ [Sleep i, TxSearch q r]) = Suc (sleeps h)"
  by (simp add: sleeps_def)

text \<open>One round of the loop: a sleep, then a search.\<close>

definition polled :: "network \<Rightarrow> nat \<Rightarrow> jstring \<Rightarrow> client_state \<Rightarrow> client_state" where
  "polled N i txId s =
     (let h = cl_tr s @ [Sleep i] in s\<lparr>cl_tr := h @ [TxSearch (tx_query txId) (n_search N h (tx_query txId))]\<rparr>)"

lemma poll_round:
  assumes "\<not> n_timedOut N (cl_tr s)"
  shows "pollForTx N timeoutMs i txId s =
    (case n_search N (cl_tr s @ [Sleep i]) (tx_query txId) of
       Inl e \<Rightarrow> Some (Inl e, polled N i txId s)
     | Inr [] \<Rightarrow> pollForTx N timeoutMs i txId (polled N i txId s)
     | Inr (tx # txs) \<Rightarrow>
         Some (Inr \<lparr>tx_code = found_code tx, rawLog = found_log tx, transactionHash = txId\<rparr>, polled N i txId s))"
  using assms by (subst pollForTx.simps) (auto simp: run_poll_round polled_def Let_def split: sum.split list.split)

lemma poll_returns:
  assumes "timers_in_order N timeoutMs i" "0 < i" "i * sleeps (cl_tr s) < timeoutMs + i"
  shows "\<exists>r s' es. pollForTx N timeoutMs i txId s = Some (r, s') \<and> cl_tr s' = cl_tr s @ es
    \<and> i * sleeps (cl_tr s') < timeoutMs + i \<and> sleeps (cl_tr s') = sleeps (cl_tr s) + length (filter is_sleep es)
    \<and> list_all is_poll es \<and> poll_outcome N timeoutMs txId r (cl_tr s')"
  using assms(3)
proof (induction "timeoutMs - i * sleeps (cl_tr s)" arbitrary: s rule: less_induct)
  case less
  show ?case
  proof (cases "n_timedOut N (cl_tr s)")
    case True
    then have "pollForTx N timeoutMs i txId s = Some (Inl (timeoutError timeoutMs txId), s)"
      by (simp add: pollForTx.simps)
    with True less(2) show ?thesis by (intro exI [of _ "Inl (timeoutError timeoutMs txId)"] exI [of _ s] exI [of _ "[]"])
        (simp add: poll_outcome_def)
  next
    case False
    then have lt: "i * sleeps (cl_tr s) < timeoutMs" using assms(1) by (auto simp: timers_in_order_def not_le dest: spec [of _ "cl_tr s"])
    define reply where "reply = n_search N (cl_tr s @ [Sleep i]) (tx_query txId)"
    define s1 where "s1 = polled N i txId s"
    have t1: "cl_tr s1 = cl_tr s @ [Sleep i, TxSearch (tx_query txId) reply]" by (simp add: s1_def polled_def reply_def Let_def)
    have n1: "sleeps (cl_tr s1) = Suc (sleeps (cl_tr s))" by (simp only: t1 sleeps_round)
    have b1: "i * sleeps (cl_tr s1) < timeoutMs + i" using lt by (simp add: n1)
    note p = poll_round [OF False, of timeoutMs i txId, folded reply_def s1_def]
    show ?thesis
    proof (cases "reply = Inr []")
      case True
      have "timeoutMs - i * sleeps (cl_tr s1) < timeoutMs - i * sleeps (cl_tr s)" using lt assms(2) by (simp add: n1)
      from less(1) [OF this b1] obtain r s' es where
        "pollForTx N timeoutMs i txId s1 = Some (r, s')" "cl_tr s' = cl_tr s1 @ es" "i * sleeps (cl_tr s') < timeoutMs + i"
        "sleeps (cl_tr s') = sleeps (cl_tr s1) + length (filter is_sleep es)"
        "list_all is_poll es" "poll_outcome N timeoutMs txId r (cl_tr s')" by blast
      with True p t1 n1 show ?thesis
        by (intro exI [of _ r] exI [of _ s'] exI [of _ "[Sleep i, TxSearch (tx_query txId) reply] @ es"]) simp
    next
      case False
      then obtain r where "pollForTx N timeoutMs i txId s = Some (r, s1)" "poll_outcome N timeoutMs txId r (cl_tr s1)"
        using p t1 by (auto simp: poll_outcome_def split: sum.splits list.splits)
      with t1 n1 b1 show ?thesis
        by (intro exI [of _ r] exI [of _ s1] exI [of _ "[Sleep i, TxSearch (tx_query txId) reply]"]) simp
    qed
  qed
qed

section \<open>What is signed\<close>

definition tx_body_of :: "any list \<Rightarrow> jstring \<Rightarrow> tx_body" where
  "tx_body_of anys memo =
     \<lparr>tb_messages = anys, tb_memo = memo, tb_timeoutHeight = 0, tb_extensionOptions = [], tb_nonCriticalExtensionOptions = []\<rparr>"

definition pubkey_any :: "byte list \<Rightarrow> any" where
  "pubkey_any key = \<lparr>any_typeUrl = url_PubKey, any_value = finish (PubKey_encode key bcreate)\<rparr>"

definition auth_of :: "byte list \<Rightarrow> int \<Rightarrow> std_fee \<Rightarrow> int \<Rightarrow> auth_info" where
  "auth_of key sequence fee gas = makeAuthInfo [(pubkey_any key, sequence)] (fee_coins fee) gas None None SIGN_MODE_DIRECT"

text \<open>The document for a list of messages, a key, an account and a chain.\<close>

definition document :: "registry \<Rightarrow> encode_object list \<Rightarrow> std_fee \<Rightarrow> jstring \<Rightarrow> byte list \<Rightarrow> chain_account \<Rightarrow> jstring \<Rightarrow> sign_doc \<Rightarrow> bool" where
  "document reg msgs fee memo key acc chainId doc \<longleftrightarrow>
     (\<exists>anys gas. map_sum_list (encodeAsAny reg) msgs = Inr anys \<and> Int53_fromString (fee_gas fee) = Inr gas
        \<and> doc = \<lparr>sd_bodyBytes = finish (TxBody_encode (tx_body_of anys memo) bcreate),
                 sd_authInfoBytes = finish (AuthInfo_encode (auth_of key (acc_sequence acc) fee gas) bcreate),
                 sd_chainId = chainId, sd_accountNumber = acc_accountNumber acc\<rparr>)"

text \<open>The account, the chain and the key come from the replies in the trace; \<open>known\<close> is the chain id the client remembers.\<close>

fun account_of :: "client_account \<Rightarrow> chain_account" where
  "account_of x = \<lparr>acc_accountNumber = account_number x, acc_sequence = account_sequence x\<rparr>"

definition account_in :: "abci_reply \<Rightarrow> chain_account option" where
  "account_in rep =
     (if abci_code rep \<noteq> 0 \<or> abci_height rep = 0 then None
      else case decode_msg QueryAccountResponse_decode None (abci_value rep) of
        Inr (Some y) \<Rightarrow> (case accountFromAny y of Inr x \<Rightarrow> Some (account_of x) | Inl _ \<Rightarrow> None)
      | _ \<Rightarrow> None)"

abbreviation AccountQuery :: "jstring \<Rightarrow> exn + abci_reply \<Rightarrow> client_event" where
  "AccountQuery a r \<equiv> AbciQuery accountPath (accountRequest a) r"

definition facts_of :: "jstring \<Rightarrow> jstring option \<Rightarrow> ctrace \<Rightarrow> byte list \<Rightarrow> chain_account \<Rightarrow> jstring \<Rightarrow> bool" where
  "facts_of a known h key acc chainId \<longleftrightarrow>
     (\<exists>rep. AccountQuery a (Inr rep) \<in> set h \<and> account_in rep = Some acc) \<and> (known = Some chainId \<or> QueryStatus (Inr chainId) \<in> set h)
     \<and> (\<exists>xs x. SignerAccounts (Inr xs) \<in> set h \<and> x \<in> set xs \<and> sa_address x = a \<and> sa_pubkey x = key)"

definition signed_as :: "registry \<Rightarrow> jstring \<Rightarrow> encode_object list \<Rightarrow> std_fee \<Rightarrow> jstring \<Rightarrow> jstring option \<Rightarrow> ctrace \<Rightarrow> tx_raw \<Rightarrow> bool" where
  "signed_as reg a msgs fee memo known h q \<longleftrightarrow>
     (\<exists>key acc chainId doc signed signature sig.
        facts_of a known h key acc chainId \<and> document reg msgs fee memo key acc chainId doc
        \<and> SignDirect a doc (Inr (signed, signature)) \<in> set h \<and> fromBase64 signature = Inr sig
        \<and> q = \<lparr>raw_bodyBytes = sd_bodyBytes signed, raw_authInfoBytes = sd_authInfoBytes signed, raw_signatures = [sig]\<rparr>)"

text \<open>Up to the broadcast nothing is sent, and there is no polling: \<open>early\<close> calls.\<close>

definition early :: "client_event \<Rightarrow> bool" where
  "early ev \<longleftrightarrow> \<not> is_send ev \<and> \<not> is_poll ev \<and> \<not> is_start ev"

definition unsent :: "ctrace \<Rightarrow> client_state \<Rightarrow> bool" where
  "unsent h s \<longleftrightarrow> (\<exists>es. cl_tr s = h @ es \<and> list_all early es)"

lemma unsent_refl: "unsent (cl_tr s) s"
  by (simp add: unsent_def)

lemma unsent_log [simp]: "early ev \<Longrightarrow> unsent h s \<Longrightarrow> unsent h (cl_log ev s)"
  by (auto simp: unsent_def)

lemma keeps_ask [keeps_intros]: "(\<And>r. early (ev r)) \<Longrightarrow> keeps (unsent h) (ask r ev)"
  by (rule keepsI) (auto simp: wp_simps split: sum.split)

lemma keeps_orThrow [keeps_intros]: "keeps I (orThrow r)" "keeps I (orRaise e)"
  by (cases r; simp add: orThrow_def keeps_basic) (cases e; simp add: orRaise_def keeps_basic)

lemma keeps_sign: "keeps (unsent h) (sign N reg a msgs fee memo)"
  unfolding sign_def getSequence_def getAccount_def auth_account_def queryAbci_def getChainId_def signDirect_def signAmino_def signerAccount_def Let_def case_prod_unfold
  by (intro keeps_intros) (simp_all add: unsent_def early_def)

lemma wp_auth_account:
  "wp (auth_account N a) (\<lambda>y s'. \<exists>rep. s' = cl_log (AccountQuery a (Inr rep)) s \<and> abci_code rep = 0 \<and> abci_height rep \<noteq> 0
     \<and> decode_msg QueryAccountResponse_decode None (abci_value rep) = Inr y) (\<lambda>_ _. True) s"
  unfolding auth_account_def queryAbci_def wp_simps by (simp split: sum.split) blast

lemma account_inI:
  "abci_code rep = 0 \<Longrightarrow> abci_height rep \<noteq> 0 \<Longrightarrow> decode_msg QueryAccountResponse_decode None (abci_value rep) = Inr (Some y) \<Longrightarrow>
   accountFromAny y = Inr x \<Longrightarrow> account_in rep = Some (account_of x)"
  by (simp add: account_in_def)

lemma wp_getAccount:
  "wp (getAccount N a) (\<lambda>r s'. \<forall>x. r = Some x \<longrightarrow> (\<exists>rep. s' = cl_log (AccountQuery a (Inr rep)) s \<and> account_in rep = Some (account_of x)))
     (\<lambda>_ _. True) s"
  unfolding getAccount_def wp_simps
  by (rule wp_frame [OF wp_auth_account])
    (elim exE conjE, auto simp del: account_of.simps split: option.split sum.split intro: account_inI)

lemma wp_getSequence:
  "wp (getSequence N a) (\<lambda>acc s'. \<exists>rep. account_in rep = Some acc \<and> s' = cl_log (AccountQuery a (Inr rep)) s) (\<lambda>_ _. True) s"
  unfolding getSequence_def wp_simps by (rule wp_frame [OF wp_getAccount]) (auto split: option.split)

lemma wp_getChainId:
  "wp (getChainId N) (\<lambda>c s'. (s' = s \<and> cl_chainId s = Some c) \<or> cl_tr s' = cl_tr s @ [QueryStatus (Inr c)]) (\<lambda>_ _. True) s"
  by (auto simp: getChainId_def wp_simps split: sum.split option.split)

lemma wp_signerAccount:
  "wp (signerAccount N a) (\<lambda>x s'. \<exists>xs. s' = cl_log (SignerAccounts (Inr xs)) s \<and> x \<in> set xs \<and> sa_address x = a) (\<lambda>_ _. True) s"
  by (auto simp: signerAccount_def wp_simps find_Some_iff split: sum.split option.split)

lemma document_made:
  "map_sum_list (encodeAsAny reg) msgs = Inr anys \<Longrightarrow> Int53_fromString (fee_gas fee) = Inr gas \<Longrightarrow>
   document reg msgs fee memo key acc chainId
     (makeSignDoc (finish (TxBody_encode (tx_body_of anys memo) bcreate))
       (makeAuthInfoBytes [(pubkey_any key, acc_sequence acc)] (fee_coins fee) gas None None SIGN_MODE_DIRECT) chainId (acc_accountNumber acc))"
  by (simp add: document_def makeSignDoc_def makeAuthInfoBytes_def auth_of_def)

lemma wp_signDirect:
  "wp (signDirect N reg a msgs fee memo acc chainId)
     (\<lambda>q s'. \<exists>x xs doc signed signature sig. cl_tr s' = cl_tr s @ [SignerAccounts (Inr xs), SignDirect a doc (Inr (signed, signature))]
        \<and> x \<in> set xs \<and> sa_address x = a \<and> document reg msgs fee memo (sa_pubkey x) acc chainId doc
        \<and> fromBase64 signature = Inr sig
        \<and> q = \<lparr>raw_bodyBytes = sd_bodyBytes signed, raw_authInfoBytes = sd_authInfoBytes signed, raw_signatures = [sig]\<rparr>)
     (\<lambda>_ _. True) s"
  unfolding signDirect_def wp_andThen
  by (rule wp_frame [OF wp_signerAccount])
     (auto simp: wp_simps Let_def encodeSecp256k1Pubkey_def encodePubkey_def encodeTxBody_def
        simp flip: tx_body_of_def pubkey_any_def split: sum.split intro!: document_made)

lemma wp_sign:
  assumes "n_direct N"
  shows "wp (sign N reg a msgs fee memo)
    (\<lambda>q s'. \<exists>es. cl_tr s' = cl_tr s @ es \<and> signed_as reg a msgs fee memo (cl_chainId s) es q) (\<lambda>_ _. True) s"
  unfolding sign_def wp_andThen wp_if
proof (rule wp_frame [OF wp_getSequence], goal_cases)
  case (1 acc s1)
  then obtain rep where s1: "account_in rep = Some acc" "s1 = cl_log (AccountQuery a (Inr rep)) s" by blast
  show ?case
  proof (rule wp_frame [OF wp_getChainId], goal_cases)
    case (1 c s2)
    then obtain es where s2: "cl_tr s2 = cl_tr s1 @ es" "cl_chainId s1 = Some c \<or> QueryStatus (Inr c) \<in> set es" by fastforce
    show ?case unfolding if_P [OF assms]
    proof (rule wp_frame [OF wp_signDirect], goal_cases)
      case (1 q s3)
      then obtain x xs doc signed signature sig where
        q: "cl_tr s3 = cl_tr s2 @ [SignerAccounts (Inr xs), SignDirect a doc (Inr (signed, signature))]"
          "x \<in> set xs" "sa_address x = a" "document reg msgs fee memo (sa_pubkey x) acc c doc" "fromBase64 signature = Inr sig"
          "q = \<lparr>raw_bodyBytes = sd_bodyBytes signed, raw_authInfoBytes = sd_authInfoBytes signed, raw_signatures = [sig]\<rparr>"
        by blast
      let ?h = "AccountQuery a (Inr rep) # es @ [SignerAccounts (Inr xs), SignDirect a doc (Inr (signed, signature))]"
      have "facts_of a (cl_chainId s) ?h (sa_pubkey x) acc c" using q(2,3) s2(2) s1 by (auto simp: facts_of_def)
      then have "signed_as reg a msgs fee memo (cl_chainId s) ?h q" unfolding signed_as_def using q(4-6) by force
      moreover have "cl_tr s3 = cl_tr s @ ?h" using q(1) s2(1) s1 by simp
      ultimately show ?case by blast
    qed simp
  qed simp
qed simp

lemma facts_of_mono: "facts_of a known h key acc chainId \<Longrightarrow> set h \<subseteq> set h' \<Longrightarrow> facts_of a known h' key acc chainId"
  unfolding facts_of_def by blast

lemma signed_as_mono: "signed_as reg a msgs fee memo known h q \<Longrightarrow> set h \<subseteq> set h' \<Longrightarrow> signed_as reg a msgs fee memo known h' q"
  unfolding signed_as_def using facts_of_mono by (metis (no_types, lifting) subsetD)

text \<open>\<open>submit\<close>: only the signed transaction is sent, after the timer was set, and it is the last call.\<close>

lemma wp_submit:
  "wp (submit N reg a msgs fee memo t)
    (\<lambda>txId s'. \<exists>es q r. cl_tr s' = cl_tr s @ es @ [StartTimer t, BroadcastTxSync (finish (TxRaw_encode q bcreate)) (Inr r)]
       \<and> list_all early es \<and> (n_direct N \<longrightarrow> signed_as reg a msgs fee memo (cl_chainId s) es q)
       \<and> txId = toUpperHex (sync_hash r) \<and> sync_code r = 0)
    (\<lambda>_ s'. unsent (cl_tr s) s'
       \<or> (\<exists>es q r. cl_tr s' = cl_tr s @ es @ [StartTimer t, BroadcastTxSync (finish (TxRaw_encode q bcreate)) r]
           \<and> list_all early es \<and> (n_direct N \<longrightarrow> signed_as reg a msgs fee memo (cl_chainId s) es q))) s"
proof -
  have "wp (sign N reg a msgs fee memo)
      (\<lambda>q s'. \<exists>es. cl_tr s' = cl_tr s @ es \<and> list_all early es \<and> (n_direct N \<longrightarrow> signed_as reg a msgs fee memo (cl_chainId s) es q))
      (\<lambda>_. unsent (cl_tr s)) s"
  proof (cases "n_direct N")
    case True
    show ?thesis
      by (rule wp_frame [OF wp_conj [OF wp_sign [OF True] keepsD [OF keeps_sign unsent_refl]]]) (auto simp: unsent_def)
  next
    case False
    then show ?thesis by (intro wp_frame [OF keepsD [OF keeps_sign unsent_refl]]) (auto simp: unsent_def)
  qed
  then show ?thesis unfolding submit_def wp_andThen
  proof (rule wp_frame, goal_cases)
    case (1 q s1)
    then obtain es where "cl_tr s1 = cl_tr s @ es" "list_all early es"
      "n_direct N \<longrightarrow> signed_as reg a msgs fee memo (cl_chainId s) es q" by blast
    then show ?case by (auto simp: broadcastTxSync_def wp_simps split: sum.split)
  qed simp
qed

section \<open>The whole call\<close>

lemma poll_events:
  assumes "pollForTx N t i txId s = Some y"
  shows "\<exists>es. cl_tr (snd y) = cl_tr s @ es \<and> list_all is_poll es"
  using assms
proof (induction rule: pollForTx.raw_induct [rotated, consumes 1])
  case (1 poll N t i txId s y)
  let ?h = "cl_tr s @ [Sleep i]"
  let ?reply = "n_search N ?h (tx_query txId)"
  let ?s1 = "s\<lparr>cl_tr := ?h @ [TxSearch (tx_query txId) ?reply]\<rparr>"
  show ?case
  proof (cases "n_timedOut N (cl_tr s)")
    case True
    with 1(2) show ?thesis by auto
  next
    case False
    with 1(2) have "snd y = ?s1 \<or> poll N t i txId ?s1 = Some y"
      by (auto simp: run_poll_round Let_def split: sum.splits list.splits)
    then show ?thesis using 1(1) [of N t i txId ?s1 y] by auto
  qed
qed

lemma early_no_sleep: "list_all early es \<Longrightarrow> filter is_sleep es = []"
  by (auto simp: filter_empty_conv list_all_iff early_def elim!: is_sleep.elims)

text \<open>A call sends at most one transaction, and it is the one that was signed.\<close>

lemma split_unique:
  assumes "xs @ x # ys = us @ u # vs" "P x" "\<not> list_ex P us" "\<not> list_ex P vs"
  shows "xs = us \<and> x = u \<and> ys = vs"
  using assms by (auto simp: append_eq_append_conv2 append_eq_Cons_conv Cons_eq_append_conv)

lemma call_shape:
  assumes "signAndBroadcast N reg a msgs fee memo s = Some (r, s')" "n_direct N" "cl_tr s' = cl_tr s @ es"
  shows "\<not> list_ex is_send es
    \<or> (\<exists>es1 q reply hs. es = es1 @ BroadcastTxSync (finish (TxRaw_encode q bcreate)) reply # hs \<and> \<not> list_ex is_send es1
         \<and> \<not> list_ex is_send hs \<and> signed_as reg a msgs fee memo (cl_chainId s) es1 q)"
proof -
  obtain r1 s1 where run: "run (submit N reg a msgs fee memo 60000) s = (r1, s1)" by force
  obtain hs where hs: "cl_tr s' = cl_tr s1 @ hs" "list_all is_poll hs"
  proof (cases r1)
    case (Inl e)
    with assms(1) run that [of "[]"] show ?thesis by (simp add: signAndBroadcast_def)
  next
    case (Inr txId)
    with assms(1) run have "pollForTx N 60000 3000 txId s1 = Some (r, s')" by (simp add: signAndBroadcast_def)
    from poll_events [OF this] that show ?thesis by auto
  qed
  then have hs': "\<not> list_ex is_send hs" by (fastforce simp: list_ex_iff list_all_iff elim!: is_send.elims)
  have "unsent (cl_tr s) s1 \<or> (\<exists>es q r. cl_tr s1 = cl_tr s @ es @ [StartTimer 60000, BroadcastTxSync (finish (TxRaw_encode q bcreate)) r]
      \<and> list_all early es \<and> signed_as reg a msgs fee memo (cl_chainId s) es q)"
    using wp_submit [of N reg a msgs fee memo 60000 s] run assms(2) by (cases r1) (auto simp: wp_def)
  then show ?thesis
  proof (elim disjE exE conjE)
    assume "unsent (cl_tr s) s1"
    with hs(1) hs' assms(3) show ?thesis by (auto simp: unsent_def list_ex_iff list_all_iff early_def)
  next
    fix es1 q r1
    assume e: "cl_tr s1 = cl_tr s @ es1 @ [StartTimer 60000, BroadcastTxSync (finish (TxRaw_encode q bcreate)) r1]"
      "list_all early es1" "signed_as reg a msgs fee memo (cl_chainId s) es1 q"
    let ?es1 = "es1 @ [StartTimer 60000]"
    have "es = ?es1 @ BroadcastTxSync (finish (TxRaw_encode q bcreate)) r1 # hs" using e(1) hs(1) assms(3) by simp
    moreover have "\<not> list_ex is_send ?es1" using e(2) by (auto simp: list_ex_iff list_all_iff early_def)
    moreover have "signed_as reg a msgs fee memo (cl_chainId s) ?es1 q" by (rule signed_as_mono [OF e(3)]) auto
    ultimately show ?thesis using hs' by blast
  qed
qed

lemma call_sends:
  assumes "signAndBroadcast N reg a msgs fee memo s = Some (r, s')" "n_direct N" "cl_tr s' = cl_tr s @ es"
    and "es = es1 @ BroadcastTxSync bs reply # es2"
  shows "\<not> list_ex is_send (es1 @ es2)
    \<and> (\<exists>q. bs = finish (TxRaw_encode q bcreate) \<and> signed_as reg a msgs fee memo (cl_chainId s) es1 q)"
proof -
  from call_shape [OF assms(1-3)] assms(4) obtain hs1 q x hs2 where
    q: "es = hs1 @ BroadcastTxSync (finish (TxRaw_encode q bcreate)) x # hs2" "\<not> list_ex is_send hs1" "\<not> list_ex is_send hs2"
      "signed_as reg a msgs fee memo (cl_chainId s) hs1 q" by auto
  have "es1 = hs1 \<and> BroadcastTxSync bs reply = BroadcastTxSync (finish (TxRaw_encode q bcreate)) x \<and> es2 = hs2"
    using q(1-3) assms(4) by (intro split_unique [where P = is_send]) auto
  with q show ?thesis by auto
qed

text \<open>It returns, with at most twenty sleeps.\<close>

definition call_outcome :: "exn + tx_result \<Rightarrow> ctrace \<Rightarrow> bool" where
  "call_outcome r es \<longleftrightarrow> (case r of
       Inl e \<Rightarrow> True
     | Inr res \<Rightarrow> \<exists>bs reply tx txs. BroadcastTxSync bs (Inr reply) \<in> set es \<and> sync_code reply = 0
         \<and> last es = TxSearch (tx_query (toUpperHex (sync_hash reply))) (Inr (tx # txs))
         \<and> res = \<lparr>tx_code = found_code tx, rawLog = found_log tx, transactionHash = toUpperHex (sync_hash reply)\<rparr>)"

lemma call_returns:
  assumes "timers_in_order N 60000 3000"
  shows "\<exists>r s' es. signAndBroadcast N reg a msgs fee memo s = Some (r, s') \<and> cl_tr s' = cl_tr s @ es
    \<and> length (filter is_sleep es) \<le> 20 \<and> call_outcome r es"
proof -
  obtain r1 s1 where run: "run (submit N reg a msgs fee memo 60000) s = (r1, s1)" by force
  note w = wp_submit [of N reg a msgs fee memo 60000 s]
  show ?thesis
  proof (cases r1)
    case (Inl e)
    with run have "signAndBroadcast N reg a msgs fee memo s = Some (Inl e, s1)" by (simp add: signAndBroadcast_def)
    moreover have "\<exists>es. cl_tr s1 = cl_tr s @ es \<and> filter is_sleep es = []"
      using w run Inl by (auto simp: wp_def unsent_def intro: early_no_sleep)
    ultimately show ?thesis by (force simp: call_outcome_def)
  next
    case (Inr txId)
    with w run obtain es q reply where e: "cl_tr s1 = cl_tr s @ es @ [StartTimer 60000, BroadcastTxSync (finish (TxRaw_encode q bcreate)) (Inr reply)]"
        "list_all early es" "txId = toUpperHex (sync_hash reply)" "sync_code reply = 0" by (auto simp: wp_def)
    have z: "sleeps (cl_tr s1) = 0" by (simp add: e(1) sleeps_def)
    from poll_returns [OF assms, of s1 txId] z obtain r s' hs where p: "pollForTx N 60000 3000 txId s1 = Some (r, s')"
      "cl_tr s' = cl_tr s1 @ hs" "3000 * sleeps (cl_tr s') < 60000 + 3000"
      "sleeps (cl_tr s') = length (filter is_sleep hs)" "poll_outcome N 60000 txId r (cl_tr s')" by auto
    let ?es = "es @ [StartTimer 60000, BroadcastTxSync (finish (TxRaw_encode q bcreate)) (Inr reply)] @ hs"
    have "cl_tr s' = cl_tr s @ ?es" using p(2) e(1) by simp
    moreover have "length (filter is_sleep ?es) \<le> 20" using p(3,4) early_no_sleep [OF e(2)] by simp
    moreover have "call_outcome r ?es" unfolding call_outcome_def
      using p(5) e(3,4) \<open>cl_tr s' = cl_tr s @ ?es\<close> by (fastforce simp: poll_outcome_def split: sum.split)
    moreover have "signAndBroadcast N reg a msgs fee memo s = Some (r, s')" using run Inr p(1) by (simp add: signAndBroadcast_def)
    ultimately show ?thesis by blast
  qed
qed

section \<open>Signers without direct mode\<close>

fun is_signing :: "client_event \<Rightarrow> bool" where
  "is_signing (SignDirect _ _ _) = True"
| "is_signing (SignAmino _ _) = True"
| "is_signing _ = False"

lemma wallet_urls_not_amino: "well_typed m \<Longrightarrow> typeUrl m \<notin> set amino_urls"
  by (auto simp: well_typed_def amino_urls_def url_CreateSlot_def url_UpdateSlotStatus_def url_LeaseSlot_def
      url_RegisterPublisher_def lit_def split: msg_value.splits)

lemma amino_fails:
  assumes "\<not> n_direct N" "well_typed m"
  shows "\<exists>e s' es. signAndBroadcast N reg a [m] fee memo s = Some (Inl e, s') \<and> cl_tr s' = cl_tr s @ es
    \<and> \<not> list_ex is_signing es \<and> \<not> list_ex is_send es"
proof -
  have "wp (submit N reg a [m] fee memo 60000) (\<lambda>_ _. False)
    (\<lambda>_ s'. \<exists>es. cl_tr s' = cl_tr s @ es \<and> \<not> list_ex is_signing es \<and> \<not> list_ex is_send es) s"
    using assms(1) wallet_urls_not_amino [OF assms(2)]
    by (auto simp: submit_def sign_def getSequence_def getAccount_def auth_account_def queryAbci_def getChainId_def signAmino_def signerAccount_def wp_simps
        split: sum.split option.split)
  then show ?thesis by (auto simp: wp_def signAndBroadcast_def split: prod.splits sum.splits)
qed

section \<open>Reading a transaction\<close>

text \<open>\<open>read_tx\<close>: the raw transaction, then its body and its auth info.\<close>

definition read_tx :: "byte list \<Rightarrow> (tx_body \<times> auth_info \<times> byte list list) option" where
  "read_tx bs =
     Option.bind (read_message raw_step raw_blank bs) (\<lambda>q.
     Option.bind (read_message body_step body_blank (raw_bodyBytes q)) (\<lambda>b.
     Option.bind (read_message auth_step auth_blank (raw_authInfoBytes q)) (\<lambda>i. Some (b, i, raw_signatures q))))"

lemma read_tx_back:
  assumes "q = \<lparr>raw_bodyBytes = finish (TxBody_encode b bcreate), raw_authInfoBytes = finish (AuthInfo_encode i bcreate), raw_signatures = sigs\<rparr>"
    and "small (finish (TxRaw_encode q bcreate))" "u64_ok (tb_timeoutHeight b)" "auth_numbers i"
  shows "read_tx (finish (TxRaw_encode q bcreate)) = Some (b, i, sigs) \<and> body_ok b \<and> auth_ok i"
proof -
  have ok: "raw_ok q" using assms(2) by (intro raw_size.small_encodable) (simp_all add: small_weight)
  then have "small (finish (TxBody_encode b bcreate))" "small (finish (AuthInfo_encode i bcreate))"
    by (simp_all add: raw_ok_def assms(1))
  then show ?thesis using assms ok body_size.small_encodable [of b] auth_size.small_encodable [of i]
    by (simp add: read_tx_def tx_raw.decode_encode tx_body.decode_encode auth_info.decode_encode small_weight)
qed

text \<open>
  What the client relies on: the signer signs the document it was shown, and the node's sequence numbers are
  outside the gap of the writer. \<open>gas_ok\<close> says the same of the gas limit.
\<close>

fun reply_ok :: "client_event \<Rightarrow> bool" where
  "reply_ok (SignDirect _ doc (Inr (doc', _))) = (doc' = doc)"
| "reply_ok (AbciQuery _ _ (Inr rep)) = pred_option (\<lambda>acc. u64_ok (acc_sequence acc)) (account_in rep)"
| "reply_ok _ = True"

definition gas_ok :: "std_fee \<Rightarrow> bool" where
  "gas_ok fee \<longleftrightarrow> (case Int53_fromString (fee_gas fee) of Inl _ \<Rightarrow> True | Inr n \<Rightarrow> u64_ok n)"

lemma auth_of_numbers: "u64_ok sequence \<Longrightarrow> u64_ok gas \<Longrightarrow> auth_numbers (auth_of key sequence fee gas)"
  by (simp add: auth_numbers_def auth_of_def makeAuthInfo_def makeSignerInfos_def signer_numbers_def Fee_fromPartial_def
      SIGN_MODE_DIRECT_def single_ok_def)

lemma tx_received:
  assumes "signAndBroadcast N reg a msgs fee memo s = Some (r, s')" "n_direct N" "cl_tr s' = cl_tr s @ es"
    and "es = es1 @ BroadcastTxSync bs reply # es2" "list_all reply_ok es1" "gas_ok fee" "small bs"
  shows "\<exists>anys key acc chainId gas sig doc signature.
    map_sum_list (encodeAsAny reg) msgs = Inr anys \<and> Int53_fromString (fee_gas fee) = Inr gas
    \<and> read_tx bs = Some (tx_body_of anys memo, auth_of key (acc_sequence acc) fee gas, [sig])
    \<and> list_all any_ok anys \<and> facts_of a (cl_chainId s) es1 key acc chainId \<and> document reg msgs fee memo key acc chainId doc
    \<and> SignDirect a doc (Inr (doc, signature)) \<in> set es1 \<and> fromBase64 signature = Inr sig"
proof -
  from call_sends [OF assms(1-4)] obtain q key acc chainId doc signed signature sig where
    q: "bs = finish (TxRaw_encode q bcreate)" "facts_of a (cl_chainId s) es1 key acc chainId"
      "document reg msgs fee memo key acc chainId doc" "SignDirect a doc (Inr (signed, signature)) \<in> set es1"
      "fromBase64 signature = Inr sig"
      "q = \<lparr>raw_bodyBytes = sd_bodyBytes signed, raw_authInfoBytes = sd_authInfoBytes signed, raw_signatures = [sig]\<rparr>"
    unfolding signed_as_def by blast
  have "reply_ok (SignDirect a doc (Inr (signed, signature)))" using assms(5) q(4) unfolding list_all_iff by blast
  then have signed: "signed = doc" by simp
  obtain rep where "reply_ok (AccountQuery a (Inr rep))" "account_in rep = Some acc"
    using assms(5) q(2) unfolding list_all_iff facts_of_def by blast
  then have seq: "u64_ok (acc_sequence acc)" by simp
  from q(3) obtain anys gas where d: "map_sum_list (encodeAsAny reg) msgs = Inr anys" "Int53_fromString (fee_gas fee) = Inr gas"
      "sd_bodyBytes doc = finish (TxBody_encode (tx_body_of anys memo) bcreate)"
      "sd_authInfoBytes doc = finish (AuthInfo_encode (auth_of key (acc_sequence acc) fee gas) bcreate)"
    by (auto simp: document_def)
  have "u64_ok gas" using assms(6) d(2) by (simp add: gas_ok_def)
  then have "auth_numbers (auth_of key (acc_sequence acc) fee gas)" using seq by (rule auth_of_numbers [rotated])
  moreover have "q = \<lparr>raw_bodyBytes = finish (TxBody_encode (tx_body_of anys memo) bcreate),
      raw_authInfoBytes = finish (AuthInfo_encode (auth_of key (acc_sequence acc) fee gas) bcreate), raw_signatures = [sig]\<rparr>"
    using q(6) d(3,4) signed by simp
  moreover have "u64_ok (tb_timeoutHeight (tx_body_of anys memo))" by (simp add: tx_body_of_def u64_ok_def)
  ultimately have "read_tx bs = Some (tx_body_of anys memo, auth_of key (acc_sequence acc) fee gas, [sig])" "body_ok (tx_body_of anys memo)"
    using read_tx_back [of q] assms(7) q(1) by simp_all
  moreover from this(2) have "list_all any_ok anys" by (simp add: body_ok_def tx_body_of_def fits_def list_all_iff)
  ultimately show ?thesis using d(1,2) q(2,3,4,5) signed by blast
qed

section \<open>When everyone cooperates\<close>

text \<open>The node knows the account, the signer signs what it is shown, the node accepts the transaction and reports it.\<close>

definition cooperative :: "network \<Rightarrow> jstring \<Rightarrow> abci_reply \<Rightarrow> chain_account \<Rightarrow> jstring \<Rightarrow> signer_account \<Rightarrow> jstring \<Rightarrow> byte list \<Rightarrow> sync_reply \<Rightarrow> found_tx \<Rightarrow> bool" where
  "cooperative N a rep acc chainId x signature sig reply tx \<longleftrightarrow>
     n_direct N \<and> (\<forall>h. n_abci N h accountPath (accountRequest a) = Inr rep) \<and> account_in rep = Some acc \<and> (\<forall>h. n_status N h = Inr chainId) \<and> chainId \<noteq> []
     \<and> (\<forall>h. n_accounts N h = Inr [x]) \<and> sa_address x = a \<and> length (sa_pubkey x) = 33 \<and> hd (sa_pubkey x) \<in> {2, 3}
     \<and> (\<forall>h doc. n_signDirect N h a doc = Inr (doc, signature)) \<and> fromBase64 signature = Inr sig
     \<and> (\<forall>h bs. n_broadcast N h bs = Inr reply) \<and> sync_code reply = 0
     \<and> (\<forall>h q. n_search N h q = Inr [tx]) \<and> (\<forall>h. sleeps h = 0 \<longrightarrow> \<not> n_timedOut N h)"

definition made_doc :: "any list \<Rightarrow> jstring \<Rightarrow> byte list \<Rightarrow> chain_account \<Rightarrow> std_fee \<Rightarrow> int \<Rightarrow> jstring \<Rightarrow> sign_doc" where
  "made_doc anys memo key acc fee gas chainId =
     makeSignDoc (finish (TxBody_encode (tx_body_of anys memo) bcreate))
       (finish (AuthInfo_encode (auth_of key (acc_sequence acc) fee gas) bcreate)) chainId (acc_accountNumber acc)"

definition made_tx :: "sign_doc \<Rightarrow> byte list \<Rightarrow> byte list" where
  "made_tx doc sig = finish (TxRaw_encode \<lparr>raw_bodyBytes = sd_bodyBytes doc, raw_authInfoBytes = sd_authInfoBytes doc, raw_signatures = [sig]\<rparr> bcreate)"

lemma run_ask: "run (ask r ev) s = (r (cl_tr s), cl_log (ev (r (cl_tr s))) s)"
  by (simp add: ask_def)

lemma run_orThrow:
  "run (orThrow r) s = (case r of Inl m \<Rightarrow> Inl (newError m) | Inr x \<Rightarrow> Inr x, s)" "run (orRaise e) s = (e, s)"
  by (simp_all add: orThrow_def orRaise_def run_simps split: sum.split)

lemma run_getSequence:
  assumes "n_abci N (cl_tr s) accountPath (accountRequest a) = Inr rep" "account_in rep = Some acc"
  shows "run (getSequence N a) s = (Inr acc, cl_log (AccountQuery a (Inr rep)) s)"
  using assms by (auto simp: getSequence_def getAccount_def auth_account_def queryAbci_def account_in_def run_simps run_ask run_orThrow
      split: if_splits sum.splits option.splits)

text \<open>The client asks for the chain id once and remembers it.\<close>

definition status_calls :: "client_state \<Rightarrow> jstring \<Rightarrow> ctrace" where
  "status_calls s chainId = (if cl_chainId s = None then [QueryStatus (Inr chainId)] else [])"

lemma run_getChainId:
  assumes "\<forall>h. n_status N h = Inr chainId" "chainId \<noteq> []" "cl_chainId s = None \<or> cl_chainId s = Some chainId"
  shows "run (getChainId N) s = (Inr chainId, s\<lparr>cl_chainId := Some chainId, cl_tr := cl_tr s @ status_calls s chainId\<rparr>)"
  using assms by (auto simp: getChainId_def status_calls_def run_simps run_ask cl_log_def)

lemma call_succeeds:
  fixes memo :: jstring
  assumes c: "cooperative N a rep acc chainId x signature sig reply tx" and known: "cl_chainId s = None \<or> cl_chainId s = Some chainId"
    and msgs: "map_sum_list (encodeAsAny reg) msgs = Inr anys" "Int53_fromString (fee_gas fee) = Inr gas"
  defines "doc \<equiv> made_doc anys memo (sa_pubkey x) acc fee gas chainId" and "hash \<equiv> toUpperHex (sync_hash reply)"
  shows "signAndBroadcast N reg a msgs fee memo s =
    Some (Inr \<lparr>tx_code = found_code tx, rawLog = found_log tx, transactionHash = hash\<rparr>,
      \<lparr>cl_chainId = Some chainId, cl_tr = cl_tr s @ [AccountQuery a (Inr rep)] @ status_calls s chainId @
        [SignerAccounts (Inr [x]), SignDirect a doc (Inr (doc, signature)), StartTimer 60000,
         BroadcastTxSync (made_tx doc sig) (Inr reply), Sleep 3000, TxSearch (tx_query hash) (Inr [tx])]\<rparr>)"
proof -
  have k: "encodeSecp256k1Pubkey (sa_pubkey x) = Inr (toBase64 (sa_pubkey x))" using c by (auto simp: cooperative_def encodeSecp256k1Pubkey_def)
  have p: "encodePubkey (toBase64 (sa_pubkey x)) = Inr (pubkey_any (sa_pubkey x))" by (simp add: encodePubkey_def pubkey_any_def)
  have b: "encodeTxBody reg msgs memo None = Inr (finish (TxBody_encode (tx_body_of anys memo) bcreate))"
    using msgs(1) by (simp add: encodeTxBody_def tx_body_of_def)
  have d: "makeSignDoc (finish (TxBody_encode (tx_body_of anys memo) bcreate))
      (makeAuthInfoBytes [(pubkey_any (sa_pubkey x), acc_sequence acc)] (fee_coins fee) gas None None SIGN_MODE_DIRECT)
      chainId (acc_accountNumber acc) = doc" by (simp add: doc_def made_doc_def makeAuthInfoBytes_def auth_of_def)
  let ?h = "cl_tr s @ [AccountQuery a (Inr rep)] @ status_calls s chainId @ [SignerAccounts (Inr [x]),
      SignDirect a doc (Inr (doc, signature)), StartTimer 60000, BroadcastTxSync (made_tx doc sig) (Inr reply)]"
  let ?s = "s\<lparr>cl_tr := cl_tr s @ [AccountQuery a (Inr rep)]\<rparr>"
  have i: "run (getChainId N) ?s = (Inr chainId, s\<lparr>cl_chainId := Some chainId, cl_tr := cl_tr ?s @ status_calls s chainId\<rparr>)"
    using c known run_getChainId [of N chainId ?s] by (simp add: cooperative_def status_calls_def)
  have "run (submit N reg a msgs fee memo 60000) s = (Inr hash, \<lparr>cl_chainId = Some chainId, cl_tr = ?h\<rparr>)"
    using c k p b d msgs(2)
    by (simp add: submit_def sign_def run_getSequence [of N s a rep acc] i signDirect_def signerAccount_def broadcastTxSync_def
        cooperative_def run_simps run_ask run_orThrow cl_log_def made_tx_def hash_def)
  moreover have "pollForTx N 60000 3000 hash \<lparr>cl_chainId = Some chainId, cl_tr = ?h\<rparr> =
    Some (Inr \<lparr>tx_code = found_code tx, rawLog = found_log tx, transactionHash = hash\<rparr>,
      \<lparr>cl_chainId = Some chainId, cl_tr = ?h @ [Sleep 3000, TxSearch (tx_query hash) (Inr [tx])]\<rparr>)"
  proof -
    have "sleeps ?h = 0" by (simp add: sleeps_def)
    then have "\<not> n_timedOut N ?h" using c by (simp add: cooperative_def)
    then show ?thesis using c by (subst pollForTx.simps) (simp add: run_poll_round cooperative_def)
  qed
  ultimately show ?thesis by (simp add: signAndBroadcast_def)
qed

text \<open>An account the client cannot read ends the call, unless the text of the error says that there is none.\<close>

definition says_not_found :: "exn \<Rightarrow> bool" where
  "says_not_found e \<longleftrightarrow> includesStr (map ascii_lower (ex_string e)) (lit ''rpc error: code = notfound'')"

lemma call_stops:
  assumes "run (getSequence N a) s = (Inl e, s')"
  shows "signAndBroadcast N reg a msgs fee memo s = Some (Inl e, s')"
  using assms by (simp add: signAndBroadcast_def submit_def sign_def run_simps)

definition answered :: "abci_reply \<Rightarrow> any \<Rightarrow> bool" where
  "answered rep y \<longleftrightarrow> abci_code rep = 0 \<and> abci_height rep \<noteq> 0 \<and> decode_msg QueryAccountResponse_decode None (abci_value rep) = Inr (Some y)"

lemma run_getAccount:
  assumes "n_abci N (cl_tr s) accountPath (accountRequest a) = Inr rep" "answered rep y" "accountFromAny y = Inr x"
  shows "run (getAccount N a) s = (Inr (Some x), cl_log (AccountQuery a (Inr rep)) s)"
  using assms by (simp add: getAccount_def auth_account_def queryAbci_def answered_def run_simps run_ask run_orThrow)

lemma account_error:
  assumes "n_abci N (cl_tr s) accountPath (accountRequest a) = Inr rep" "answered rep y" "accountFromAny y = Inl e" "\<not> says_not_found e"
  shows "signAndBroadcast N reg a msgs fee memo s = Some (Inl e, cl_log (AccountQuery a (Inr rep)) s)"
  using assms by (intro call_stops) (simp add: getSequence_def getAccount_def auth_account_def queryAbci_def says_not_found_def
      answered_def run_simps run_ask run_orThrow)

lemma not_found_53: "\<not> says_not_found (newError (lit ''Number can only safely store up to 53 bits''))"
  by code_simp

text \<open>The node does not know the account: its log says so, in capitals or not, whatever stands around the words.\<close>

definition unknown_account :: "jstring \<Rightarrow> exn" where
  "unknown_account a = newError (lit ''Account '' @ 39 # a @ 39 #
     lit '' does not exist on chain. Send some tokens there before trying to query sequence.'')"

lemma account_unknown:
  assumes "n_abci N (cl_tr s) accountPath (accountRequest a) = Inr rep" "abci_code rep \<noteq> 0"
    and "abci_log rep = pre @ words @ post" "map ascii_lower words = lit ''rpc error: code = notfound''"
  shows "signAndBroadcast N reg a msgs fee memo s = Some (Inl (unknown_account a), cl_log (AccountQuery a (Inr rep)) s)"
proof -
  define e where "e = newError (lit ''Query failed with ('' @ numToString (Fin (of_int (abci_code rep))) @ lit ''): '' @ abci_log rep)"
  have "says_not_found e" unfolding says_not_found_def includesStr_iff e_def assms(3)
    using assms(4) by (simp add: newError_def lit_eq_iff) (metis append.assoc)
  moreover from assms have "run (auth_account N a) s = (Inl e, cl_log (AccountQuery a (Inr rep)) s)"
    by (simp add: auth_account_def queryAbci_def e_def run_simps run_ask)
  ultimately show ?thesis
    by (intro call_stops) (simp add: getSequence_def getAccount_def says_not_found_def unknown_account_def run_simps)
qed

text \<open>The reply of a chain that has the account.\<close>

definition chain_reply :: "chain_side \<Rightarrow> int \<Rightarrow> abci_reply" where
  "chain_reply x height = \<lparr>abci_code = 0, abci_log = [], abci_value = wire_bytes (omfield 1 any_fields (Some (account_any x))), abci_height = height\<rparr>"

lemma chain_reply_answered: "deliverable any_readable any_fields (account_any x) \<Longrightarrow> height \<noteq> 0 \<Longrightarrow> answered (chain_reply x height) (account_any x)"
  using response_r.decode_bytes [of "Some (account_any x)"] by (simp add: answered_def chain_reply_def)

lemma answered_account: "answered rep y \<Longrightarrow> accountFromAny y = Inr x \<Longrightarrow> account_in rep = Some (account_of x)"
  by (simp add: answered_def account_inI)

end
