(* ===== verification/Wallet.thy ===== *)
theory Wallet
  imports WalletEnv
begin

text \<open>
  The routines of \<open>static/wallet.js\<close> from \<open>dependencyLoadMessage\<close> to \<open>submitTx\<close>: notices, the chain
  suggestion, connecting the wallet, loading the bundle, the RPC client, the start date of a lease
  and the submission of a transaction.
\<close>

definition orElse :: "jstring \<Rightarrow> jstring \<Rightarrow> jstring" where
  "orElse a b = (if a \<noteq> [] then a else b)"

definition numOr :: "js_number \<Rightarrow> int \<Rightarrow> js_number" where
  "numOr n d = (if truthy n then n else Fin (of_int d))"

section \<open>Loading the bundle\<close>

definition dependencyLoadMessage :: "env \<Rightarrow> exn \<Rightarrow> jstring wproc" where
  "dependencyLoadMessage E err =
     (let message = orElse (if ex_nullish err then [] else ex_message err) (ex_string err);
          lowered = toLowerCase (e_lower E) message
      in if includesStr lowered (lit ''failed to fetch dynamically imported module'')
            \<or> includesStr lowered (lit ''error loading dynamically imported module'')
            \<or> includesStr lowered (lit ''importing a module script failed'')
         then tr_text E (lit ''Wallet transaction support failed to load. Check your network, disable blocking extensions for this site, and retry.'') []
         else ret message)"

definition walletBundleURL :: jstring where
  "walletBundleURL = lit ''/static/wallet-deps.bundle.mjs''"

text \<open>The async function after its import was answered, and the callback of its \<open>catch\<close>.\<close>

definition depsBody :: "env \<Rightarrow> exn + wallet_bundle \<Rightarrow> registry wproc" where
  "depsBody E r =
     andThen (liftE r) (\<lambda>b.
     andThen (guardE (has_Long b) (throwT E (lit ''Failed to load Long dependency.'') [])) (\<lambda>_.
     andThen (guardE (util_Long_same b) (emit ConfigureLong)) (\<lambda>_.
     ret (walletRegistry (default_types b)))))"

definition depsRejected :: "env \<Rightarrow> exn \<Rightarrow> registry wproc" where
  "depsRejected E err =
     andThen (modify (\<lambda>s. s\<lparr>walletDepsPromise := None\<rparr>)) (\<lambda>_.
     andThen (dependencyLoadMessage E err) (\<lambda>m. throw (newError m)))"

text \<open>
  The promise \<open>p\<close> settles: the rest of the async function runs, then the callback when it threw. Neither
  suspends, and nothing the script can observe lies between the two.
\<close>

definition settleDeps :: "env \<Rightarrow> nat \<Rightarrow> wallet \<Rightarrow> wallet" where
  "settleDeps E p s =
     (case promise_at (depsPromises s) p of
        Some (Loading r) \<Rightarrow>
          (case run (catch (depsBody E r) (depsRejected E)) s of
             (result, s') \<Rightarrow> s'\<lparr>depsPromises := (depsPromises s')[p := Settled result]\<rparr>)
      | _ \<Rightarrow> s)"

text \<open>
  \<open>walletDepsPromise = (async () => ...)()\<close>: up to its import the function runs at once, and the promise is
  stored before anything else can happen.
\<close>

definition deps_started :: "env \<Rightarrow> wallet \<Rightarrow> wallet" where
  "deps_started E s =
     (let reply = e_import E (tr s) walletBundleURL
      in (log_event (ImportBundle walletBundleURL reply) s)
           \<lparr>walletDepsPromise := Some (length (depsPromises s)), depsPromises := depsPromises s @ [Loading reply]\<rparr>)"

definition startDeps :: "env \<Rightarrow> nat wproc" where
  "startDeps E = Act (deps_started E) (\<lambda>s. ret (length (depsPromises s)))"

text \<open>
  The caller resumes once the promise is settled: either the loader already had its turn, or it has it now.
\<close>

fun settledValue :: "env \<Rightarrow> deps_promise option \<Rightarrow> registry wproc" where
  "settledValue E (Some (Settled r)) = liftE r"
| "settledValue E _ = throw (e_typeError E (lit ''pending''))"

definition awaitDeps :: "env \<Rightarrow> nat \<Rightarrow> registry wproc" where
  "awaitDeps E p =
     andThen (modify (settleDeps E p)) (\<lambda>_.
     andThen (gets (\<lambda>s. promise_at (depsPromises s) p)) (settledValue E))"

definition loadWalletDeps :: "env \<Rightarrow> registry wproc" where
  "loadWalletDeps E =
     andThen (gets walletDepsPromise) (\<lambda>cached.
     andThen (case cached of Some p \<Rightarrow> ret p | None \<Rightarrow> startDeps E) (\<lambda>p.
     andThen (await (ret ())) (\<lambda>_.
     awaitDeps E p)))"

section \<open>Notices and the address display\<close>

definition find_flash :: "context_node \<Rightarrow> wallet \<Rightarrow> nat option" where
  "find_flash ctx s =
     (case (case ctx of Document \<Rightarrow> doc_flash s | FormNode f \<Rightarrow> form_flash s f) of
        Some i \<Rightarrow> Some i
      | None \<Rightarrow> doc_flash s)"

definition showFlash :: "env \<Rightarrow> jstring \<Rightarrow> bool \<Rightarrow> context_node \<Rightarrow> unit wproc" where
  "showFlash E message isError ctx =
     andThen (tr_text E message []) (\<lambda>message.
     andThen (gets (find_flash ctx)) (\<lambda>flash.
     case flash of
       None \<Rightarrow> if message \<noteq> [] then emit (Alert message) else ret ()
     | Some i \<Rightarrow>
         modify (\<lambda>s. s\<lparr>flashes := (flashes s)[i := \<lparr>textContent = message, hidden = (message = []), is_error = isError\<rparr>]\<rparr>)))"

definition updateWalletAddress :: "env \<Rightarrow> jstring \<Rightarrow> unit wproc" where
  "updateWalletAddress E address =
     andThen (gets (\<lambda>s. address_els s = [])) (\<lambda>none.
     if none then ret ()
     else andThen (if address \<noteq> [] then ret address else tr_text E (lit ''Not connected'') []) (\<lambda>text.
          modify (\<lambda>s. s\<lparr>address_els := map (\<lambda>_. text) (address_els s)\<rparr>)))"

definition is_lower_alnum :: "unit16 \<Rightarrow> bool" where
  "is_lower_alnum c \<longleftrightarrow> is_digit c \<or> (97 \<le> c \<and> c \<le> 122)"

definition isLikelyGridAddress :: "jstring \<Rightarrow> bool" where
  "isLikelyGridAddress address =
     (let value = trim address
      in startsWith value (lit ''congrid1'') \<and> drop 8 value \<noteq> [] \<and> list_all is_lower_alnum (drop 8 value)
         \<and> 20 \<le> length value \<and> length value \<le> 90)"

section \<open>Endpoints\<close>

definition getWalletProviders :: "env \<Rightarrow> (jstring \<times> keplr) list wproc" where
  "getWalletProviders E =
     gets (\<lambda>s. case e_keplr E (tr s) of Some k \<Rightarrow> [(lit ''Keplr'', k)] | None \<Rightarrow> [])"

definition toHttpRPC :: "jstring \<Rightarrow> jstring" where
  "toHttpRPC r =
     (let raw = trim r
      in if raw = [] then []
         else if startsWith raw (lit ''tcp://'') then lit ''http://'' @ drop (length (lit ''tcp://'')) raw
         else raw)"

definition strip_slash :: "jstring \<Rightarrow> jstring" where
  "strip_slash s = (if s \<noteq> [] \<and> last s = 47 then butlast s else s)"

definition defaultRestFromRPC :: "env \<Rightarrow> jstring \<Rightarrow> jstring" where
  "defaultRestFromRPC E r =
     (case e_newURL E (toHttpRPC r) of
        Some u \<Rightarrow> strip_slash (url_href u (if url_port u = lit ''26657'' then lit ''1317'' else url_port u))
      | None \<Rightarrow> lit ''http://127.0.0.1:1317'')"

definition congrid_currency :: "jstring \<Rightarrow> currency" where
  "congrid_currency feeDenom = \<lparr>coinDenom = lit ''CONGRID'', coinMinimalDenom = feeDenom, coinDecimals = 6\<rparr>"

definition chainInfo :: "env \<Rightarrow> jstring \<Rightarrow> chain_info" where
  "chainInfo E chainId =
     (let c = cfg E;
          feeDenom = orElse (trim (orElse (cfg_fee_denom c) (lit ''ucongrid''))) (lit ''ucongrid'')
      in \<lparr>ci_chainId = chainId,
          ci_chainName = lit ''Congrid ('' @ chainId @ lit '')'',
          ci_rpc = toHttpRPC (cfg_rpc c),
          ci_rest = trim (orElse (cfg_rest c) (defaultRestFromRPC E (cfg_rpc c))),
          ci_coinType = 118,
          ci_bech32Config =
            \<lparr>bech32PrefixAccAddr = lit ''congrid'', bech32PrefixAccPub = lit ''congridpub'',
             bech32PrefixValAddr = lit ''congridvaloper'', bech32PrefixValPub = lit ''congridvaloperpub'',
             bech32PrefixConsAddr = lit ''congridvalcons'', bech32PrefixConsPub = lit ''congridvalconspub''\<rparr>,
          ci_stakeCurrency = congrid_currency feeDenom,
          ci_currencies = [congrid_currency feeDenom],
          ci_feeCurrencies =
            [(congrid_currency feeDenom, toNumber (lit ''0.001''), toNumber (lit ''0.0025''), toNumber (lit ''0.004''))]\<rparr>)"

definition suggestChainIfSupported :: "env \<Rightarrow> keplr \<Rightarrow> unit wproc" where
  "suggestChainIfSupported E provider =
     (if \<not> has_suggest provider then ret ()
      else let chainId = trim (cfg_chain_id (cfg E))
           in if chainId = [] then ret ()
              else await (call (\<lambda>h. e_suggest E h (chainInfo E chainId)) (SuggestChain (chainInfo E chainId))))"

section \<open>Connecting\<close>

definition connectProvider :: "env \<Rightarrow> jstring \<times> keplr \<Rightarrow> unit wproc" where
  "connectProvider E item =
     (let chain = cfg_chain_id (cfg E); provider = snd item
      in andThen (await (suggestChainIfSupported E provider)) (\<lambda>_.
         andThen (await (call (\<lambda>h. e_enable E h chain) (Enable chain))) (\<lambda>_.
         andThen (if has_getOfflineSigner provider
                  then call (\<lambda>h. e_getOfflineSigner E h chain) (GetOfflineSigner chain)
                  else await (call (\<lambda>h. e_getOfflineSignerAuto E h chain) (GetOfflineSignerAuto chain))) (\<lambda>sg.
         andThen (await (call (\<lambda>h. e_getAccounts E h sg) (GetAccounts sg))) (\<lambda>accounts.
         case accounts of
           Some (a # _) \<Rightarrow>
             andThen (modify (\<lambda>s. s\<lparr>st_signer := Some sg\<rparr>)) (\<lambda>_.
             andThen (modify (\<lambda>s. s\<lparr>st_address := a\<rparr>)) (\<lambda>_.
             updateWalletAddress E a))
         | _ \<Rightarrow> throwT E (lit ''No wallet accounts available in {0}.'') [fst item])))))"

fun tryProviders :: "env \<Rightarrow> (jstring \<times> keplr) list \<Rightarrow> exn option \<Rightarrow> unit wproc" where
  "tryProviders E [] lastErr =
     (let m = (case lastErr of Some e \<Rightarrow> if ex_nullish e then [] else ex_message e | None \<Rightarrow> [])
      in if m \<noteq> [] then throw (newError m)
         else throwT E (lit ''Wallet connect failed. Please add Congrid chain to Keplr and retry.'') [])"
| "tryProviders E (item # items) lastErr =
     catch (connectProvider E item) (\<lambda>err. tryProviders E items (Some err))"

definition ensureWalletConnected :: "env \<Rightarrow> unit wproc" where
  "ensureWalletConnected E =
     (if \<not> cfg_enabled (cfg E)
      then throwT E (lit ''Wallet signing is not enabled on this deployment.'') []
      else andThen (gets (\<lambda>s. st_signer s \<noteq> None \<and> st_address s \<noteq> [])) (\<lambda>connected.
           if connected then ret ()
           else andThen (getWalletProviders E) (\<lambda>providers.
                if providers = [] then throwT E (lit ''Wallet extension not detected (Keplr).'') []
                else if cfg_chain_id (cfg E) = [] \<or> cfg_rpc (cfg E) = []
                then throwT E (lit ''Missing chain configuration.'') []
                else tryProviders E providers None)))"

definition gas_price_string :: "env \<Rightarrow> jstring" where
  "gas_price_string E = orElse (cfg_gas_price (cfg E)) (lit ''0.001ucongrid'')"

text \<open>
  \<open>state.signer\<close> is passed to \<open>connectWithSigner\<close>; it was set by the connect that just succeeded, and
  the reply for a missing one is the engine's.
\<close>

definition openClient :: "env \<Rightarrow> jstring \<Rightarrow> registry \<Rightarrow> client wproc" where
  "openClient E url registry =
     andThen (feeE (GasPrice_fromString (gas_price_string E))) (\<lambda>gasPrice.
     andThen (gets st_signer) (\<lambda>sg.
     case sg of
       None \<Rightarrow> throw (e_typeError E (lit ''connectWithSigner''))
     | Some g \<Rightarrow>
         andThen (await (call (\<lambda>h. e_connect E h url g registry gasPrice) (ConnectWithSigner url g registry gasPrice))) (\<lambda>c.
         andThen (modify (\<lambda>s. s\<lparr>st_client := Some c\<rparr>)) (\<lambda>_.
         ret c))))"

definition getClient :: "env \<Rightarrow> client wproc" where
  "getClient E =
     andThen (await (ensureWalletConnected E)) (\<lambda>_.
     andThen (gets st_client) (\<lambda>existing.
     case existing of
       Some c \<Rightarrow> ret c
     | None \<Rightarrow>
         let url = toHttpRPC (cfg_rpc (cfg E))
         in if url = [] then throwT E (lit ''Missing RPC endpoint.'') []
            else andThen (await (loadWalletDeps E)) (openClient E url)))"

section \<open>The start date of a lease\<close>

text \<open>
  The quotient \<open>effectiveMs / 1000\<close> is below 2 ^ 43, where doubles are at most 2 ^ -10 apart, so its
  floor is the integer quotient.
\<close>

definition parseStartDate :: "env \<Rightarrow> jstring \<Rightarrow> int wproc" where
  "parseStartDate E value =
     (if value = [] then ret 0
      else case splitOn 45 value of
        [p0, p1, p2] \<Rightarrow>
          (case dateUTC (toNumber p0) (num_plus_int (toNumber p1) (- 1)) (toNumber p2) of
             None \<Rightarrow> throwT E (lit ''Invalid start date.'') []
           | Some startMs \<Rightarrow>
               andThen (gets (\<lambda>s. e_now E (tr s))) (\<lambda>nowMs.
               if startMs < nowMs - 24 * 60 * 60 * 1000
               then throwT E (lit ''Start date must be today or later.'') []
               else ret ((if startMs < nowMs then nowMs + 5 * 60 * 1000 else startMs) div 1000)))
      | _ \<Rightarrow> throwT E (lit ''Invalid start date.'') [])"

section \<open>Submitting\<close>

definition submitTx :: "env \<Rightarrow> encode_object list \<Rightarrow> js_number \<Rightarrow> jstring wproc" where
  "submitTx E msgs gasLimit =
     andThen (await (getClient E)) (\<lambda>client.
     andThen (await (loadWalletDeps E)) (\<lambda>_.
     andThen (feeE (GasPrice_fromString (gas_price_string E))) (\<lambda>gasPrice.
     andThen (feeE (calculateFee gasLimit gasPrice)) (\<lambda>fee.
     andThen (gets st_address) (\<lambda>address.
     andThen (await (call (\<lambda>h. e_broadcast E h client address msgs fee) (SignAndBroadcast client address msgs fee []))) (\<lambda>result.
     if tx_code result \<noteq> 0
     then (if rawLog result \<noteq> [] then throw (newError (rawLog result))
           else throwT E (lit ''Tx failed with code {0}'') [numToString (Fin (of_int (tx_code result)))])
     else ret (transactionHash result)))))))"

end
