(* ===== verification/WalletForms.thy ===== *)
theory WalletForms
  imports Wallet
begin

text \<open>
  The event handlers \<open>static/wallet.js\<close> binds (connect buttons and the four forms), the binding
  itself and \<open>initWalletUI\<close>. The \<open>try\<close> block of each form is a definition of its own. A handler's thrown value is what an unhandled rejection would carry.

  \<open>dispatch\<close> runs the handler of an installed listener; \<open>page_run\<close> is the page's life: the initial
  \<open>initWalletUI\<close> followed by any sequence of dispatched events.
\<close>

section \<open>Helpers of the handlers\<close>

text \<open>\<open>String(data.get(k) || "").trim()\<close>\<close>

definition field :: "(jstring \<Rightarrow> jstring option) \<Rightarrow> string \<Rightarrow> jstring" where
  "field data k = trim (orEmpty (data (lit k)))"

text \<open>\<open>showFlash(err.message || String(err), true, ...)\<close>; reading a property of a nullish value throws.\<close>

definition flashError :: "env \<Rightarrow> context_node \<Rightarrow> exn \<Rightarrow> unit wproc" where
  "flashError E ctx err =
     (if ex_nullish err then throw (e_typeError E (lit ''err.message''))
      else showFlash E (orElse (ex_message err) (ex_string err)) True ctx)"

definition formData :: "env \<Rightarrow> form \<Rightarrow> (jstring \<Rightarrow> jstring option) wproc" where
  "formData E f = gets (\<lambda>s. e_formData E (tr s) f)"

definition flashT :: "env \<Rightarrow> jstring \<Rightarrow> jstring list \<Rightarrow> context_node \<Rightarrow> unit wproc" where
  "flashT E m args ctx = andThen (tr_text E m args) (\<lambda>text. showFlash E text False ctx)"

definition slotStatus_LISTED :: int where "slotStatus_LISTED = 1"
definition slotStatus_PAUSED :: int where "slotStatus_PAUSED = 2"
definition slotStatus_UNLISTED :: int where "slotStatus_UNLISTED = 3"

section \<open>Connect buttons\<close>

fun autofill :: "nat \<Rightarrow> nat \<Rightarrow> unit wproc" where
  "autofill i 0 = ret ()"
| "autofill i (Suc n) =
     andThen (modify (\<lambda>s. s\<lparr>autofill_inputs := (autofill_inputs s)[i := st_address s]\<rparr>)) (\<lambda>_.
     andThen (emit (DispatchInput i)) (\<lambda>_. autofill (Suc i) n))"

definition onConnectClick :: "env \<Rightarrow> unit wproc" where
  "onConnectClick E =
     catch
       (andThen (await (ensureWalletConnected E)) (\<lambda>_.
        andThen (gets (\<lambda>s. length (autofill_inputs s))) (\<lambda>n.
        andThen (autofill 0 n) (\<lambda>_.
        andThen (gets st_address) (\<lambda>address.
        flashT E (lit ''Connected: {0}'') [address] Document)))))
       (flashError E Document)"

section \<open>Creating a slot\<close>

definition createSlotMsg :: "env \<Rightarrow> jstring \<Rightarrow> (jstring \<Rightarrow> jstring option) \<Rightarrow> js_number \<Rightarrow> encode_object" where
  "createSlotMsg E address data rateAmount =
     (let c = cfg E
      in \<lparr>typeUrl = url_CreateSlot,
          msgValue = CreateSlotValue
            \<lparr>pcs_publisher = Some address,
             pcs_domain = Some (field data ''publisher''),
             pcs_label = Some (field data ''label''),
             pcs_summary = Some (field data ''summary''),
             pcs_category = Some (field data ''category''),
             pcs_placement = Some (field data ''placement''),
             pcs_size = Some (field data ''size''),
             pcs_rateDenom = Some (orElse (slot_rate_denom c) (lit ''ucongrid'')),
             pcs_rateAmount = Some (numToString rateAmount),
             pcs_unitSeconds = Some (LLong (Long_fromValue (LNum (numOr (slot_unit_seconds c) 0)))),
             pcs_minDurationSeconds = Some (LLong (Long_fromValue (LNum (numOr (slot_min_duration_seconds c) 0)))),
             pcs_maxDurationSeconds = Some (LLong (Long_fromValue (LNum (numOr (slot_max_duration_seconds c) 0)))),
             pcs_tags = Some []\<rparr>\<rparr>)"

definition validRate :: "js_number \<Rightarrow> bool" where
  "validRate n \<longleftrightarrow> isFinite n \<and> \<not> num_less n (Fin 0) \<and> isInteger n"

definition createSlotTry :: "env \<Rightarrow> form \<Rightarrow> unit wproc" where
  "createSlotTry E form =
     andThen (await (ensureWalletConnected E)) (\<lambda>_.
     andThen (await (loadWalletDeps E)) (\<lambda>_.
     andThen (formData E form) (\<lambda>data.
     andThen (guardE (field data ''publisher'' \<noteq> []) (throwT E (lit ''Publisher domain required.'') [])) (\<lambda>_.
     andThen (guardE (field data ''label'' \<noteq> []) (throwT E (lit ''Slot label required.'') [])) (\<lambda>_.
     andThen (guardE (field data ''rate'' \<noteq> []) (throwT E (lit ''Rate required.'') [])) (\<lambda>_.
     let rateAmount = toNumber (field data ''rate'') in
     andThen (guardE (validRate rateAmount) (throwT E (lit ''Rate must be a non-negative integer.'') [])) (\<lambda>_.
     andThen (gets st_address) (\<lambda>address.
     andThen (await (submitTx E [createSlotMsg E address data rateAmount] (numOr (gas_create_slot (cfg E)) 220000))) (\<lambda>txHash.
     andThen (flashT E (lit ''Slot created. Tx: {0}'') [txHash] Document) (\<lambda>_.
     emit (ReloadAfter 1500)))))))))))"

definition onCreateSlotSubmit :: "env \<Rightarrow> form \<Rightarrow> unit wproc" where
  "onCreateSlotSubmit E form =
     andThen (emit PreventDefault) (\<lambda>_.
     catch (createSlotTry E form) (flashError E Document))"

section \<open>Changing the status of a slot\<close>

definition slotAction :: "jstring \<Rightarrow> int option" where
  "slotAction action =
     (if action = lit ''activate'' then Some slotStatus_LISTED
      else if action = lit ''pause'' then Some slotStatus_PAUSED
      else if action = lit ''unlist'' then Some slotStatus_UNLISTED
      else None)"

definition updateStatusMsg :: "jstring \<Rightarrow> jstring \<Rightarrow> int \<Rightarrow> encode_object" where
  "updateStatusMsg address slotId status =
     \<lparr>typeUrl = url_UpdateSlotStatus,
      msgValue = UpdateSlotStatusValue
        \<lparr>pus_publisher = Some address, pus_slotId = Some slotId, pus_status = Some status\<rparr>\<rparr>"

text \<open>\<open>submitter\<close> is the value of the button that submitted the form, when there is one.\<close>

definition slotStatusTry :: "env \<Rightarrow> form \<Rightarrow> jstring option \<Rightarrow> unit wproc" where
  "slotStatusTry E form submitter =
     andThen (await (ensureWalletConnected E)) (\<lambda>_.
     andThen (formData E form) (\<lambda>data.
     let slotId = field data ''slot_id'';
         action = (case submitter of Some v \<Rightarrow> v | None \<Rightarrow> field data ''action'') in
     andThen (guardE (slotId \<noteq> []) (throwT E (lit ''Slot id required.'') [])) (\<lambda>_.
     case slotAction action of
       None \<Rightarrow> throwT E (lit ''Unknown slot action.'') []
     | Some status \<Rightarrow>
         andThen (gets st_address) (\<lambda>address.
         andThen (await (submitTx E [updateStatusMsg address slotId status] (numOr (gas_update_slot (cfg E)) 140000))) (\<lambda>txHash.
         andThen (flashT E (lit ''Slot updated. Tx: {0}'') [txHash] Document) (\<lambda>_.
         emit (ReloadAfter 1500)))))))"

definition onSlotStatusSubmit :: "env \<Rightarrow> form \<Rightarrow> jstring option \<Rightarrow> unit wproc" where
  "onSlotStatusSubmit E form submitter =
     andThen (emit PreventDefault) (\<lambda>_.
     catch (slotStatusTry E form submitter) (flashError E Document))"

section \<open>Leasing a slot\<close>

definition leaseMsg :: "jstring \<Rightarrow> (jstring \<Rightarrow> jstring option) \<Rightarrow> int \<Rightarrow> js_number \<Rightarrow> encode_object" where
  "leaseMsg address data startsAtUnix durationSeconds =
     \<lparr>typeUrl = url_LeaseSlot,
      msgValue = LeaseSlotValue
        \<lparr>pls_lessee = Some address,
         pls_slotId = Some (field data ''slot_id''),
         pls_targetUrl = Some (field data ''target_url''),
         pls_startsAtUnix = Some (LLong (Long_fromValue (LNum (Fin (of_int startsAtUnix))))),
         pls_durationSeconds = Some (LLong (Long_fromValue (LNum durationSeconds)))\<rparr>\<rparr>"

definition validDuration :: "js_number \<Rightarrow> bool" where
  "validDuration n \<longleftrightarrow> isFinite n \<and> \<not> num_le n (Fin 0) \<and> isInteger n"

definition leaseTry :: "env \<Rightarrow> form \<Rightarrow> unit wproc" where
  "leaseTry E form =
     andThen (await (ensureWalletConnected E)) (\<lambda>_.
     andThen (await (loadWalletDeps E)) (\<lambda>_.
     andThen (formData E form) (\<lambda>data.
     andThen (guardE (field data ''slot_id'' \<noteq> [] \<and> field data ''target_url'' \<noteq> [])
                (throwT E (lit ''Slot and target URL are required.'') [])) (\<lambda>_.
     let durationSeconds = toNumber (field data ''duration_seconds'') in
     andThen (guardE (validDuration durationSeconds) (throwT E (lit ''Select a lease duration.'') [])) (\<lambda>_.
     andThen (parseStartDate E (field data ''start_date'')) (\<lambda>startsAtUnix.
     andThen (gets st_address) (\<lambda>address.
     andThen (await (submitTx E [leaseMsg address data startsAtUnix durationSeconds] (numOr (gas_lease_slot (cfg E)) 220000))) (\<lambda>txHash.
     andThen (flashT E (lit ''Lease requested. Tx: {0}'') [txHash] Document) (\<lambda>_.
     emit (ReloadAfter 1500))))))))))"

definition onLeaseSubmit :: "env \<Rightarrow> form \<Rightarrow> unit wproc" where
  "onLeaseSubmit E form =
     andThen (emit PreventDefault) (\<lambda>_.
     catch (leaseTry E form) (flashError E Document))"

section \<open>Registering a publisher\<close>

definition registerMsg :: "jstring \<Rightarrow> jstring \<Rightarrow> jstring \<Rightarrow> encode_object" where
  "registerMsg address domain referrer =
     \<lparr>typeUrl = url_RegisterPublisher,
      msgValue = RegisterPublisherValue
        \<lparr>prp_owner = Some address, prp_domain = Some domain, prp_metadataUri = Some [], prp_proof = Some [],
         prp_verifier = Some [], prp_referrer = Some referrer\<rparr>\<rparr>"

definition verifyRequest :: "jstring \<Rightarrow> jstring \<Rightarrow> fetch_request" where
  "verifyRequest domain address =
     \<lparr>fetch_url = lit ''/publishers/verify'', fetch_method = lit ''POST'',
      fetch_headers = [(lit ''content-type'', lit ''application/json'')],
      fetch_body = json_object [(lit ''domain'', domain), (lit ''wallet'', address)]\<rparr>"

text \<open>\<open>await verificationResponse.json().catch(() => ({}))\<close>\<close>

definition json_or_empty :: "response \<Rightarrow> verification option" where
  "json_or_empty r = (case resp_json r of Inl _ \<Rightarrow> Some \<lparr>v_ok_true = False, v_error = []\<rparr> | Inr v \<Rightarrow> v)"

text \<open>
  \<open>!verificationResponse.ok || verification.ok !== true\<close> and \<open>verification.error\<close>: a null body is a
  TypeError at whichever property is read first.
\<close>

definition checkVerification :: "env \<Rightarrow> response \<Rightarrow> verification option \<Rightarrow> unit wproc" where
  "checkVerification E r verification =
     (case verification of
        None \<Rightarrow> throw (e_typeError E (if resp_ok r then lit ''verification.ok'' else lit ''verification.error''))
      | Some v \<Rightarrow>
          if \<not> resp_ok r \<or> \<not> v_ok_true v
          then (if v_error v \<noteq> [] then throw (newError (v_error v))
                else throwT E (lit ''Could not verify the Congrid member badge on your homepage.'') [])
          else ret ())"

definition registerTry :: "env \<Rightarrow> form \<Rightarrow> unit wproc" where
  "registerTry E form =
     andThen (await (ensureWalletConnected E)) (\<lambda>_.
     andThen (formData E form) (\<lambda>data.
     let domain = toLowerCase (e_lower E) (field data ''domain'');
         wallet = field data ''wallet'';
         referrer = field data ''referrer'' in
     andThen (guardE (domain \<noteq> []) (throwT E (lit ''Please generate registration details first (missing domain).'') [])) (\<lambda>_.
     andThen (guardE (wallet \<noteq> []) (throwT E (lit ''Please generate registration details first (missing wallet).'') [])) (\<lambda>_.
     andThen (gets st_address) (\<lambda>address.
     andThen (guardE (wallet = address)
                (throwT E (lit ''Connected wallet mismatch. connected={0} form={1}'') [address, wallet])) (\<lambda>_.
     andThen (guardE (referrer = [] \<or> isLikelyGridAddress referrer)
                (throwT E (lit ''Referrer verifier address format looks invalid. Use congrid1... address.'') [])) (\<lambda>_.
     andThen (await (call (\<lambda>h. e_fetch E h (verifyRequest domain address)) (Fetch (verifyRequest domain address)))) (\<lambda>r.
     andThen (await (ret (json_or_empty r))) (\<lambda>verification.
     andThen (checkVerification E r verification) (\<lambda>_.
     andThen (gets st_address) (\<lambda>owner.
     andThen (await (submitTx E [registerMsg owner domain referrer] (Fin 220000))) (\<lambda>txHash.
     flashT E (lit ''Registration submitted; verifier confirmation pending. Tx: {0}'') [txHash] (FormNode form)))))))))))))"

definition onRegisterSubmit :: "env \<Rightarrow> form \<Rightarrow> unit wproc" where
  "onRegisterSubmit E form =
     andThen (emit PreventDefault) (\<lambda>_.
     catch (registerTry E form) (\<lambda>err.
       andThen (emit (ConsoleError err)) (\<lambda>_.
       flashError E (FormNode form) err)))"

section \<open>Binding and dispatch\<close>

definition bind_listeners :: "(wallet \<Rightarrow> listener list) \<Rightarrow> unit wproc" where
  "bind_listeners f = modify (\<lambda>s. s\<lparr>listeners := listeners s @ f s\<rparr>)"

fun is_create :: "form \<Rightarrow> bool" where "is_create (CreateForm _) = True" | "is_create _ = False"
fun is_status :: "form \<Rightarrow> bool" where "is_status (StatusForm _) = True" | "is_status _ = False"
fun is_lease :: "form \<Rightarrow> bool" where "is_lease (LeaseForm _) = True" | "is_lease _ = False"
fun is_register :: "form \<Rightarrow> bool" where "is_register (RegisterForm _) = True" | "is_register _ = False"

definition bindConnectButtons :: "unit wproc" where
  "bindConnectButtons = bind_listeners (\<lambda>s. map OnConnect [0..<connect_buttons s])"

definition bindCreateSlotForms :: "unit wproc" where
  "bindCreateSlotForms = bind_listeners (\<lambda>s. map OnSubmit (filter is_create (page_forms s)))"

definition bindSlotStatusForms :: "unit wproc" where
  "bindSlotStatusForms = bind_listeners (\<lambda>s. map OnSubmit (filter is_status (page_forms s)))"

definition bindLeaseForms :: "unit wproc" where
  "bindLeaseForms = bind_listeners (\<lambda>s. map OnSubmit (filter is_lease (page_forms s)))"

definition bindPublisherRegisterForms :: "unit wproc" where
  "bindPublisherRegisterForms = bind_listeners (\<lambda>s. map OnSubmit (filter is_register (page_forms s)))"

definition initWalletUI :: "env \<Rightarrow> unit wproc" where
  "initWalletUI E =
     (if \<not> cfg_enabled (cfg E) then ret ()
      else andThen (updateWalletAddress E []) (\<lambda>_.
           andThen bindConnectButtons (\<lambda>_.
           andThen bindCreateSlotForms (\<lambda>_.
           andThen bindSlotStatusForms (\<lambda>_.
           andThen bindLeaseForms (\<lambda>_.
           andThen bindPublisherRegisterForms (\<lambda>_.
           modify (\<lambda>s. s\<lparr>uiReady := True\<rparr>))))))))"

text \<open>The handler a listener runs; the second argument is the submitter's value.\<close>

fun handler :: "env \<Rightarrow> listener \<Rightarrow> jstring option \<Rightarrow> unit wproc" where
  "handler E (OnConnect i) sub = onConnectClick E"
| "handler E (OnSubmit (CreateForm i)) sub = onCreateSlotSubmit E (CreateForm i)"
| "handler E (OnSubmit (StatusForm i)) sub = onSlotStatusSubmit E (StatusForm i) sub"
| "handler E (OnSubmit (LeaseForm i)) sub = onLeaseSubmit E (LeaseForm i)"
| "handler E (OnSubmit (RegisterForm i)) sub = onRegisterSubmit E (RegisterForm i)"

definition dispatch :: "env \<Rightarrow> listener \<Rightarrow> jstring option \<Rightarrow> wallet \<Rightarrow> wallet" where
  "dispatch E l sub s = (if l \<in> set (listeners s) then snd (run (handler E l sub) s) else s)"

definition page_load :: "env \<Rightarrow> wallet \<Rightarrow> wallet" where
  "page_load E s = snd (run (initWalletUI E) s)"

inductive page_run :: "env \<Rightarrow> wallet \<Rightarrow> wallet \<Rightarrow> bool" for E s0 where
  load: "page_run E s0 (page_load E s0)"
| event: "page_run E s0 s \<Longrightarrow> page_run E s0 (dispatch E l sub s)"

end
