(* ===== verification/WalletRules.thy ===== *)
theory WalletRules
  imports WalletForms WalletChain "HOL-Library.Sublist"
begin

text \<open>
  What each form may put on the chain, stated on the message the chain reads and not on the code that
  builds it: the trimmed form fields, the numbers they stand for, the status of an action, the window of
  a start date, the badge verification. \<open>*_content E h f b m g\<close>: the object \<open>m\<close> with gas limit \<open>g\<close> is what the
  form \<open>f\<close>, read after the history \<open>h\<close>, asked for in the name of the account \<open>b\<close>. The lemmas \<open>*_contentI\<close> show it for the objects the
  handlers build.
\<close>

section \<open>Numbers\<close>

lemma integral_number: "isFinite n \<and> isInteger n \<longleftrightarrow> (\<exists>k. n = Fin (of_int k))"
  by (cases n) (auto simp: isFinite_def isInteger_def intro: exI [of _ "\<lfloor>_\<rfloor>"])

lemma validRate_iff: "validRate n \<longleftrightarrow> (\<exists>k\<ge>0. n = Fin (of_int k))"
  using integral_number [of n] by (auto simp: validRate_def isFinite_def isInteger_def)

lemma validDuration_iff: "validDuration n \<longleftrightarrow> (\<exists>k>0. n = Fin (of_int k))"
  using integral_number [of n] by (auto simp: validDuration_def isFinite_def isInteger_def num_le_def)

section \<open>Creating a slot\<close>

definition create_content :: "env \<Rightarrow> trace \<Rightarrow> form \<Rightarrow> jstring \<Rightarrow> encode_object \<Rightarrow> js_number \<Rightarrow> bool" where
  "create_content E h f b m g \<longleftrightarrow>
     (\<exists>data k. data = e_formData E h f
        \<and> field data ''publisher'' \<noteq> [] \<and> field data ''label'' \<noteq> [] \<and> field data ''rate'' \<noteq> []
        \<and> 0 \<le> k \<and> toNumber (field data ''rate'') = Fin (of_int k)
        \<and> g = numOr (gas_create_slot (cfg E)) 220000
        \<and> typeUrl m = url_CreateSlot
        \<and> intended (msgValue m) = CCreateSlot
            \<lparr>cs_publisher = b, cs_domain = field data ''publisher'', cs_label = field data ''label'',
             cs_summary = field data ''summary'', cs_category = field data ''category'',
             cs_placement = field data ''placement'', cs_size = field data ''size'',
             cs_rateDenom = orElse (slot_rate_denom (cfg E)) (lit ''ucongrid''),
             cs_rateAmount = numToString (Fin (of_int k)),
             cs_unitSeconds = Long_fromNumber (numOr (slot_unit_seconds (cfg E)) 0),
             cs_minDurationSeconds = Long_fromNumber (numOr (slot_min_duration_seconds (cfg E)) 0),
             cs_maxDurationSeconds = Long_fromNumber (numOr (slot_max_duration_seconds (cfg E)) 0), cs_tags = []\<rparr>)"

lemma create_contentI:
  assumes "data = e_formData E h f" "field data ''publisher'' \<noteq> []" "field data ''label'' \<noteq> []"
    "field data ''rate'' \<noteq> []" "validRate (toNumber (field data ''rate''))"
  shows "create_content E h f b (createSlotMsg E b data (toNumber (field data ''rate'')))
    (numOr (gas_create_slot (cfg E)) 220000)"
proof -
  from assms(5) obtain k where "0 \<le> k" "toNumber (field data ''rate'') = Fin (of_int k)"
    by (auto simp: validRate_iff)
  then show ?thesis unfolding create_content_def using assms(1-4)
    by (intro exI [of _ data] exI [of _ k])
       (simp add: createSlotMsg_def Let_def intended_def MsgCreateSlot_fromPartial_def orEmpty_def long_or_zero_def
         Long_fromValue_def)
qed

section \<open>Changing the status of a slot\<close>

definition action_codes :: "(jstring \<times> int) set" where
  "action_codes = {(lit ''activate'', 1), (lit ''pause'', 2), (lit ''unlist'', 3)}"

definition status_content :: "env \<Rightarrow> trace \<Rightarrow> form \<Rightarrow> jstring option \<Rightarrow> jstring \<Rightarrow> encode_object \<Rightarrow> js_number \<Rightarrow> bool" where
  "status_content E h f sub b m g \<longleftrightarrow>
     (\<exists>data status. data = e_formData E h f
        \<and> field data ''slot_id'' \<noteq> []
        \<and> (case sub of Some v \<Rightarrow> v | None \<Rightarrow> field data ''action'', status) \<in> action_codes
        \<and> g = numOr (gas_update_slot (cfg E)) 140000
        \<and> typeUrl m = url_UpdateSlotStatus
        \<and> intended (msgValue m) = CUpdateSlotStatus
            \<lparr>us_publisher = b, us_slotId = field data ''slot_id'', us_status = status\<rparr>)"

lemma slotAction_codes: "slotAction a = Some status \<longleftrightarrow> (a, status) \<in> action_codes"
  by (auto simp: slotAction_def action_codes_def slotStatus_LISTED_def slotStatus_PAUSED_def slotStatus_UNLISTED_def)

lemma status_contentI:
  assumes "data = e_formData E h f" "field data ''slot_id'' \<noteq> []"
    "slotAction (case sub of Some v \<Rightarrow> v | None \<Rightarrow> field data ''action'') = Some status"
  shows "status_content E h f sub b (updateStatusMsg b (field data ''slot_id'') status) (numOr (gas_update_slot (cfg E)) 140000)"
  unfolding status_content_def using assms
  by (intro exI [of _ data] exI [of _ status])
     (simp add: slotAction_codes updateStatusMsg_def intended_def MsgUpdateSlotStatus_fromPartial_def orEmpty_def)

section \<open>Leasing a slot\<close>

text \<open>
  \<open>Date.UTC\<close> of the three parts. It also reads days and months that do not exist: they run over into the next month
  or year (\<open>nonexistent_day\<close>).
\<close>

definition utc_date :: "jstring \<Rightarrow> int option" where
  "utc_date value =
     (case splitOn 45 value of
        [p0, p1, p2] \<Rightarrow> dateUTC (toNumber p0) (num_plus_int (toNumber p1) (- 1)) (toNumber p2)
      | _ \<Rightarrow> None)"

definition start_ok :: "int \<Rightarrow> jstring \<Rightarrow> int \<Rightarrow> bool" where
  "start_ok now value v \<longleftrightarrow>
     (value = [] \<and> v = 0) \<or>
     (value \<noteq> [] \<and> (\<exists>startMs. utc_date value = Some startMs \<and> now - 86400000 \<le> startMs
        \<and> v = (if startMs < now then now + 300000 else startMs) div 1000))"

definition lease_content :: "env \<Rightarrow> trace \<Rightarrow> form \<Rightarrow> jstring \<Rightarrow> encode_object \<Rightarrow> js_number \<Rightarrow> bool" where
  "lease_content E h f b m g \<longleftrightarrow>
     (\<exists>data k start. data = e_formData E h f
        \<and> field data ''slot_id'' \<noteq> [] \<and> field data ''target_url'' \<noteq> []
        \<and> 0 < k \<and> toNumber (field data ''duration_seconds'') = Fin (of_int k)
        \<and> start_ok (e_now E h) (field data ''start_date'') start
        \<and> g = numOr (gas_lease_slot (cfg E)) 220000
        \<and> typeUrl m = url_LeaseSlot
        \<and> intended (msgValue m) = CLeaseSlot
            \<lparr>ls_lessee = b, ls_slotId = field data ''slot_id'', ls_targetUrl = field data ''target_url'',
             ls_startsAtUnix = Long_fromNumber (Fin (of_int start)), ls_durationSeconds = Long_fromNumber (Fin (of_int k))\<rparr>)"

lemma lease_contentI:
  assumes "data = e_formData E h f" "field data ''slot_id'' \<noteq> []" "field data ''target_url'' \<noteq> []"
    "validDuration (toNumber (field data ''duration_seconds''))"
    "start_ok (e_now E h) (field data ''start_date'') start"
  shows "lease_content E h f b (leaseMsg b data start (toNumber (field data ''duration_seconds'')))
    (numOr (gas_lease_slot (cfg E)) 220000)"
proof -
  from assms(4) obtain k where "0 < k" "toNumber (field data ''duration_seconds'') = Fin (of_int k)"
    by (auto simp: validDuration_iff)
  then show ?thesis unfolding lease_content_def using assms(1-3,5)
    by (intro exI [of _ data] exI [of _ k] exI [of _ start])
       (simp add: leaseMsg_def intended_def MsgLeaseSlot_fromPartial_def orEmpty_def long_or_zero_def Long_fromValue_def)
qed

section \<open>Registering a publisher\<close>

definition verified :: "response \<Rightarrow> bool" where
  "verified r \<longleftrightarrow> resp_ok r \<and> (\<exists>v. resp_json r = Inr (Some v) \<and> v_ok_true v)"

definition verify_body :: "jstring \<Rightarrow> jstring \<Rightarrow> jstring" where
  "verify_body domain address =
     lit ''{'' @ json_quote (lit ''domain'') @ lit '':'' @ json_quote domain @ lit '',''
       @ json_quote (lit ''wallet'') @ lit '':'' @ json_quote address @ lit ''}''"

text \<open>\<open>asked ev domain b r\<close>: the call \<open>ev\<close> asked the site to verify the badge of \<open>domain\<close> for \<open>b\<close>, answer \<open>r\<close>.\<close>

definition asked :: "event \<Rightarrow> jstring \<Rightarrow> jstring \<Rightarrow> response \<Rightarrow> bool" where
  "asked ev domain b r \<longleftrightarrow>
     (\<exists>rq. ev = Fetch rq (Inr r) \<and> fetch_url rq = lit ''/publishers/verify'' \<and> fetch_method rq = lit ''POST''
        \<and> fetch_body rq = verify_body domain b)"

definition register_content :: "env \<Rightarrow> trace \<Rightarrow> form \<Rightarrow> jstring \<Rightarrow> jstring \<Rightarrow> jstring \<Rightarrow> encode_object \<Rightarrow> js_number \<Rightarrow> bool" where
  "register_content E h f b w domain m g \<longleftrightarrow>
     (\<exists>data. data = e_formData E h f \<and> domain = toLowerCase (e_lower E) (field data ''domain'') \<and> domain \<noteq> []
        \<and> field data ''wallet'' = w \<and> w \<noteq> []
        \<and> (field data ''referrer'' = [] \<or> isLikelyGridAddress (field data ''referrer''))
        \<and> g = Fin 220000
        \<and> typeUrl m = url_RegisterPublisher
        \<and> intended (msgValue m) = CRegisterPublisher
            \<lparr>rp_owner = b, rp_domain = domain, rp_metadataUri = [], rp_proof = [], rp_verifier = [],
             rp_referrer = field data ''referrer''\<rparr>)"

lemma register_contentI:
  assumes "data = e_formData E h f" "domain = toLowerCase (e_lower E) (field data ''domain'')" "domain \<noteq> []"
    "field data ''wallet'' = w" "w \<noteq> []" "ref = field data ''referrer''" "ref = [] \<or> isLikelyGridAddress ref"
  shows "register_content E h f b w domain (registerMsg b domain ref) (Fin 220000)"
  unfolding register_content_def using assms
  by (intro exI [of _ data])
     (simp add: registerMsg_def intended_def MsgRegisterPublisher_fromPartial_def orEmpty_def)

lemma asked_verifyRequest: "asked (Fetch (verifyRequest domain b) (Inr r)) domain b r"
  by (simp add: asked_def verifyRequest_def verify_body_def json_object_def lit_def)

text \<open>The body of the request determines what was asked.\<close>

lemma verify_body_inj: "verify_body d a = verify_body d' a' \<longleftrightarrow> d = d' \<and> a = a'"
  using json_quote_inj [of a "[]" a' "[]"] by (auto simp: verify_body_def json_quote_inj)

end
