(* ===== verification/WalletSafety.thy ===== *)
theory WalletSafety
  imports WalletRules
begin

text \<open>
  What the wallet's routines do to the outside, as weakest-precondition summaries.

  \<^item> \<open>since h s\<close>: after the history \<open>h\<close> only setup calls (extension, bundle, RPC connection) were made; \<open>calm\<close>,
    \<open>kept\<close>, \<open>linked\<close>, \<open>loaded\<close>, \<open>settled\<close> and \<open>client_step\<close> summarise the routines that only make setup calls.
  \<^item> \<open>submitted\<close> summarises \<open>submitTx\<close>: one broadcast, with the fee of the gas limit.
  \<^item> \<open>sent\<close>, \<open>attempt\<close>, \<open>succeeded\<close>, \<open>failure_shown\<close> and \<open>handled\<close> are the contract of a form handler; the rules
    \<open>create_rule\<close>, \<open>status_rule\<close>, \<open>lease_rule\<close> and \<open>register_rule\<close> say what each handler may broadcast.
\<close>

section \<open>Setup calls and the page\<close>

fun setup_event :: "event \<Rightarrow> bool" where
  "setup_event (SuggestChain _ _) = True"
| "setup_event (Enable _ _) = True"
| "setup_event (GetOfflineSigner _ _) = True"
| "setup_event (GetOfflineSignerAuto _ _) = True"
| "setup_event (GetAccounts _ _) = True"
| "setup_event (ImportBundle _ _) = True"
| "setup_event ConfigureLong = True"
| "setup_event (ConnectWithSigner _ _ _ _ _) = True"
| "setup_event (Outside _) = True"
| "setup_event _ = False"

definition since :: "trace \<Rightarrow> wallet \<Rightarrow> bool" where
  "since h s \<longleftrightarrow> (\<exists>es. tr s = h @ es \<and> list_all setup_event es)"

lemma since_refl [simp]: "since (tr s) s"
  by (simp add: since_def)

lemma since_trans: "since h s \<Longrightarrow> since (tr s) s' \<Longrightarrow> since h s'"
  by (auto simp: since_def)

lemma since_log [simp]: "setup_event ev \<Longrightarrow> since h s \<Longrightarrow> since h (log_event ev s)"
  by (auto simp: since_def)

lemma since_same: "since h s \<Longrightarrow> tr s' = tr s \<Longrightarrow> since h s'"
  by (simp add: since_def)

lemma since_set: "since h s \<Longrightarrow> set h \<subseteq> set (tr s)"
  by (auto simp: since_def)

definition page_of where
  "page_of s = (flashes s, doc_flash s, form_flash s, autofill_inputs s, connect_buttons s, page_forms s, listeners s, uiReady s)"

lemma page_of_frame [simp]:
  "page_of (log_event ev s) = page_of s" "page_of (s\<lparr>st_signer := a\<rparr>) = page_of s"
  "page_of (s\<lparr>st_address := b\<rparr>) = page_of s" "page_of (s\<lparr>st_client := c\<rparr>) = page_of s"
  "page_of (s\<lparr>walletDepsPromise := d\<rparr>) = page_of s" "page_of (s\<lparr>depsPromises := e\<rparr>) = page_of s"
  "page_of (s\<lparr>address_els := f\<rparr>) = page_of s"
  by (simp_all add: page_of_def)

definition calm :: "wallet \<Rightarrow> wallet \<Rightarrow> bool" where
  "calm s s' \<longleftrightarrow> since (tr s) s' \<and> page_of s' = page_of s"

lemma calm_refl [simp]: "calm s s"
  by (simp add: calm_def)

lemma calm_trans [trans]: "calm s s' \<Longrightarrow> calm s' s'' \<Longrightarrow> calm s s''"
  by (auto simp: calm_def intro: since_trans)

lemma calm_set: "calm s s' \<Longrightarrow> set (tr s) \<subseteq> set (tr s')"
  by (simp add: calm_def since_set)

lemma calm_log [simp]: "setup_event ev \<Longrightarrow> calm s s' \<Longrightarrow> calm s (log_event ev s')"
  by (auto simp: calm_def)

lemma calm_upd [simp]:
  "calm s (s'\<lparr>st_signer := a\<rparr>) = calm s s'" "calm s (s'\<lparr>st_address := b\<rparr>) = calm s s'"
  "calm s (s'\<lparr>st_client := c\<rparr>) = calm s s'" "calm s (s'\<lparr>walletDepsPromise := d\<rparr>) = calm s s'"
  "calm s (s'\<lparr>depsPromises := e\<rparr>) = calm s s'"
  "calm s (s'\<lparr>address_els := f\<rparr>) = calm s s'"
  by (simp_all add: calm_def since_def)

definition account :: "wallet \<Rightarrow> signer option \<times> jstring" where
  "account s = (st_signer s, st_address s)"

definition wallet_connected :: "wallet \<Rightarrow> bool" where
  "wallet_connected s \<longleftrightarrow> st_signer s \<noteq> None \<and> st_address s \<noteq> []"

section \<open>Notices\<close>

definition own_text :: "jstring \<Rightarrow> bool" where
  "own_text m \<longleftrightarrow> m \<notin> set object_prototype"

lemma own_text_t: "own_text m \<Longrightarrow> \<exists>x. i18n_t msgs m args = Inr x"
  by (auto simp: own_text_def i18n_t_def lookup_text_def split: option.splits sum.splits)

text \<open>The notices of the source are not names of \<open>Object.prototype\<close>: each contains a blank.\<close>

lemma own_text_lit [simp]: "32 \<in> set m \<Longrightarrow> own_text m"
  by (auto simp: own_text_def object_prototype_def lit_def)

lemma blank_in_lit [simp]: "32 \<in> set (lit s) \<longleftrightarrow> CHR '' '' \<in> set s"
proof -
  have "32 \<in> set (lit s) \<longleftrightarrow> (\<lambda>c. of_nat (of_char c) :: unit16) (CHR '' '') \<in> (\<lambda>c. of_nat (of_char c)) ` set s"
    by (simp add: lit_def)
  also have "\<dots> \<longleftrightarrow> CHR '' '' \<in> set s" by (rule inj_image_mem_iff [OF inj_lit_unit])
  finally show ?thesis .
qed

lemma wp_throwT_own:
  "own_text m \<Longrightarrow> (\<And>x. i18n_t (e_messages E) m args = Inr x \<Longrightarrow> R (newError x) s) \<Longrightarrow> wp (throwT E m args) Q R s"
  using own_text_t [of m "e_messages E" args] by (auto simp: wp_simps)

lemma wp_updateWalletAddress:
  "wp (updateWalletAddress E a) (\<lambda>_ s'. \<exists>els. s' = s\<lparr>address_els := els\<rparr> \<and> (a \<noteq> [] \<longrightarrow> set els \<subseteq> {a}) \<and> length els = length (address_els s)) (\<lambda>_ _. False) s"
  using own_text_t [of "lit ''Not connected''" "e_messages E" "[]"]
  by (auto simp: updateWalletAddress_def wp_simps split: sum.splits)


section \<open>Connecting\<close>

text \<open>
  \<open>kept s s'\<close>: nothing but setup calls happened, the account and the caches are as before.
  \<open>linked s s'\<close>: nothing but setup calls happened and the account is one a provider reported.
\<close>

definition kept :: "wallet \<Rightarrow> wallet \<Rightarrow> bool" where
  "kept s s' \<longleftrightarrow> calm s s' \<and> account s' = account s \<and> st_client s' = st_client s \<and> walletDeps s' = walletDeps s"

definition reported :: "trace \<Rightarrow> signer \<Rightarrow> jstring \<Rightarrow> bool" where
  "reported es sg a \<longleftrightarrow> (\<exists>as. GetAccounts sg (Inr (Some (a # as))) \<in> set es)"

definition linked :: "wallet \<Rightarrow> wallet \<Rightarrow> bool" where
  "linked s s' \<longleftrightarrow> calm s s' \<and> st_client s' = st_client s \<and> walletDeps s' = walletDeps s
     \<and> (\<exists>sg. st_signer s' = Some sg \<and> reported (tr s') sg (st_address s'))"

lemma kept_refl [simp]: "kept s s"
  by (simp add: kept_def)

lemma kept_log [simp]: "setup_event ev \<Longrightarrow> kept s s' \<Longrightarrow> kept s (log_event ev s')"
  by (simp add: kept_def account_def)

lemma kept_trans: "kept s s' \<Longrightarrow> kept s' s'' \<Longrightarrow> kept s s''"
  by (auto simp: kept_def intro: calm_trans)

lemma kept_linked: "kept s s' \<Longrightarrow> linked s' s'' \<Longrightarrow> linked s s''"
  by (auto simp: kept_def linked_def intro: calm_trans)

lemma wp_suggest: "wp (suggestChainIfSupported E p) (\<lambda>_. kept s) (\<lambda>_. kept s) s"
  by (auto simp: suggestChainIfSupported_def Let_def wp_simps split: sum.split)

lemma wp_adopt:
  assumes "kept s s1" "GetAccounts sg (Inr (Some (a # as))) \<in> set (tr s1)"
  shows "wp (updateWalletAddress E a) (\<lambda>_. linked s) (\<lambda>_. kept s) (s1\<lparr>st_signer := Some sg, st_address := a\<rparr>)"
  by (rule wp_frame [OF wp_updateWalletAddress])
     (use assms in \<open>auto simp: linked_def kept_def reported_def\<close>)

lemma wp_connectProvider: "wp (connectProvider E item) (\<lambda>_. linked s) (\<lambda>_. kept s) s"
  unfolding connectProvider_def Let_def wp_andThen wp_await
  by (rule wp_frame [OF wp_suggest])
     (auto simp: wp_simps intro!: wp_adopt wp_throwT_own split: sum.split option.split list.split)

lemma wp_tryProviders: "kept s0 s \<Longrightarrow> wp (tryProviders E ps le) (\<lambda>_. linked s0) (\<lambda>_. kept s0) s"
proof (induction ps arbitrary: le s)
  case Nil
  then show ?case by (auto simp: Let_def wp_throw intro!: wp_throwT_own)
next
  case (Cons item ps)
  show ?case unfolding tryProviders.simps wp_catch
    by (rule wp_frame [OF wp_connectProvider])
       (use Cons in \<open>auto intro: kept_linked kept_trans\<close>)
qed

lemma wp_ensure:
  "wp (ensureWalletConnected E)
     (\<lambda>_ s'. cfg_enabled (cfg E) \<and> (if wallet_connected s then s' = s else linked s s')) (\<lambda>_ s'. kept s s' \<and> (cfg_enabled (cfg E) \<longrightarrow> \<not> wallet_connected s)) s"
proof -
  have *: "wp (tryProviders E ps None) (\<lambda>_. linked s) (\<lambda>_. kept s) s" for ps
    by (rule wp_tryProviders) simp
  show ?thesis
    unfolding ensureWalletConnected_def getWalletProviders_def
    by (auto simp: wp_simps wallet_connected_def simp del: tryProviders.simps intro!: wp_throwT_own wp_frame [OF *] split: option.split)
qed

section \<open>The bundle and the client\<close>

lemma wp_dependencyLoadMessage: "wp (dependencyLoadMessage E err) (\<lambda>_ s'. s' = s) (\<lambda>_ s'. s' = s) s"
  by (auto simp: dependencyLoadMessage_def Let_def wp_simps split: sum.split)

definition bundle_registry :: "trace \<Rightarrow> registry \<Rightarrow> bool" where
  "bundle_registry es r \<longleftrightarrow>
     (\<exists>b. ImportBundle walletBundleURL (Inr b) \<in> set es \<and> has_Long b \<and> r = walletRegistry (default_types b))"

definition loaded :: "wallet \<Rightarrow> registry \<Rightarrow> wallet \<Rightarrow> bool" where
  "loaded s r s' \<longleftrightarrow> calm s s' \<and> account s' = account s \<and> st_client s' = st_client s \<and> walletDeps s' = Some r
     \<and> (walletDeps s \<noteq> None \<longrightarrow> s' = s) \<and> (walletDepsPromise s = None \<longrightarrow> bundle_registry (tr s') r)"

text \<open>Settling a promise: the loader only configures \<open>Long\<close>, and a failure drops the promise.\<close>

definition load_result :: "env \<Rightarrow> exn + wallet_bundle \<Rightarrow> wallet \<Rightarrow> exn + registry \<Rightarrow> wallet \<Rightarrow> bool" where
  "load_result E r s res s' \<longleftrightarrow>
     (\<exists>b. r = Inr b \<and> has_Long b \<and> res = Inr (walletRegistry (default_types b))
        \<and> s' = (if util_Long_same b then s else log_event ConfigureLong s)) \<or>
     ((\<forall>b. r = Inr b \<longrightarrow> \<not> has_Long b) \<and> (\<exists>e. res = Inl e) \<and> s' = s\<lparr>walletDepsPromise := None\<rparr>)"

lemma wp_load_result:
  "wp (catch (depsBody E r) (depsRejected E)) (\<lambda>x. load_result E r s (Inr x)) (\<lambda>e. load_result E r s (Inl e)) s"
proof -
  have e: "wp (depsRejected E err) Q (\<lambda>e. load_result E r s (Inl e)) s"
    if "\<And>b. r = Inr b \<Longrightarrow> \<not> has_Long b" for err and Q :: "registry \<Rightarrow> wallet \<Rightarrow> bool"
    unfolding depsRejected_def wp_andThen wp_modify
    by (rule wp_frame [OF wp_dependencyLoadMessage]) (use that in \<open>auto simp: wp_throw load_result_def\<close>)
  show ?thesis
  proof (cases r)
    case (Inl x)
    with e [of x "\<lambda>x. load_result E r s (Inr x)"] show ?thesis by (auto simp: depsBody_def wp_simps)
  next
    case (Inr b)
    show ?thesis
    proof (cases "has_Long b")
      case True
      with Inr show ?thesis by (auto simp: depsBody_def wp_simps load_result_def)
    next
      case False
      with Inr show ?thesis using e by (auto simp: depsBody_def wp_simps split: sum.split)
    qed
  qed
qed

lemma settleDeps_result:
  assumes "promise_at (depsPromises s) p = Some (Loading r)"
  obtains res s' where "load_result E r s res s'" "settleDeps E p s = s'\<lparr>depsPromises := (depsPromises s)[p := Settled res]\<rparr>"
proof -
  obtain res s' where run: "run (catch (depsBody E r) (depsRejected E)) s = (res, s')" by force
  have res: "load_result E r s res s'"
    using wp_load_result [of E r s] run by (auto simp: wp_def split: sum.splits)
  moreover from res have "depsPromises s' = depsPromises s" by (auto simp: load_result_def)
  ultimately show ?thesis using that assms run by (auto simp: settleDeps_def)
qed

lemma settleDeps_other:
  "(\<And>r. promise_at (depsPromises s) p \<noteq> Some (Loading r)) \<Longrightarrow> settleDeps E p s = s"
  by (auto simp: settleDeps_def split: option.split deps_promise.split)

text \<open>What settling touches: the promise, the promise store and one log entry.\<close>

lemma settleDeps_frame:
  "\<exists>d ps es. settleDeps E p s = s\<lparr>walletDepsPromise := d, depsPromises := ps, tr := tr s @ es\<rparr> \<and> (es = [] \<or> es = [ConfigureLong])"
proof (cases "\<exists>r. promise_at (depsPromises s) p = Some (Loading r)")
  case True
  then obtain r where "promise_at (depsPromises s) p = Some (Loading r)" ..
  then obtain res s' where "load_result E r s res s'"
    and t: "settleDeps E p s = s'\<lparr>depsPromises := (depsPromises s)[p := Settled res]\<rparr>" by (rule settleDeps_result)
  then consider "s' = s" | "s' = log_event ConfigureLong s" | "s' = s\<lparr>walletDepsPromise := None\<rparr>"
    by (auto simp: load_result_def split: if_splits)
  then show ?thesis
  proof cases
    case 1
    then show ?thesis unfolding t by (intro exI [of _ "walletDepsPromise s"] exI exI [of _ "[]"]) simp
  next
    case 2
    then show ?thesis unfolding t
      by (intro exI [of _ "walletDepsPromise s"] exI [of _ "(depsPromises s)[p := Settled res]"] exI [of _ "[ConfigureLong]"])
         (simp add: log_event_def)
  next
    case 3
    then show ?thesis unfolding t by (intro exI [of _ None] exI exI [of _ "[]"]) simp
  qed
next
  case False
  then have "settleDeps E p s = s" by (intro settleDeps_other) auto
  then show ?thesis by (intro exI [of _ "walletDepsPromise s"] exI [of _ "depsPromises s"] exI [of _ "[]"]) simp
qed

lemma promise_at_update [simp]: "promise_at (ps[p := d]) p = (if p < length ps then Some d else None)"
  by (simp add: promise_at_def)

lemma promise_at_new [simp]: "promise_at (ps @ [d]) (length ps) = Some d"
  by (simp add: promise_at_def)

lemma wp_awaitDeps:
  assumes "walletDepsPromise s = Some p" "promise_at (depsPromises s) p = Some (Loading r)" "kept s0 s" "walletDeps s0 = None"
  shows "wp (awaitDeps E p)
    (\<lambda>reg s'. calm s0 s' \<and> account s' = account s0 \<and> st_client s' = st_client s0 \<and> walletDeps s' = Some reg
       \<and> (\<exists>b. r = Inr b \<and> has_Long b \<and> reg = walletRegistry (default_types b)) \<and> set (tr s) \<subseteq> set (tr s'))
    (\<lambda>_ s'. kept s0 s' \<and> walletDepsPromise s' = None) s"
proof -
  from assms(2) obtain res s' where "load_result E r s res s'"
      and t: "settleDeps E p s = s'\<lparr>depsPromises := (depsPromises s)[p := Settled res]\<rparr>"
    by (rule settleDeps_result)
  moreover from assms(2) have "p < length (depsPromises s)" by (auto simp: promise_at_def split: if_splits)
  ultimately show ?thesis using assms
    by (auto simp: awaitDeps_def wp_simps load_result_def kept_def walletDeps_def registry_at_def account_def)
qed

lemma wp_startDeps [wp_simps]: "wp (startDeps E) Q R s = Q (length (depsPromises s)) (deps_started E s)"
  by (simp add: startDeps_def wp_def run_simps)

lemma kept_started: "walletDepsPromise s = None \<Longrightarrow> kept s (deps_started E s)"
  by (simp add: deps_started_def Let_def kept_def account_def walletDeps_def registry_at_def)

lemma started_promise:
  "walletDepsPromise (deps_started E s) = Some (length (depsPromises s))"
  "promise_at (depsPromises (deps_started E s)) (length (depsPromises s)) = Some (Loading (e_import E (tr s) walletBundleURL))"
  "tr (deps_started E s) = tr s @ [ImportBundle walletBundleURL (e_import E (tr s) walletBundleURL)]"
  by (simp_all add: deps_started_def Let_def)

lemma wp_loadWalletDeps:
  "wp (loadWalletDeps E) (\<lambda>r s'. loaded s r s') (\<lambda>_ s'. kept s s' \<and> walletDeps s = None) s"
proof (cases "walletDepsPromise s")
  case None
  then have n: "walletDeps s = None" by (simp add: walletDeps_def)
  show ?thesis unfolding loadWalletDeps_def
    by (auto simp: wp_simps None n loaded_def bundle_registry_def started_promise
        intro!: wp_frame [OF wp_awaitDeps [OF _ _ kept_started n]] split: sum.split)
next
  case (Some p)
  show ?thesis
  proof (cases "\<exists>r. promise_at (depsPromises s) p = Some (Loading r)")
    case True
    then obtain r where r: "promise_at (depsPromises s) p = Some (Loading r)" ..
    with Some have n: "walletDeps s = None" by (simp add: walletDeps_def registry_at_def)
    show ?thesis unfolding loadWalletDeps_def
      by (auto simp: wp_simps Some n loaded_def intro!: wp_frame [OF wp_awaitDeps [OF Some r kept_refl n]])
  next
    case False
    then have "settleDeps E p s = s" by (intro settleDeps_other) auto
    then show ?thesis using False unfolding loadWalletDeps_def awaitDeps_def
      by (cases "(E, promise_at (depsPromises s) p)" rule: settledValue.cases)
         (auto simp: wp_simps Some loaded_def walletDeps_def registry_at_def split: sum.split)
  qed
qed

definition fee_for :: "env \<Rightarrow> js_number \<Rightarrow> std_fee \<Rightarrow> bool" where
  "fee_for E g fee \<longleftrightarrow> (\<exists>gp. GasPrice_fromString (gas_price_string E) = Inr gp \<and> calculateFee g gp = Inr fee)"

text \<open>The account after a routine that connects when needed.\<close>

definition account_step :: "wallet \<Rightarrow> wallet \<Rightarrow> bool" where
  "account_step s s' \<longleftrightarrow> (wallet_connected s \<longrightarrow> account s' = account s)
     \<and> (\<not> wallet_connected s \<longrightarrow> account s' = account s \<or> (\<exists>sg. st_signer s' = Some sg \<and> reported (tr s') sg (st_address s')))"

definition client_step :: "wallet \<Rightarrow> client \<Rightarrow> wallet \<Rightarrow> bool" where
  "client_step s c s' \<longleftrightarrow> calm s s' \<and> account_step s s' \<and> st_client s' = Some c
     \<and> (st_client s = None \<longrightarrow> (\<exists>url sg r gp. ConnectWithSigner url sg r gp (Inr c) \<in> set (tr s') \<and> st_signer s' = Some sg))
     \<and> (\<forall>c0. st_client s = Some c0 \<longrightarrow> c = c0)"

definition settled :: "wallet \<Rightarrow> wallet \<Rightarrow> bool" where
  "settled s s' \<longleftrightarrow> calm s s' \<and> account_step s s' \<and> st_client s' = st_client s"

lemma reported_log [simp]: "reported es sg a \<Longrightarrow> reported (es @ es') sg a"
  by (auto simp: reported_def)

lemma account_step_connected: "account_step s s' \<Longrightarrow> wallet_connected s \<Longrightarrow> account s' = account s"
  by (simp add: account_step_def)

lemma kept_settled: "kept s s' \<Longrightarrow> settled s s'"
  by (auto simp: kept_def settled_def account_step_def)

lemma ensured_account: "(if wallet_connected s then s' = s else linked s s') \<Longrightarrow> calm s s' \<and> account_step s s' \<and> st_client s' = st_client s \<and> walletDeps s' = walletDeps s"
  by (auto simp: linked_def account_step_def split: if_splits)

text \<open>Setup calls after the account was settled keep it.\<close>

lemma account_step_later: "account_step s s1 \<Longrightarrow> account s2 = account s1 \<Longrightarrow> calm s1 s2 \<Longrightarrow> account_step s s2"
  by (auto simp: account_step_def account_def reported_def dest!: calm_set)

lemma account_step_log: "account_step s s1 \<Longrightarrow> account_step s (log_event ev s1)"
  by (auto simp: account_step_def account_def)

lemma account_step_refl [simp]: "account_step s s"
  by (simp add: account_step_def)

lemma settled_refl [simp]: "settled s s"
  by (simp add: settled_def)

lemma settled_log [simp]: "setup_event ev \<Longrightarrow> settled s s1 \<Longrightarrow> settled s (log_event ev s1)"
  by (auto simp: settled_def account_def intro: account_step_later)

lemma settled_loaded: "settled s s1 \<Longrightarrow> loaded s1 r s2 \<Longrightarrow> settled s s2"
  by (auto simp: settled_def loaded_def intro: account_step_later calm_trans)

lemma settled_kept: "settled s s1 \<Longrightarrow> kept s1 s2 \<Longrightarrow> settled s s2"
  by (auto simp: settled_def kept_def intro: account_step_later calm_trans)

lemma settled_client:
  "settled s s1 \<Longrightarrow> st_client s = None \<Longrightarrow> st_signer s1 = Some g \<Longrightarrow>
   client_step s c (log_event (ConnectWithSigner url g r gp (Inr c)) s1\<lparr>st_client := Some c\<rparr>)"
  by (auto simp: settled_def client_step_def account_def intro!: account_step_later [of s s1])

lemma wp_openClient:
  assumes "settled s s1" "st_client s = None"
  shows "wp (openClient E url r) (\<lambda>c. client_step s c) (\<lambda>_. settled s) s1"
  using assms by (auto simp: openClient_def wp_simps settled_client split: sum.split option.split)

lemma wp_load_settled:
  assumes "settled s s1"
  shows "wp (loadWalletDeps E) (\<lambda>r s2. settled s s2 \<and> loaded s1 r s2) (\<lambda>_. settled s) s1"
  by (rule wp_frame [OF wp_loadWalletDeps]) (use assms in \<open>auto intro: settled_loaded settled_kept\<close>)

lemma wp_getClient: "wp (getClient E) (\<lambda>c. client_step s c) (\<lambda>_. settled s) s"
  unfolding getClient_def wp_andThen wp_await
proof (rule wp_frame [OF wp_ensure], goal_cases)
  case (1 _ s1)
  then have s1: "settled s s1" using ensured_account [of s s1] by (auto simp: settled_def)
  then have c: "st_client s1 = st_client s" by (simp add: settled_def)
  show ?case
  proof (cases "st_client s")
    case (Some c)
    with s1 \<open>st_client s1 = _\<close> show ?thesis by (simp add: wp_gets wp_ret client_step_def settled_def)
  next
    case None
    with s1 c show ?thesis
      by (auto simp: wp_simps Let_def intro!: wp_throwT_own wp_openClient wp_frame [OF wp_load_settled])
  qed
next
  case (2 e s1)
  then show ?case by (simp add: kept_settled)
qed

section \<open>Submitting\<close>

definition quietly :: "wallet \<Rightarrow> wallet \<Rightarrow> bool" where
  "quietly s s' \<longleftrightarrow> calm s s' \<and> account_step s s'"

definition submitted :: "env \<Rightarrow> encode_object list \<Rightarrow> js_number \<Rightarrow> wallet \<Rightarrow> exn + tx_result \<Rightarrow> wallet \<Rightarrow> bool" where
  "submitted E msgs g s r s' \<longleftrightarrow> page_of s' = page_of s \<and> account_step s s' \<and>
     (\<exists>es c fee. st_client s' = Some c \<and> fee_for E g fee \<and> list_all setup_event es \<and>
        tr s' = tr s @ es @ [SignAndBroadcast c (st_address s') msgs fee [] r])"

lemma submittedI:
  assumes "client_step s c s1" "loaded s1 reg s2" "fee_for E g fee" "a = st_address s2"
  shows "submitted E msgs g s r (log_event (SignAndBroadcast c a msgs fee [] r) s2)"
proof -
  from assms have calm: "calm s s2" "account_step s s2" "st_client s2 = Some c"
    by (auto simp: client_step_def loaded_def intro: account_step_later calm_trans)
  then obtain es where "tr s2 = tr s @ es" "list_all setup_event es" by (auto simp: calm_def since_def)
  with calm show ?thesis using assms(3,4)
    by (auto simp: submitted_def calm_def intro: account_step_log)
qed

lemma wp_submitTx:
  "wp (submitTx E msgs g)
     (\<lambda>h s'. \<exists>res. submitted E msgs g s (Inr res) s' \<and> tx_code res = 0 \<and> h = transactionHash res)
     (\<lambda>e s'. quietly s s' \<or> (\<exists>r. submitted E msgs g s r s')) s"
  unfolding submitTx_def wp_andThen wp_await
proof (rule wp_frame [OF wp_getClient], goal_cases)
  case (1 c s1)
  then have q: "quietly s s2" if "kept s1 s2 \<or> (\<exists>r. loaded s1 r s2)" for s2
    using that by (auto simp: quietly_def client_step_def kept_def loaded_def intro: account_step_later calm_trans)
  show ?case
  proof (rule wp_frame [OF wp_loadWalletDeps], goal_cases)
    case (1 reg s2)
    with \<open>client_step s c s1\<close> q show ?case
      by (auto simp: wp_simps fee_for_def intro!: submittedI wp_throwT_own exI split: sum.split)
  next
    case (2 e s2)
    with q show ?case by blast
  qed
next
  case (2 e s1)
  then show ?case by (simp add: settled_def quietly_def)
qed

section \<open>What a handler does to the outside\<close>

definition flash_result :: "jstring \<Rightarrow> bool \<Rightarrow> context_node \<Rightarrow> wallet \<Rightarrow> wallet" where
  "flash_result text isError ctx s =
     (case find_flash ctx s of
        None \<Rightarrow> if text \<noteq> [] then log_event (Alert text) s else s
      | Some i \<Rightarrow> s\<lparr>flashes := (flashes s)[i := \<lparr>textContent = text, hidden = (text = []), is_error = isError\<rparr>]\<rparr>)"

lemma wp_showFlash [wp_simps]:
  "wp (showFlash E m b ctx) Q R s =
     (case i18n_t (e_messages E) m [] of
        Inl _ \<Rightarrow> R (e_typeError E (lit ''text.replace'')) s | Inr x \<Rightarrow> Q () (flash_result x b ctx s))"
  by (auto simp: showFlash_def wp_simps flash_result_def split: sum.split option.split)

lemma wp_flashT [wp_simps]: "wp (flashT E m args ctx) Q R s = wp (tr_text E m args) (\<lambda>x. wp (showFlash E x False ctx) Q R) R s"
  by (simp add: flashT_def wp_simps)

fun is_broadcast :: "event \<Rightarrow> bool" where
  "is_broadcast (SignAndBroadcast _ _ _ _ _ _) = True"
| "is_broadcast _ = False"

fun is_reload :: "event \<Rightarrow> bool" where
  "is_reload (ReloadAfter _) = True"
| "is_reload _ = False"

text \<open>Events that are neither a broadcast nor a reload.\<close>

definition modest :: "trace \<Rightarrow> bool" where
  "modest es \<longleftrightarrow> list_all (\<lambda>e. \<not> is_broadcast e \<and> \<not> is_reload e) es"

lemma modest_simps [simp]:
  "modest []" "modest (e # es) \<longleftrightarrow> \<not> is_broadcast e \<and> \<not> is_reload e \<and> modest es" "modest (es @ es') \<longleftrightarrow> modest es \<and> modest es'"
  by (simp_all add: modest_def)

lemma setup_modest [simp]: "list_all setup_event es \<Longrightarrow> modest es"
  by (induction es) (auto elim!: setup_event.elims)

text \<open>
  \<open>sent E P s r s'\<close>: from \<open>s\<close> to \<open>s'\<close> exactly one transaction was broadcast, with one message \<open>m\<close> and
  the fee of the gas limit \<open>g\<close>, and answered by \<open>r\<close>; \<open>P\<close> relates the history before it, the address, the
  message and the gas. No reload was scheduled. \<open>attempt E P s s'\<close>: that, or no transaction and no reload at all.
\<close>

type_synonym tx_rule = "trace \<Rightarrow> jstring \<Rightarrow> encode_object \<Rightarrow> js_number \<Rightarrow> bool"

definition sent :: "env \<Rightarrow> tx_rule \<Rightarrow> wallet \<Rightarrow> exn + tx_result \<Rightarrow> wallet \<Rightarrow> bool" where
  "sent E P s r s' \<longleftrightarrow>
     (\<exists>pre c a m g fee post. tr s' = tr s @ pre @ SignAndBroadcast c a [m] fee [] r # post
        \<and> modest pre \<and> modest post \<and> P (tr s @ pre) a m g \<and> fee_for E g fee)"

definition attempt :: "env \<Rightarrow> tx_rule \<Rightarrow> wallet \<Rightarrow> wallet \<Rightarrow> bool" where
  "attempt E P s s' \<longleftrightarrow> (\<exists>pre. tr s' = tr s @ pre \<and> modest pre) \<or> (\<exists>r. sent E P s r s')"

lemma sent_attempt: "sent E P s r s1 \<Longrightarrow> attempt E P s s1"
  by (auto simp: attempt_def)

lemma sent_more:
  assumes "sent E P s r s1" "tr s2 = tr s1 @ es" "modest es"
  shows "sent E P s r s2"
proof -
  from assms(1) obtain pre c a m g fee post where
    "tr s1 = tr s @ pre @ SignAndBroadcast c a [m] fee [] r # post"
    "modest pre" "modest post" "P (tr s @ pre) a m g" "fee_for E g fee" unfolding sent_def by auto
  moreover from this assms(3) have "modest (post @ es)" by simp
  ultimately show ?thesis unfolding sent_def using assms(2) by (intro exI conjI) (assumption | simp)+
qed

lemma flash_trace: "\<exists>es. tr (flash_result x b ctx s) = tr s @ es \<and> modest es"
  by (auto simp: flash_result_def split: option.split)

lemma sent_flash: "sent E P s r s1 \<Longrightarrow> sent E P s r (flash_result x b ctx s1)"
  using flash_trace [of x b ctx s1] by (auto elim!: sent_more)

lemma attempt_none: "tr s1 = tr s @ pre \<Longrightarrow> modest pre \<Longrightarrow> attempt E P s s1"
  by (auto simp: attempt_def)

lemma attempt_more:
  assumes "attempt E P s s1" "tr s2 = tr s1 @ es" "modest es"
  shows "attempt E P s s2"
  using assms(1) unfolding attempt_def
proof (elim disjE exE conjE, goal_cases)
  case (1 pre)
  with assms(2,3) have "tr s2 = tr s @ pre @ es" "modest (pre @ es)" by simp_all
  then show ?case by blast
next
  case (2 r)
  then have "sent E P s r s2" using assms(2,3) by (rule sent_more)
  then show ?case by blast
qed

lemma attempt_log: "attempt E P s s1 \<Longrightarrow> modest [ev] \<Longrightarrow> attempt E P s (log_event ev s1)"
  by (erule attempt_more [where es = "[ev]"]) simp_all

lemma attempt_flash: "attempt E P s s1 \<Longrightarrow> attempt E P s (flash_result x b ctx s1)"
  using flash_trace [of x b ctx s1] by (auto elim!: attempt_more)

lemma sent_submitted:
  assumes "tr s1 = tr s @ pre" "modest pre" "submitted E [m] g s1 r s2"
    and "\<And>a es. list_all setup_event es \<Longrightarrow> (wallet_connected s1 \<longrightarrow> a = st_address s1) \<Longrightarrow> P (tr s1 @ es) a m g"
  shows "sent E P s r s2"
proof -
  from assms(3) obtain es c fee where es: "list_all setup_event es" "fee_for E g fee"
    "tr s2 = tr s1 @ es @ [SignAndBroadcast c (st_address s2) [m] fee [] r]"
    by (auto simp: submitted_def)
  moreover from assms(3) have "wallet_connected s1 \<Longrightarrow> st_address s2 = st_address s1"
    by (auto simp: submitted_def account_step_def account_def)
  moreover from this es(1) have "P (tr s @ pre @ es) (st_address s2) m g" using assms(1) assms(4) [of es "st_address s2"] by simp
  ultimately show ?thesis unfolding sent_def using assms(1,2)
    by (intro exI [of _ "pre @ es"] exI [of _ c] exI [of _ "st_address s2"] exI [of _ m] exI [of _ g] exI [of _ fee] exI [of _ "[]"])
       simp
qed

lemma wp_submit_attempt:
  assumes "tr s1 = tr s @ pre" "modest pre"
    and "\<And>a es. list_all setup_event es \<Longrightarrow> (wallet_connected s1 \<longrightarrow> a = st_address s1) \<Longrightarrow> P (tr s1 @ es) a m g"
    and "\<And>res s2. sent E P s (Inr res) s2 \<Longrightarrow> attempt E P s s2 \<Longrightarrow> tx_code res = 0 \<Longrightarrow>
       wp (k (transactionHash res)) Q (\<lambda>_. attempt E P s) s2"
  shows "wp (submitTx E [m] g) (\<lambda>h. wp (k h) Q (\<lambda>_. attempt E P s)) (\<lambda>_. attempt E P s) s1"
proof (rule wp_frame [OF wp_submitTx], goal_cases)
  have sub: "sent E P s r s2" if "submitted E [m] g s1 r s2" for r s2
    using assms(1,2) that assms(3) by (rule sent_submitted)
  case (1 h s2)
  then show ?case using sub sent_attempt assms(4) by blast
next
  have sub: "sent E P s r s2" if "submitted E [m] g s1 r s2" for r s2
    using assms(1,2) that assms(3) by (rule sent_submitted)
  case (2 e s2)
  then show ?case
  proof (elim disjE exE)
    assume "quietly s1 s2"
    then obtain es where "tr s2 = tr s @ pre @ es" "list_all setup_event es"
      using assms(1) by (auto simp: quietly_def calm_def since_def)
    then show ?thesis using assms(2) by (intro attempt_none [where pre = "pre @ es"]) simp_all
  next
    fix r
    assume "submitted E [m] g s1 r s2"
    then show ?thesis using sub sent_attempt by blast
  qed
qed

section \<open>The contract of a form handler\<close>

text \<open>
  \<open>succeeded E P note fin ctx s s'\<close>: one transaction was broadcast under rule \<open>P\<close>, its result code is 0,
  the notice \<open>note\<close> shows its hash, and \<open>fin\<close> was done last.
\<close>

definition succeeded :: "env \<Rightarrow> tx_rule \<Rightarrow> jstring \<Rightarrow> (wallet \<Rightarrow> wallet) \<Rightarrow> context_node \<Rightarrow> wallet \<Rightarrow> wallet \<Rightarrow> bool" where
  "succeeded E P note fin ctx s s' \<longleftrightarrow>
     (\<exists>res s2 y text. sent E P s (Inr res) s2 \<and> tx_code res = 0
        \<and> i18n_t (e_messages E) note [transactionHash res] = Inr y \<and> i18n_t (e_messages E) y [] = Inr text
        \<and> s' = fin (flash_result text False ctx s2))"

text \<open>
  How a thrown value \<open>e\<close> ends: its text becomes the error notice. Two values have no notice, and the handler
  throws instead: \<open>null\<close> or \<open>undefined\<close>, and a text that \<open>t\<close> throws on (a name of \<open>Object.prototype\<close>).
\<close>

definition failure_shown :: "env \<Rightarrow> context_node \<Rightarrow> exn \<Rightarrow> wallet \<Rightarrow> (exn + unit) \<times> wallet" where
  "failure_shown E ctx e s =
     (if ex_nullish e then (Inl (e_typeError E (lit ''err.message'')), s)
      else case i18n_t (e_messages E) (orElse (ex_message e) (ex_string e)) [] of
        Inl _ \<Rightarrow> (Inl (e_typeError E (lit ''text.replace'')), s)
      | Inr text \<Rightarrow> (Inr (), flash_result text True ctx s))"

text \<open>
  \<open>handled E P note fin ctx con body m s\<close>: when the \<open>try\<close> block \<open>body\<close> returns, the handler \<open>m\<close> ends there, and it
  succeeded. When it throws \<open>e\<close>, at most one transaction was broadcast, under rule \<open>P\<close>, no reload was scheduled, and
  the handler ends by showing \<open>e\<close>, after what \<open>con\<close> logs of it.
\<close>

definition handled :: "env \<Rightarrow> tx_rule \<Rightarrow> jstring \<Rightarrow> (wallet \<Rightarrow> wallet) \<Rightarrow> context_node \<Rightarrow> (exn \<Rightarrow> wallet \<Rightarrow> wallet)
    \<Rightarrow> unit wproc \<Rightarrow> unit wproc \<Rightarrow> wallet \<Rightarrow> bool" where
  "handled E P note fin ctx con body m s \<longleftrightarrow>
     (case run body (log_event PreventDefault s) of
        (Inr _, s') \<Rightarrow> succeeded E P note fin ctx s s' \<and> run m s = (Inr (), s')
      | (Inl e, s1) \<Rightarrow> attempt E P s s1 \<and> run m s = failure_shown E ctx e (con e s1))"

lemma run_flashError: "run (flashError E ctx e) s = failure_shown E ctx e s"
proof -
  have "wp (flashError E ctx e) (\<lambda>x s'. failure_shown E ctx e s = (Inr x, s')) (\<lambda>x s'. failure_shown E ctx e s = (Inl x, s')) s"
    by (simp add: flashError_def failure_shown_def wp_simps split: sum.split)
  then show ?thesis by (auto simp: wp_def split: prod.splits sum.splits)
qed

lemma handledI:
  assumes "wp body (\<lambda>_. succeeded E P note fin ctx s) (\<lambda>_. attempt E P s) (log_event PreventDefault s)"
    and "m = andThen (emit PreventDefault) (\<lambda>_. catch body h)"
    and "\<And>e s1. run (h e) s1 = failure_shown E ctx e (con e s1)"
  shows "handled E P note fin ctx con body m s"
  using assms(1) unfolding handled_def assms(2) wp_def
  by (auto simp: run_simps emit_def assms(3) split: prod.splits sum.splits)

text \<open>\<open>ready h s\<close>: the wallet has a signer, and after the history \<open>h\<close> only setup calls were made.\<close>

definition ready :: "trace \<Rightarrow> wallet \<Rightarrow> bool" where
  "ready h s \<longleftrightarrow> since h s \<and> st_signer s \<noteq> None"

lemma wp_ensure_ready: "wp (ensureWalletConnected E) (\<lambda>_. ready (tr s)) (\<lambda>_. since (tr s)) s"
  by (rule wp_frame [OF wp_ensure])
     (auto simp: ready_def linked_def kept_def calm_def wallet_connected_def split: if_splits)

lemma wp_load_ready: "ready h s \<Longrightarrow> wp (loadWalletDeps E) (\<lambda>_. ready h) (\<lambda>_. since h) s"
  by (rule wp_frame [OF wp_loadWalletDeps])
     (auto simp: ready_def loaded_def kept_def calm_def account_def intro: since_trans)

abbreviation started :: "wallet \<Rightarrow> trace" where
  "started s \<equiv> tr s @ [PreventDefault]"

lemma since_started: "since (started s) s1 \<Longrightarrow> \<exists>es. tr s1 = tr s @ PreventDefault # es \<and> modest (PreventDefault # es)"
  by (auto simp: since_def)

lemma attempt_started: "since (started s) s1 \<Longrightarrow> attempt E P s s1"
  using since_started [of s s1] by (auto simp: attempt_def)

lemma wp_success_tail:
  assumes "sent E P s (Inr res) s2" "attempt E P s s2" "tx_code res = 0"
  shows "wp (andThen (flashT E note [transactionHash res] ctx) (\<lambda>_. emit (ReloadAfter 1500)))
    (\<lambda>_. succeeded E P note (log_event (ReloadAfter 1500)) ctx s) (\<lambda>_. attempt E P s) s2"
    and "wp (flashT E note [transactionHash res] ctx) (\<lambda>_. succeeded E P note id ctx s) (\<lambda>_. attempt E P s) s2"
  using assms by (auto simp: wp_simps succeeded_def split: sum.split)

text \<open>
  The rules: the content of the form, read at a moment \<open>h1\<close> between the start of the handler and the broadcast,
  in the name of an account \<open>b\<close> that is the sender \<open>a\<close>. (\<open>b\<close> is empty only when the extension reported an account
  without an address.) A registration was verified for the sender right after the form was read.
\<close>

definition read_in :: "trace \<Rightarrow> trace \<Rightarrow> trace \<Rightarrow> bool" where
  "read_in h0 h1 h \<longleftrightarrow> prefix (h0 @ [PreventDefault]) h1 \<and> prefix h1 h"

definition create_rule :: "env \<Rightarrow> form \<Rightarrow> trace \<Rightarrow> tx_rule" where
  "create_rule E f h0 h a m g \<longleftrightarrow> (\<exists>h1 b. read_in h0 h1 h \<and> create_content E h1 f b m g \<and> (b \<noteq> [] \<longrightarrow> a = b))"

definition status_rule :: "env \<Rightarrow> form \<Rightarrow> jstring option \<Rightarrow> trace \<Rightarrow> tx_rule" where
  "status_rule E f sub h0 h a m g \<longleftrightarrow> (\<exists>h1 b. read_in h0 h1 h \<and> status_content E h1 f sub b m g \<and> (b \<noteq> [] \<longrightarrow> a = b))"

definition lease_rule :: "env \<Rightarrow> form \<Rightarrow> trace \<Rightarrow> tx_rule" where
  "lease_rule E f h0 h a m g \<longleftrightarrow> (\<exists>h1 b. read_in h0 h1 h \<and> lease_content E h1 f b m g \<and> (b \<noteq> [] \<longrightarrow> a = b))"

definition register_rule :: "env \<Rightarrow> form \<Rightarrow> trace \<Rightarrow> tx_rule" where
  "register_rule E f h0 h a m g \<longleftrightarrow>
     (\<exists>h1 domain ev r. read_in h0 h1 h \<and> register_content E h1 f a a domain m g
        \<and> prefix (h1 @ [ev]) h \<and> asked ev domain a r \<and> verified r)"

lemma read_inI: "since (started s) s1 \<Longrightarrow> read_in (tr s) (tr s1) (tr s1 @ es)"
  by (auto simp: read_in_def since_def)

lemma create_ruleI:
  assumes "wallet_connected s1 \<longrightarrow> a = st_address s1" "ready (started s) s1" "create_content E (tr s1) f (st_address s1) m g"
  shows "create_rule E f (tr s) (tr s1 @ es) a m g"
  using assms read_inI unfolding create_rule_def wallet_connected_def ready_def by blast

lemma status_ruleI:
  assumes "wallet_connected s1 \<longrightarrow> a = st_address s1" "ready (started s) s1" "status_content E (tr s1) f sub (st_address s1) m g"
  shows "status_rule E f sub (tr s) (tr s1 @ es) a m g"
  using assms read_inI unfolding status_rule_def wallet_connected_def ready_def by blast

lemma lease_ruleI:
  assumes "wallet_connected s1 \<longrightarrow> a = st_address s1" "ready (started s) s1" "lease_content E (tr s1) f (st_address s1) m g"
  shows "lease_rule E f (tr s) (tr s1 @ es) a m g"
  using assms read_inI unfolding lease_rule_def wallet_connected_def ready_def by blast

lemma register_ruleI:
  assumes "wallet_connected s1 \<longrightarrow> a = st_address s1" "ready (started s) s1" "st_address s1 \<noteq> []"
    and "register_content E (tr s1) f (st_address s1) (st_address s1) domain m g" "verified r"
  shows "register_rule E f (tr s) (tr s1 @ Fetch (verifyRequest domain (st_address s1)) (Inr r) # es) a m g"
proof -
  have "a = st_address s1" using assms(1-3) by (simp add: wallet_connected_def ready_def)
  moreover have "read_in (tr s) (tr s1) (tr s1 @ Fetch (verifyRequest domain (st_address s1)) (Inr r) # es)"
    using assms(2) by (intro read_inI) (simp add: ready_def)
  moreover have "prefix (tr s1 @ [ev]) (tr s1 @ ev # es)" for ev by simp
  ultimately show ?thesis unfolding register_rule_def using assms(4,5) asked_verifyRequest by blast
qed

section \<open>The form handlers\<close>

lemma wp_submit_started:
  assumes "since (started s) s1"
    and "\<And>a es. list_all setup_event es \<Longrightarrow> (wallet_connected s1 \<longrightarrow> a = st_address s1) \<Longrightarrow> P (tr s1 @ es) a m g"
    and "\<And>res s2. sent E P s (Inr res) s2 \<Longrightarrow> attempt E P s s2 \<Longrightarrow> tx_code res = 0 \<Longrightarrow>
       wp (k (transactionHash res)) Q (\<lambda>_. attempt E P s) s2"
  shows "wp (submitTx E [m] g) (\<lambda>h. wp (k h) Q (\<lambda>_. attempt E P s)) (\<lambda>_. attempt E P s) s1"
proof -
  obtain es where "tr s1 = tr s @ PreventDefault # es" "modest (PreventDefault # es)" using since_started [OF assms(1)] by blast
  then show ?thesis using assms(2,3) by (rule wp_submit_attempt)
qed

lemma wp_createSlotTry:
  "wp (createSlotTry E f) (\<lambda>_. succeeded E (create_rule E f (tr s)) (lit ''Slot created. Tx: {0}'') (log_event (ReloadAfter 1500)) Document s)
     (\<lambda>_. attempt E (create_rule E f (tr s)) s) (log_event PreventDefault s)"
  unfolding createSlotTry_def wp_andThen wp_await
proof (rule wp_frame [OF wp_ensure_ready], goal_cases)
  case (1 _ s1)
  then have r: "ready (started s) s1" by simp
  show ?case
  proof (rule wp_frame [OF wp_load_ready [OF r]], goal_cases)
    case (1 _ s2)
    then have v: "since (started s) s2" by (simp add: ready_def)
    show ?case using 1
      by (auto simp: wp_simps formData_def Let_def attempt_started v
          intro!: wp_throwT_own wp_submit_started [OF v] wp_success_tail create_ruleI create_contentI split: sum.split)
  qed (simp add: attempt_started)
qed (simp add: attempt_started)

lemma wp_slotStatusTry:
  "wp (slotStatusTry E f sub) (\<lambda>_. succeeded E (status_rule E f sub (tr s)) (lit ''Slot updated. Tx: {0}'') (log_event (ReloadAfter 1500)) Document s)
     (\<lambda>_. attempt E (status_rule E f sub (tr s)) s) (log_event PreventDefault s)"
  unfolding slotStatusTry_def wp_andThen wp_await
proof (rule wp_frame [OF wp_ensure_ready], goal_cases)
  case (1 _ s2)
  then have r: "ready (started s) s2" and v: "since (started s) s2" by (simp_all add: ready_def)
  let ?data = "e_formData E (tr s2) f"
  show ?case
  proof (cases "slotAction (case sub of Some v \<Rightarrow> v | None \<Rightarrow> field ?data ''action'')")
    case None
    then show ?thesis
      by (auto simp: wp_simps formData_def Let_def attempt_started v intro!: wp_throwT_own)
  next
    case (Some status)
    then show ?thesis using r
      by (auto simp: wp_simps formData_def Let_def attempt_started v
          intro!: wp_throwT_own wp_submit_started [OF v] wp_success_tail status_ruleI status_contentI split: sum.split)
  qed
qed (simp add: attempt_started)

lemma wp_parseStartDate:
  "wp (parseStartDate E value) (\<lambda>v s'. s' = s \<and> start_ok (e_now E (tr s)) value v) (\<lambda>_ s'. s' = s) s"
proof (cases "value = []")
  case True
  then show ?thesis by (simp add: parseStartDate_def wp_simps start_ok_def)
next
  case False
  then show ?thesis
    by (auto simp: parseStartDate_def wp_simps start_ok_def utc_date_def intro!: wp_throwT_own
        split: list.split option.split)
qed

lemma wp_leaseTry:
  "wp (leaseTry E f) (\<lambda>_. succeeded E (lease_rule E f (tr s)) (lit ''Lease requested. Tx: {0}'') (log_event (ReloadAfter 1500)) Document s)
     (\<lambda>_. attempt E (lease_rule E f (tr s)) s) (log_event PreventDefault s)"
  unfolding leaseTry_def wp_andThen wp_await
proof (rule wp_frame [OF wp_ensure_ready], goal_cases)
  case (1 _ s1)
  then have r: "ready (started s) s1" by simp
  show ?case
  proof (rule wp_frame [OF wp_load_ready [OF r]], goal_cases)
    case (1 _ s2)
    then have v: "since (started s) s2" by (simp add: ready_def)
    show ?case using 1
      by (auto simp: wp_simps formData_def Let_def attempt_started v
          intro!: wp_throwT_own wp_frame [OF wp_parseStartDate] wp_submit_started [OF v] wp_success_tail lease_ruleI lease_contentI
          split: sum.split)
  qed (simp add: attempt_started)
qed (simp add: attempt_started)

lemma wp_checkVerification:
  "wp (checkVerification E r (json_or_empty r)) (\<lambda>_ s'. s' = s \<and> verified r) (\<lambda>_ s'. s' = s) s"
  by (auto simp: checkVerification_def json_or_empty_def verified_def wp_simps intro!: wp_throwT_own
      split: option.splits sum.splits)

lemma wallet_connected_log [simp]: "wallet_connected (log_event ev s) = wallet_connected s"
  by (simp add: wallet_connected_def)

lemma wp_registerTry:
  "wp (registerTry E f) (\<lambda>_. succeeded E (register_rule E f (tr s)) (lit ''Registration submitted; verifier confirmation pending. Tx: {0}'') id (FormNode f) s)
     (\<lambda>_. attempt E (register_rule E f (tr s)) s) (log_event PreventDefault s)"
  unfolding registerTry_def wp_andThen wp_await
proof (rule wp_frame [OF wp_ensure_ready], goal_cases)
  case (1 _ s2)
  then have r: "ready (started s) s2" and v: "since (started s) s2" by (simp_all add: ready_def)
  obtain es where es: "tr s2 = tr s @ PreventDefault # es" "modest (PreventDefault # es)" using since_started [OF v] by blast
  have fetched: "tr (log_event (Fetch rq x) s2) = tr s @ PreventDefault # es @ [Fetch rq x]"
    and b: "modest (PreventDefault # es @ [Fetch rq x])" for rq x
    using es by simp_all
  have failed: "attempt E P s (log_event (Fetch rq x) s2)" for P rq x
    using fetched b by (rule attempt_none)
  let ?data = "e_formData E (tr s2) f"
  let ?domain = "toLowerCase (e_lower E) (field ?data ''domain'')" and ?ref = "field ?data ''referrer''"
  let ?ev = "\<lambda>x. Fetch (verifyRequest ?domain (st_address s2)) (Inr x)"
  have rule: "register_rule E f (tr s) (tr s2 @ ?ev x # es') a (registerMsg (st_address s2) ?domain ref) (Fin 220000)"
    if "wallet_connected s2 \<longrightarrow> a = st_address s2" "?domain \<noteq> []" "field ?data ''wallet'' = st_address s2" "st_address s2 \<noteq> []"
      "?ref = ref" "ref = [] \<or> isLikelyGridAddress ref" "verified x" for x a es' ref
    by (rule register_ruleI [OF that(1) r that(4) register_contentI [OF refl refl that(2,3,4) that(5) [symmetric] that(6)] that(7)])
  show ?case using r
    by (auto simp: wp_simps formData_def Let_def attempt_started v failed
        intro!: wp_throwT_own wp_frame [OF wp_checkVerification] wp_submit_attempt [OF fetched b] wp_success_tail rule split: sum.split)
qed (simp add: attempt_started)

lemma handled_create:
  "handled E (create_rule E f (tr s)) (lit ''Slot created. Tx: {0}'') (log_event (ReloadAfter 1500)) Document (\<lambda>_ s. s)
     (createSlotTry E f) (onCreateSlotSubmit E f) s"
  by (rule handledI [OF wp_createSlotTry onCreateSlotSubmit_def]) (rule run_flashError)

lemma handled_status:
  "handled E (status_rule E f sub (tr s)) (lit ''Slot updated. Tx: {0}'') (log_event (ReloadAfter 1500)) Document (\<lambda>_ s. s)
     (slotStatusTry E f sub) (onSlotStatusSubmit E f sub) s"
  by (rule handledI [OF wp_slotStatusTry onSlotStatusSubmit_def]) (rule run_flashError)

lemma handled_lease:
  "handled E (lease_rule E f (tr s)) (lit ''Lease requested. Tx: {0}'') (log_event (ReloadAfter 1500)) Document (\<lambda>_ s. s)
     (leaseTry E f) (onLeaseSubmit E f) s"
  by (rule handledI [OF wp_leaseTry onLeaseSubmit_def]) (rule run_flashError)

lemma handled_register:
  "handled E (register_rule E f (tr s)) (lit ''Registration submitted; verifier confirmation pending. Tx: {0}'') id (FormNode f)
     (\<lambda>e. log_event (ConsoleError e)) (registerTry E f) (onRegisterSubmit E f) s"
  by (rule handledI [OF wp_registerTry onRegisterSubmit_def]) (simp add: run_simps emit_def run_flashError)

end
