(* ===== verification/WalletPage.thy ===== *)
theory WalletPage
  imports WalletSafety
begin

text \<open>
  The life of a page: \<open>initWalletUI\<close> and then any sequence of clicks and submits.

  \<^item> \<open>cached\<close>: the RPC client is connected successfully at most once and is then kept; every handler
    that runs undisturbed keeps this (\<open>keeps\<close>).
  \<^item> \<open>authorised\<close>: every broadcast ever made carries one well-typed message, an empty memo, the fee of
    a gas limit, and is sent from the address named in the message.
  \<^item> a deployment with signing disabled installs no listener and makes no call.
\<close>

section \<open>Stable routines\<close>

lemma keeps_call [keeps_intros]:
  "(\<And>s x. I s \<Longrightarrow> I (log_event (ev x) s)) \<Longrightarrow> keeps I (call r ev)"
  by (simp add: keeps_def wp_simps split: sum.split)

lemma keeps_emit [keeps_intros]: "(\<And>s. I s \<Longrightarrow> I (log_event ev s)) \<Longrightarrow> keeps I (emit ev)"
  by (simp add: keeps_def wp_simps)

lemma keeps_texts [keeps_intros]:
  "keeps I (feeE r)" "keeps I (tr_text E m args)" "keeps I (throwT E m args)"
  by (simp_all add: keeps_def wp_simps split: sum.split)

section \<open>The caches\<close>

fun client_ok :: "event \<Rightarrow> bool" where
  "client_ok (ConnectWithSigner _ _ _ _ (Inr c)) = True"
| "client_ok _ = False"

definition cached :: "wallet \<Rightarrow> bool" where
  "cached s \<longleftrightarrow> length (filter client_ok (tr s)) = (if st_client s = None then 0 else 1)"

lemma cached_log [simp]: "\<not> client_ok ev \<Longrightarrow> cached (log_event ev s) = cached s"
  by (simp add: cached_def)

lemma cached_upd [simp]:
  "cached (s\<lparr>st_signer := a\<rparr>) = cached s" "cached (s\<lparr>st_address := b\<rparr>) = cached s"
  "cached (s\<lparr>flashes := c\<rparr>) = cached s" "cached (s\<lparr>address_els := d\<rparr>) = cached s"
  "cached (s\<lparr>autofill_inputs := e\<rparr>) = cached s" "cached (s\<lparr>listeners := f\<rparr>) = cached s"
  "cached (s\<lparr>uiReady := g\<rparr>) = cached s" "cached (s\<lparr>walletDepsPromise := h\<rparr>) = cached s"
  "cached (s\<lparr>depsPromises := i\<rparr>) = cached s"
  by (simp_all add: cached_def)

lemma cached_settle [simp]: "cached (settleDeps E p s) = cached s" "st_client (settleDeps E p s) = st_client s"
  using settleDeps_frame [of E p s] by (auto simp: cached_def)

lemma cached_client:
  "st_client s = None \<Longrightarrow> cached s \<Longrightarrow> cached (log_event (ConnectWithSigner u g r p (Inr c)) s\<lparr>st_client := Some c\<rparr>)"
  by (simp add: cached_def)

lemma keeps_liftE [keeps_intros]: "keeps I (liftE r)"
  by (simp add: keeps_def wp_simps split: sum.split)

lemma keeps_settledValue [keeps_intros]: "keeps I (settledValue E d)"
  by (cases "(E, d)" rule: settledValue.cases) (auto intro!: keeps_intros)

lemma keeps_startDeps: "keeps (\<lambda>s. cached s \<and> st_client s = c) (startDeps E)"
  by (rule keepsI) (simp add: wp_simps deps_started_def Let_def)

lemma keeps_loadWalletDeps: "keeps (\<lambda>s. cached s \<and> st_client s = c) (loadWalletDeps E)"
  unfolding loadWalletDeps_def awaitDeps_def by (auto intro!: keeps_intros keeps_startDeps)

lemma keeps_loadWalletDeps_cached [keeps_intros]: "keeps cached (loadWalletDeps E)"
  by (rule keepsI) (rule wp_frame [OF keepsD [OF keeps_loadWalletDeps]], auto)

lemma keeps_flash [keeps_intros]: "keeps cached (showFlash E m b ctx)" "keeps cached (updateWalletAddress E a)"
  by (auto simp: showFlash_def updateWalletAddress_def intro!: keeps_intros)

lemma keeps_connectProvider: "keeps cached (connectProvider E item)"
  unfolding connectProvider_def suggestChainIfSupported_def Let_def
  by (auto intro!: keeps_intros)

lemma keeps_tryProviders: "keeps cached (tryProviders E ps e)"
  by (induction ps arbitrary: e) (auto simp: Let_def intro!: keeps_intros keeps_connectProvider)

lemma keeps_ensure [keeps_intros]: "keeps cached (ensureWalletConnected E)"
  unfolding ensureWalletConnected_def getWalletProviders_def
  by (auto intro!: keeps_intros keeps_tryProviders)

lemma keeps_getClient [keeps_intros]: "keeps cached (getClient E)"
proof (rule keepsI)
  fix s assume "cached s"
  have o: "wp (openClient E u r) (\<lambda>_. cached) (\<lambda>_. cached) s2" if "cached s2" "st_client s2 = None" for s2 u r
    using that by (auto simp: openClient_def wp_simps cached_client split: sum.split option.split)
  have l: "wp (loadWalletDeps E) (\<lambda>r. wp (openClient E u r) (\<lambda>_. cached) (\<lambda>_. cached)) (\<lambda>_. cached) s1"
    if "cached s1" "st_client s1 = None" for s1 u
    by (rule wp_frame [OF keepsD [OF keeps_loadWalletDeps [of None]]]) (use that o in auto)
  show "wp (getClient E) (\<lambda>_. cached) (\<lambda>_. cached) s"
    unfolding getClient_def wp_andThen wp_await
    by (rule wp_frame [OF keepsD [OF keeps_ensure \<open>cached s\<close>]])
       (auto simp: wp_simps Let_def intro!: wp_throwT_own l split: option.split)
qed

lemma keeps_submitTx [keeps_intros]: "keeps cached (submitTx E msgs g)"
  unfolding submitTx_def by (auto intro!: keeps_intros)

lemma keeps_autofill [keeps_intros]: "keeps cached (autofill i n)"
  by (induction n arbitrary: i) (auto intro!: keeps_intros)

lemma keeps_parseStartDate [keeps_intros]: "keeps cached (parseStartDate E v)"
  by (rule keepsI) (rule wp_frame [OF wp_parseStartDate], auto)

lemma keeps_checkVerification [keeps_intros]: "keeps cached (checkVerification E r v)"
  unfolding checkVerification_def by (auto intro!: keeps_intros)

lemma keeps_flashError [keeps_intros]: "keeps cached (flashError E ctx e)" "keeps cached (flashT E m args ctx)"
  unfolding flashError_def flashT_def by (auto intro!: keeps_intros)

lemma keeps_handler: "keeps cached (handler E l sub)"
  by (cases "(E, l, sub)" rule: handler.cases)
     (auto simp: onConnectClick_def onCreateSlotSubmit_def onSlotStatusSubmit_def onLeaseSubmit_def
       onRegisterSubmit_def createSlotTry_def slotStatusTry_def leaseTry_def registerTry_def formData_def Let_def intro!: keeps_intros)

lemma keeps_initWalletUI: "keeps cached (initWalletUI E)"
  unfolding initWalletUI_def bindConnectButtons_def bindCreateSlotForms_def bindSlotStatusForms_def
    bindLeaseForms_def bindPublisherRegisterForms_def bind_listeners_def
  by (auto intro!: keeps_intros)

lemma page_run_cached: "page_run E s0 s \<Longrightarrow> cached s0 \<Longrightarrow> cached s"
  by (induction rule: page_run.induct)
     (auto simp: page_load_def dispatch_def intro: keeps_snd [OF keeps_initWalletUI] keeps_snd [OF keeps_handler])

section \<open>Broadcasts\<close>

definition msg_sender :: "encode_object \<Rightarrow> jstring" where
  "msg_sender m =
     (case intended (msgValue m) of
        CCreateSlot x \<Rightarrow> cs_publisher x
      | CUpdateSlotStatus x \<Rightarrow> us_publisher x
      | CLeaseSlot x \<Rightarrow> ls_lessee x
      | CRegisterPublisher x \<Rightarrow> rp_owner x)"

definition authorised :: "env \<Rightarrow> event \<Rightarrow> bool" where
  "authorised E ev \<longleftrightarrow>
     (\<exists>c a m g fee r. ev = SignAndBroadcast c a [m] fee [] r \<and> well_typed m \<and> fee_for E g fee
        \<and> (msg_sender m \<noteq> [] \<longrightarrow> msg_sender m = a))"

definition sound_rule :: "tx_rule \<Rightarrow> bool" where
  "sound_rule P \<longleftrightarrow> (\<forall>pre a m g. P pre a m g \<longrightarrow> well_typed m \<and> (msg_sender m \<noteq> [] \<longrightarrow> msg_sender m = a))"

lemma well_typed_intended:
  "well_typed m \<longleftrightarrow>
     (case intended (msgValue m) of
        CCreateSlot _ \<Rightarrow> typeUrl m = url_CreateSlot
      | CUpdateSlotStatus _ \<Rightarrow> typeUrl m = url_UpdateSlotStatus
      | CLeaseSlot _ \<Rightarrow> typeUrl m = url_LeaseSlot
      | CRegisterPublisher _ \<Rightarrow> typeUrl m = url_RegisterPublisher)"
  by (simp add: well_typed_def intended_def split: msg_value.split)

text \<open>Every content is a well-typed message in the name of its account.\<close>

lemma contents_named:
  "create_content E h f b m g \<Longrightarrow> well_typed m \<and> msg_sender m = b"
  "status_content E h f sub b m g \<Longrightarrow> well_typed m \<and> msg_sender m = b"
  "lease_content E h f b m g \<Longrightarrow> well_typed m \<and> msg_sender m = b"
  "register_content E h f b w d m g \<Longrightarrow> well_typed m \<and> msg_sender m = b"
  by (auto simp: well_typed_intended msg_sender_def create_content_def status_content_def lease_content_def
      register_content_def)

lemma sound_rules:
  "sound_rule (create_rule E f h)" "sound_rule (status_rule E f sub h)" "sound_rule (lease_rule E f h)"
  "sound_rule (register_rule E f h)" "sound_rule (\<lambda>_ _ _ _. False)"
  by (auto simp: sound_rule_def create_rule_def status_rule_def lease_rule_def register_rule_def dest: contents_named)

definition tx_won :: "trace \<Rightarrow> bool" where
  "tx_won es \<longleftrightarrow> (\<exists>c a ms fee memo res. SignAndBroadcast c a ms fee memo (Inr res) \<in> set es \<and> tx_code res = 0)"

lemma tx_won_mono: "tx_won es \<Longrightarrow> set es \<subseteq> set es' \<Longrightarrow> tx_won es'"
  unfolding tx_won_def by blast

definition good_page :: "env \<Rightarrow> wallet \<Rightarrow> bool" where
  "good_page E s \<longleftrightarrow> (\<forall>ev \<in> set (tr s). is_broadcast ev \<longrightarrow> authorised E ev) \<and>
     (\<forall>n. ReloadAfter n \<in> set (tr s) \<longrightarrow> tx_won (tr s))"

lemma modest_mem: "modest es \<Longrightarrow> ev \<in> set es \<Longrightarrow> \<not> is_broadcast ev \<and> \<not> is_reload ev"
  by (auto simp: modest_def list_all_iff)

lemma good_page_modest: "good_page E s \<Longrightarrow> tr s' = tr s @ es \<Longrightarrow> modest es \<Longrightarrow> good_page E s'"
  unfolding good_page_def by (auto dest: modest_mem intro: tx_won_mono)

lemma sent_good:
  assumes "sent E P s r s'" "sound_rule P" "good_page E s"
  shows "good_page E s'" "r = Inr res \<Longrightarrow> tx_code res = 0 \<Longrightarrow> good_page E (log_event (ReloadAfter n) s')"
proof -
  from assms(1) obtain pre c a m g fee post where
    t: "tr s' = tr s @ pre @ SignAndBroadcast c a [m] fee [] r # post" "modest pre" "modest post" "P (tr s @ pre) a m g" "fee_for E g fee"
    unfolding sent_def by blast
  have auth: "authorised E (SignAndBroadcast c a [m] fee [] r)"
    using t(4,5) assms(2) by (auto simp: authorised_def sound_rule_def)
  show good: "good_page E s'"
    using assms(3) auth t(2,3) unfolding good_page_def t(1) by (auto dest: modest_mem intro: tx_won_mono)
  assume "r = Inr res" "tx_code res = 0"
  then have "SignAndBroadcast c a [m] fee [] (Inr res) \<in> set (tr s' @ es)" for es using t(1) by simp
  then have "tx_won (tr s' @ es)" for es unfolding tx_won_def using \<open>tx_code res = 0\<close> by blast
  with good show "good_page E (log_event (ReloadAfter n) s')" unfolding good_page_def by auto
qed

lemma attempt_good: "attempt E P s s' \<Longrightarrow> sound_rule P \<Longrightarrow> good_page E s \<Longrightarrow> good_page E s'"
  unfolding attempt_def by (auto intro: sent_good good_page_modest)

lemma handled_good:
  assumes "handled E P note fin ctx con body m s" "sound_rule P" "good_page E s"
    and "fin = id \<or> fin = log_event (ReloadAfter n)" "\<And>e s. \<exists>es. tr (con e s) = tr s @ es \<and> modest es"
  shows "good_page E (snd (run m s))"
proof -
  obtain r s1 where r: "run body (log_event PreventDefault s) = (r, s1)" by force
  show ?thesis
  proof (cases r)
    case (Inl e)
    with assms(1) r have t: "attempt E P s s1" "run m s = failure_shown E ctx e (con e s1)" by (simp_all add: handled_def)
    from t(1) assms(5) [of e s1] have "attempt E P s (con e s1)" by (auto elim: attempt_more)
    then have "attempt E P s (snd (run m s))"
      unfolding t(2) failure_shown_def by (auto intro: attempt_flash split: sum.split)
    then show ?thesis using assms(2,3) by (rule attempt_good)
  next
    case (Inr x)
    with assms(1) r have "succeeded E P note fin ctx s s1" "run m s = (Inr (), s1)" by (simp_all add: handled_def)
    then obtain res s2 x' where "sent E P s (Inr res) s2" "tx_code res = 0" "snd (run m s) = fin (flash_result x' False ctx s2)"
      by (auto simp: succeeded_def)
    then show ?thesis using assms(2-4) sent_good [OF sent_flash] by auto
  qed
qed

lemma attempt_same: "attempt E P s s1 \<Longrightarrow> tr s2 = tr s1 \<Longrightarrow> attempt E P s s2"
  by (rule attempt_more [where es = "[]"]) simp_all

lemma keeps_attempt [keeps_intros]:
  "keeps (attempt E P s) (ensureWalletConnected E)" "keeps (attempt E P s) (autofill i n)"
  "keeps (attempt E P s) (showFlash E m b ctx)"
proof -
  show "keeps (attempt E P s) (ensureWalletConnected E)"
    by (rule keepsI, rule wp_frame [OF wp_ensure_ready]) (auto simp: ready_def since_def intro: attempt_more)
  show "keeps (attempt E P s) (autofill i n)"
    by (induction n arbitrary: i)
       (auto intro!: keeps_intros attempt_log intro: attempt_same)
  show "keeps (attempt E P s) (showFlash E m b ctx)"
    by (rule keepsI) (auto simp: wp_simps attempt_flash split: sum.split)
qed

lemma attempt_refl [simp]: "attempt E P s s"
  by (rule attempt_none [where pre = "[]"]) simp_all

lemma connect_attempt: "attempt E P s (snd (run (onConnectClick E) s))"
proof -
  have "keeps (attempt E P s) (onConnectClick E)"
    unfolding onConnectClick_def flashT_def flashError_def by (auto intro!: keeps_intros)
  then show ?thesis by (rule keeps_snd) simp
qed

lemma init_trace: "tr (page_load E s) = tr s"
proof -
  have "wp (initWalletUI E) (\<lambda>_ s'. tr s' = tr s) (\<lambda>_ s'. tr s' = tr s) s"
    unfolding initWalletUI_def bindConnectButtons_def bindCreateSlotForms_def bindSlotStatusForms_def
      bindLeaseForms_def bindPublisherRegisterForms_def bind_listeners_def
    by (auto simp: wp_simps intro!: wp_frame [OF wp_updateWalletAddress])
  then show ?thesis unfolding page_load_def by (rule wp_snd)
qed

lemma handler_good: "good_page E s \<Longrightarrow> good_page E (snd (run (handler E l sub) s))"
proof (cases "(E, l, sub)" rule: handler.cases)
  case (1 E' n sub')
  then show "good_page E s \<Longrightarrow> ?thesis" using attempt_good [OF connect_attempt sound_rules(5)] by simp
qed (simp_all add: handled_good [OF handled_create sound_rules(1), of _ _ 1500] handled_good [OF handled_status sound_rules(2), of _ _ 1500]
    handled_good [OF handled_lease sound_rules(3), of _ _ 1500] handled_good [OF handled_register sound_rules(4)])

lemma page_run_good: "page_run E s0 s \<Longrightarrow> good_page E s0 \<Longrightarrow> good_page E s"
proof (induction rule: page_run.induct)
  case load
  then show ?case by (simp add: good_page_def init_trace)
next
  case (event s l sub)
  then show ?case by (simp add: dispatch_def handler_good)
qed

section \<open>Disabled deployments\<close>

lemma page_run_disabled:
  assumes "page_run E s0 s" "\<not> cfg_enabled (cfg E)" "listeners s0 = []" shows "s = s0"
  using assms
  by (induction rule: page_run.induct) (auto simp: page_load_def initWalletUI_def run_simps dispatch_def)

section \<open>Listeners\<close>

text \<open>After the page has loaded, every connect button and every form has exactly its one listener.\<close>

lemma page_load_listeners:
  assumes "cfg_enabled (cfg E)" "listeners s = []"
  shows "uiReady (page_load E s)"
    "listeners (page_load E s) = map OnConnect [0..<connect_buttons s] @ map OnSubmit
       (filter is_create (page_forms s) @ filter is_status (page_forms s) @ filter is_lease (page_forms s)
         @ filter is_register (page_forms s))"
proof -
  have "wp (initWalletUI E) (\<lambda>_ s'. uiReady s' \<and> listeners s' = map OnConnect [0..<connect_buttons s] @ map OnSubmit
       (filter is_create (page_forms s) @ filter is_status (page_forms s) @ filter is_lease (page_forms s)
         @ filter is_register (page_forms s))) (\<lambda>_ _. False) s"
    unfolding initWalletUI_def bindConnectButtons_def bindCreateSlotForms_def bindSlotStatusForms_def
      bindLeaseForms_def bindPublisherRegisterForms_def bind_listeners_def
    using assms by (auto simp: wp_simps intro!: wp_frame [OF wp_updateWalletAddress])
  then show "uiReady (page_load E s)"
    "listeners (page_load E s) = map OnConnect [0..<connect_buttons s] @ map OnSubmit
       (filter is_create (page_forms s) @ filter is_status (page_forms s) @ filter is_lease (page_forms s)
         @ filter is_register (page_forms s))"
    by (auto simp: page_load_def wp_def split: prod.splits sum.splits)
qed

end
