(* ===== verification/Tasks.thy ===== *)
theory Tasks
  imports Prelude "HOL-Library.Multiset"
begin

text \<open>
  Several routines on one state, interleaved at their awaits, as the event loop of the browser does it.

  \<^item> \<open>resume\<close> gives a suspended routine its next turn; \<open>loop_step\<close> starts a routine (its first turn is at once),
    gives one a turn, or lets something happen outside.
  \<^item> \<open>rg T m Q R s\<close> is the rely-guarantee reading of a routine: every atomic change it makes is a \<open>T\<close> step, and
    it reaches \<open>Q\<close> or \<open>R\<close> although at each await the state may move by \<open>T\<close>. Its equations (\<open>rg_simps\<close>) mirror
    those of \<open>wp\<close>.
  \<^item> the locale \<open>interference\<close> holds what needs \<open>T\<close> to be a preorder, \<open>event_loop\<close> the soundness theorem: if every
    routine that may start guarantees \<open>T\<close>, every reachable state is a \<open>T\<close> successor of the first.
  \<^item> every turn makes a routine smaller in a well-founded order (\<open>later\<close>), so a set of routines cannot take
    turns forever.
\<close>

named_theorems rg_simps "equations that evaluate rg on the combinators"

type_synonym ('s, 'e, 'a) pool = "('s, 'e, 'a) proc list"

section \<open>Turns\<close>

fun resume :: "('s, 'e, 'a) proc \<Rightarrow> 's \<Rightarrow> ('s, 'e, 'a) proc \<times> 's" where
  "resume (Pause k) s = advance k s"
| "resume m s = (m, s)"

fun suspended :: "('s, 'e, 'a) proc \<Rightarrow> bool" where
  "suspended (Act u k) = False"
| "suspended m = True"

fun finished :: "('s, 'e, 'a) proc \<Rightarrow> bool" where
  "finished (Finish r) = True"
| "finished m = False"

lemma advance_suspended: "advance m s = (m', s') \<Longrightarrow> suspended m'"
  by (induction m arbitrary: s) auto

lemma resume_suspended: "suspended m \<Longrightarrow> resume m s = (m', s') \<Longrightarrow> suspended m'"
  by (cases m) (auto dest: advance_suspended)

lemma resume_run: "suspended m \<Longrightarrow> resume m s = (m', s') \<Longrightarrow> run m' s' = run m s"
  by (cases m) (auto dest: advance_run)

inductive loop_step ::
  "('s \<Rightarrow> ('s, 'e, 'a) proc \<Rightarrow> bool) \<Rightarrow> ('s \<Rightarrow> 's \<Rightarrow> bool) \<Rightarrow> ('s, 'e, 'a) pool \<times> 's \<Rightarrow> ('s, 'e, 'a) pool \<times> 's \<Rightarrow> bool"
  for may outside where
  start: "may s m \<Longrightarrow> advance m s = (m', s') \<Longrightarrow> loop_step may outside (ms, s) (ms @ [m'], s')"
| turn: "i < length ms \<Longrightarrow> resume (ms ! i) s = (m', s') \<Longrightarrow> loop_step may outside (ms, s) (ms[i := m'], s')"
| other: "outside s s' \<Longrightarrow> loop_step may outside (ms, s) (ms, s')"


section \<open>Rely and guarantee\<close>

primrec rg :: "('s \<Rightarrow> 's \<Rightarrow> bool) \<Rightarrow> ('s, 'e, 'a) proc \<Rightarrow> ('a \<Rightarrow> 's \<Rightarrow> bool) \<Rightarrow> ('e \<Rightarrow> 's \<Rightarrow> bool) \<Rightarrow> 's \<Rightarrow> bool" where
  "rg T (Finish r) Q R s = (case r of Inl e \<Rightarrow> R e s | Inr x \<Rightarrow> Q x s)"
| "rg T (Act u k) Q R s = (T s (u s) \<and> rg T (k s) Q R (u s))"
| "rg T (Pause k) Q R s = (\<forall>s'. T s s' \<longrightarrow> rg T k Q R s')"

lemma rg_basic [rg_simps]:
  "rg T (ret x) Q R s = Q x s" "rg T (throw e) Q R s = R e s" "rg T (modify f) Q' R s = (T s (f s) \<and> Q' () (f s))"
  by (simp_all add: ret_def throw_def modify_def)

lemma rg_andThen [rg_simps]: "rg T (andThen m f) Q R s = rg T m (\<lambda>x. rg T (f x) Q R) R s"
  by (induction m arbitrary: s) (auto split: sum.split)

lemma rg_catch [rg_simps]: "rg T (catch m h) Q R s = rg T m Q (\<lambda>e. rg T (h e) Q R) s"
  by (induction m arbitrary: s) (auto split: sum.split)

lemma rg_await [rg_simps]:
  "rg T (await m) Q R s = rg T m (\<lambda>x s. \<forall>s'. T s s' \<longrightarrow> Q x s') (\<lambda>e s. \<forall>s'. T s s' \<longrightarrow> R e s') s"
  by (induction m arbitrary: s) (auto split: sum.split)

lemma rg_guardE [rg_simps]: "rg T (guardE c m) Q R s = (if c then Q () s else rg T m Q R s)"
  by (simp add: guardE_def rg_basic)

lemma rg_if [rg_simps]: "rg T (if c then m else n) Q R s = (if c then rg T m Q R s else rg T n Q R s)"
  by simp

lemma rg_case_option [rg_simps]:
  "rg T (case opt of None \<Rightarrow> m | Some x \<Rightarrow> n x) Q R s
     = (case opt of None \<Rightarrow> rg T m Q R s | Some x \<Rightarrow> rg T (n x) Q R s)"
  by (cases opt) simp_all

lemma rg_case_list [rg_simps]:
  "rg T (case xs of [] \<Rightarrow> m | y # ys \<Rightarrow> n y ys) Q R s
     = (case xs of [] \<Rightarrow> rg T m Q R s | y # ys \<Rightarrow> rg T (n y ys) Q R s)"
  by (cases xs) simp_all

lemma rg_frame:
  assumes "rg T m Q R s" "\<And>x s'. Q x s' \<Longrightarrow> Q' x s'" "\<And>e s'. R e s' \<Longrightarrow> R' e s'"
  shows "rg T m Q' R' s"
  using assms(1) by (induction m arbitrary: s) (auto split: sum.splits intro: assms(2,3))

text \<open>\<open>guarantees T m s\<close>: every change the routine makes is a \<open>T\<close> step.\<close>

abbreviation guarantees :: "('s \<Rightarrow> 's \<Rightarrow> bool) \<Rightarrow> ('s, 'e, 'a) proc \<Rightarrow> 's \<Rightarrow> bool" where
  "guarantees T m s \<equiv> rg T m (\<lambda>_ _. True) (\<lambda>_ _. True) s"

text \<open>\<open>safe T I m\<close>: it does so from every state with the invariant. The rules \<open>safe_intros\<close> follow the text of a routine.\<close>

definition safe :: "('s \<Rightarrow> 's \<Rightarrow> bool) \<Rightarrow> ('s \<Rightarrow> bool) \<Rightarrow> ('s, 'e, 'a) proc \<Rightarrow> bool" where
  "safe T I m \<longleftrightarrow> (\<forall>s. I s \<longrightarrow> guarantees T m s)"

named_theorems safe_intros "rules that show a routine safe"

lemma safe_act: "(\<And>s. I s \<Longrightarrow> T s (u s)) \<Longrightarrow> (\<And>s. finished (k s)) \<Longrightarrow> safe T I (Act u k)"
  unfolding safe_def
proof (intro allI impI)
  fix s assume u: "\<And>s. I s \<Longrightarrow> T s (u s)" and k: "\<And>s. finished (k s)" and "I s"
  from k [of s] have "guarantees T (k s) (u s)" by (cases "k s") (auto split: sum.split)
  with u [OF \<open>I s\<close>] show "guarantees T (Act u k) s" by simp
qed

lemma safe_basic [safe_intros]: "safe T I (ret x)" "safe T I (throw e)"
  by (simp_all add: safe_def rg_simps)

lemma safe_modify [safe_intros]: "(\<And>s. I s \<Longrightarrow> T s (f s)) \<Longrightarrow> safe T I (modify f)"
  by (simp add: safe_def rg_simps)

lemma safe_branches [safe_intros]:
  "safe T I h \<Longrightarrow> safe T I (guardE c h)"
  "safe T I m \<Longrightarrow> safe T I n \<Longrightarrow> safe T I (if c then m else n)"
  "safe T I m \<Longrightarrow> (\<And>x. safe T I (j x)) \<Longrightarrow> safe T I (case opt of None \<Rightarrow> m | Some x \<Rightarrow> j x)"
  "safe T I m \<Longrightarrow> (\<And>y ys. safe T I (k y ys)) \<Longrightarrow> safe T I (case xs of [] \<Rightarrow> m | y # ys \<Rightarrow> k y ys)"
  by (simp_all add: guardE_def safe_basic split: option.split list.split)

lemma safe_mono: "safe T I m \<Longrightarrow> (\<And>s. J s \<Longrightarrow> I s) \<Longrightarrow> safe T J m"
  by (simp add: safe_def)

lemma safe_exact: "safe T I m \<Longrightarrow> I s0 \<Longrightarrow> safe T (\<lambda>s. s = s0) m"
  by (erule safe_mono) simp

lemma safe_then:
  assumes "\<And>s. I s \<Longrightarrow> rg T m J (\<lambda>_ _. True) s" "\<And>x. safe T (J x) (f x)"
  shows "safe T I (andThen m f)"
  unfolding safe_def rg_andThen
proof (intro allI impI)
  fix s assume "I s"
  show "rg T m (\<lambda>x. guarantees T (f x)) (\<lambda>_ _. True) s"
    by (rule rg_frame [OF assms(1) [OF \<open>I s\<close>]]) (use assms(2) in \<open>auto simp: safe_def\<close>)
qed

locale interference =
  fixes T :: "'s \<Rightarrow> 's \<Rightarrow> bool" and I :: "'s \<Rightarrow> bool"
  assumes T_refl [simp]: "T s s"
    and T_trans: "T s s' \<Longrightarrow> T s' s'' \<Longrightarrow> T s s''"
    and T_inv: "I s \<Longrightarrow> T s s' \<Longrightarrow> I s'"
begin

lemma rg_gets [rg_simps]: "rg T (gets f) Q R s = Q (f s) s"
  by (simp add: gets_def rg_basic)

lemma rg_keep:
  assumes "rg T m Q R s" "P s" "\<And>s s'. P s \<Longrightarrow> T s s' \<Longrightarrow> P s'"
  shows "rg T m (\<lambda>x s'. Q x s' \<and> P s') (\<lambda>e s'. R e s' \<and> P s') s"
  using assms(1,2) by (induction m arbitrary: s) (auto split: sum.splits intro: assms(3))

lemma safe_rg:
  assumes "safe T I m" "I s" "P s" "\<And>s s'. P s \<Longrightarrow> T s s' \<Longrightarrow> P s'"
  shows "rg T m (\<lambda>_ s'. I s' \<and> P s') (\<lambda>_ s'. I s' \<and> P s') s"
proof -
  have "rg T m (\<lambda>_ s'. True \<and> I s' \<and> P s') (\<lambda>_ s'. True \<and> I s' \<and> P s') s"
    by (rule rg_keep) (use assms T_inv in \<open>auto simp: safe_def\<close>)
  then show ?thesis by simp
qed

lemma safe_andThen [safe_intros]:
  assumes "safe T I m" "\<And>x. safe T I (f x)" shows "safe T I (andThen m f)"
  unfolding safe_def rg_simps
proof (intro allI impI)
  fix s assume "I s"
  from safe_rg [OF assms(1) this, of "\<lambda>_. True"] show "rg T m (\<lambda>x. guarantees T (f x)) (\<lambda>_ _. True) s"
    by (rule rg_frame) (use assms(2) in \<open>auto simp: safe_def\<close>)
qed

lemma safe_catch [safe_intros]:
  assumes "safe T I m" "\<And>e. safe T I (h e)" shows "safe T I (catch m h)"
  unfolding safe_def rg_simps
proof (intro allI impI)
  fix s assume "I s"
  from safe_rg [OF assms(1) this, of "\<lambda>_. True"] show "rg T m (\<lambda>_ _. True) (\<lambda>e. guarantees T (h e)) s"
    by (rule rg_frame) (use assms(2) in \<open>auto simp: safe_def\<close>)
qed

lemma safe_await [safe_intros]: "safe T I m \<Longrightarrow> safe T I (await m)"
  by (simp add: safe_def rg_simps)

lemma safe_gets [safe_intros]: "safe T I (gets f)"
  by (simp add: safe_def rg_simps rg_gets)

lemma safe_gets_then: "(\<And>s. I s \<Longrightarrow> safe T I (f (g s))) \<Longrightarrow> safe T I (andThen (gets g) f)"
  by (simp add: safe_def rg_simps rg_gets)

text \<open>Up to its next await a routine runs from the very state in which it read.\<close>

lemma safe_gets_exact: "(\<And>s0. J s0 \<Longrightarrow> safe T (\<lambda>s. s = s0) (f (g s0))) \<Longrightarrow> safe T J (andThen (gets g) f)"
  by (simp add: safe_def rg_simps rg_gets)

lemma safe_await_ret: "safe T I (f x) \<Longrightarrow> safe T I (andThen (await (ret x)) f)"
  by (auto simp: safe_def rg_simps intro: T_inv)

lemma rg_advance:
  assumes "rg T m Q R s" "advance m s = (m', s')"
  shows "T s s' \<and> rg T m' Q R s'"
  using assms
proof (induction m arbitrary: s)
  case (Act u k)
  then have "T s (u s)" "T (u s) s' \<and> rg T m' Q R s'" by auto
  then show ?case by (blast intro: T_trans)
qed auto

lemma guarantees_stable: "suspended m \<Longrightarrow> guarantees T m s \<Longrightarrow> T s s' \<Longrightarrow> guarantees T m s'"
  by (cases m) (auto intro: T_trans split: sum.split)

lemma guarantees_resume:
  "guarantees T m s \<Longrightarrow> resume m s = (m', s') \<Longrightarrow> T s s' \<and> guarantees T m' s'"
proof (cases m)
  case (Pause k)
  assume "guarantees T m s" "resume m s = (m', s')"
  with Pause have "guarantees T k s" "advance k s = (m', s')" by auto
  then show ?thesis by (rule rg_advance)
qed auto

end

locale event_loop = interference T I for T :: "'s \<Rightarrow> 's \<Rightarrow> bool" and I +
  fixes may :: "'s \<Rightarrow> ('s, 'e, 'a) proc \<Rightarrow> bool"
    and outside :: "'s \<Rightarrow> 's \<Rightarrow> bool"
  assumes outside_T: "I s \<Longrightarrow> outside s s' \<Longrightarrow> T s s'"
    and may_safe: "I s \<Longrightarrow> may s m \<Longrightarrow> safe T I m"
begin

definition calm_pool :: "('s, 'e, 'a) pool \<times> 's \<Rightarrow> bool" where
  "calm_pool c \<longleftrightarrow> I (snd c) \<and> (\<forall>m \<in> set (fst c). suspended m \<and> guarantees T m (snd c))"

lemma calm_pool_step:
  assumes "loop_step may outside c c'" "calm_pool c"
  shows "T (snd c) (snd c') \<and> calm_pool c'"
  using assms
proof (induction rule: loop_step.induct)
  case (start s m m' s' ms)
  then have g: "T s s' \<and> guarantees T m' s'"
    using may_safe rg_advance unfolding calm_pool_def safe_def by (metis snd_conv)
  then show ?case using start advance_suspended [OF start(2)]
    by (auto simp: calm_pool_def intro: T_inv guarantees_stable)
next
  case (turn i ms s m' s')
  then have m: "suspended (ms ! i)" "guarantees T (ms ! i) s" by (auto simp: calm_pool_def)
  then have "T s s' \<and> guarantees T m' s' \<and> suspended m'"
    using guarantees_resume [OF m(2) turn(2)] resume_suspended [OF m(1) turn(2)] by simp
  then show ?case using turn
    by (auto simp: calm_pool_def intro: T_inv guarantees_stable dest!: subsetD [OF set_update_subset_insert])
next
  case (other s s' ms)
  then show ?case by (auto simp: calm_pool_def intro: T_inv outside_T guarantees_stable)
qed

theorem loop_reaches:
  assumes "(loop_step may outside)\<^sup>*\<^sup>* ([], s) (ms, s')" "I s"
  shows "T s s' \<and> I s'"
proof -
  have "T s (snd c) \<and> calm_pool c" if "(loop_step may outside)\<^sup>*\<^sup>* ([], s) c" for c
    using that
  proof (induction rule: rtranclp_induct)
    case base
    then show ?case using assms(2) by (simp add: calm_pool_def)
  next
    case (step c c')
    then show ?case using calm_pool_step [of c c'] by (auto intro: T_trans)
  qed
  from this [OF assms(1)] show ?thesis by (simp add: calm_pool_def)
qed

end

section \<open>Turns end\<close>

text \<open>\<open>part m m'\<close>: \<open>m'\<close> is an immediate continuation of \<open>m\<close>.\<close>

inductive part :: "('s, 'e, 'a) proc \<Rightarrow> ('s, 'e, 'a) proc \<Rightarrow> bool" where
  "part (k s) (Act u k)"
| "part k (Pause k)"

inductive_cases partE: "part m' (Finish r)" "part m' (Act u k)" "part m' (Pause k)"

lemma wfp_part: "wfP part"
proof (rule wfpUNIVI)
  fix P m
  assume step: "\<forall>m. (\<forall>m'. part m' m \<longrightarrow> P m') \<longrightarrow> P m"
  show "P m"
  proof (induction m)
    case (Finish r)
    then show ?case using step by (blast elim: partE)
  next
    case (Act u k)
    then show ?case using step by (blast elim: partE)
  next
    case (Pause k)
    then show ?case using step by (blast elim: partE)
  qed
qed

lemma advance_part: "advance m s = (m', s') \<Longrightarrow> part\<^sup>*\<^sup>* m' m"
proof (induction m arbitrary: s)
  case (Act u k)
  then have "part\<^sup>*\<^sup>* m' (k s)" by auto
  then show ?case by (blast intro: part.intros rtranclp.rtrancl_into_rtrancl)
qed auto

lemma resume_part: "suspended m \<Longrightarrow> \<not> finished m \<Longrightarrow> resume m s = (m', s') \<Longrightarrow> part\<^sup>+\<^sup>+ m' m"
  by (cases m) (auto intro: part.intros rtranclp_into_tranclp1 dest: advance_part)

definition later :: "(('s, 'e, 'a) pool \<times> ('s, 'e, 'a) pool) set" where
  "later = {(ms', ms). \<exists>i m'. i < length ms \<and> part\<^sup>+\<^sup>+ m' (ms ! i) \<and> ms' = ms[i := m']}"

lemma wf_later: "wf (later :: (('s, 'e, 'a) pool \<times> ('s, 'e, 'a) pool) set)"
proof -
  define r where "r = {(m', m :: ('s, 'e, 'a) proc). part m' m}\<^sup>+"
  have "wf r" unfolding r_def using wfp_part by (intro wf_trancl) (simp add: wfp_def)
  then have "wf (inv_image (mult r) mset)" by (intro wf_inv_image wf_mult)
  moreover have "later \<subseteq> inv_image (mult r) mset"
  proof clarify
    fix ms' ms :: "('s, 'e, 'a) pool"
    assume "(ms', ms) \<in> later"
    then obtain i m' where i: "i < length ms" "(m', ms ! i) \<in> r" "ms' = ms[i := m']"
      by (auto simp: later_def r_def tranclp_unfold)
    define M where "M = mset ms - {#ms ! i#}"
    have "mset ms = M + {#ms ! i#}" "mset ms' = M + {#m'#}" using i by (simp_all add: M_def mset_update)
    moreover have "(M + {#m'#}, M + {#ms ! i#}) \<in> mult r"
      by (rule one_step_implies_mult) (use i(2) in auto)
    ultimately show "(ms', ms) \<in> inv_image (mult r) mset" by simp
  qed
  ultimately show ?thesis by (rule wf_subset)
qed

end
