(* ===== verification/WalletWeave.thy ===== *)
theory WalletWeave
  imports WalletForms Tasks
begin

text \<open>
  The page under the browser's event loop: handlers start whenever the user acts, and are interleaved at
  their awaits with each other, with the loader of the bundle and with the outside.

  \<^item> \<open>weave E s0 ms s\<close>: after loading from \<open>s0\<close>, the page can be in state \<open>s\<close> with the handlers \<open>ms\<close> under way.
  \<^item> \<open>perform\<close> executes a given schedule, for concrete runs.
  \<^item> a page whose handlers run one after the other (\<open>page_run\<close>) is one of the interleavings.
\<close>

section \<open>Interleavings\<close>

type_synonym wpool = "(wallet, exn, unit) pool"

definition may_start :: "env \<Rightarrow> wallet \<Rightarrow> unit wproc \<Rightarrow> bool" where
  "may_start E s m \<longleftrightarrow> (\<exists>l sub. l \<in> set (listeners s) \<and> m = handler E l sub)"

lemma may_startI: "l \<in> set (listeners s) \<Longrightarrow> may_start E s (handler E l sub)"
  unfolding may_start_def by blast

definition happens :: "env \<Rightarrow> wallet \<Rightarrow> wallet \<Rightarrow> bool" where
  "happens E s s' \<longleftrightarrow> (\<exists>n. s' = log_event (Outside n) s) \<or> (\<exists>p. s' = settleDeps E p s)"

abbreviation page_step :: "env \<Rightarrow> wpool \<times> wallet \<Rightarrow> wpool \<times> wallet \<Rightarrow> bool" where
  "page_step E \<equiv> loop_step (may_start E) (happens E)"

definition weave :: "env \<Rightarrow> wallet \<Rightarrow> wpool \<Rightarrow> wallet \<Rightarrow> bool" where
  "weave E s0 ms s \<longleftrightarrow> (page_step E)\<^sup>*\<^sup>* ([], page_load E s0) (ms, s)"

lemma weave_load: "weave E s0 [] (page_load E s0)"
  by (simp add: weave_def)

lemma weave_steps: "weave E s0 ms s \<Longrightarrow> (page_step E)\<^sup>*\<^sup>* (ms, s) (ms', s') \<Longrightarrow> weave E s0 ms' s'"
  by (simp add: weave_def)

section \<open>Schedules\<close>

datatype action = Begin listener "jstring option" | Turn nat | Settle nat | Happen nat

fun perform :: "env \<Rightarrow> action \<Rightarrow> wpool \<times> wallet \<Rightarrow> wpool \<times> wallet" where
  "perform E (Begin l sub) (ms, s) =
     (if l \<in> set (listeners s) then (case advance (handler E l sub) s of (m, s') \<Rightarrow> (ms @ [m], s')) else (ms, s))"
| "perform E (Turn i) (ms, s) =
     (if i < length ms then (case resume (ms ! i) s of (m, s') \<Rightarrow> (ms[i := m], s')) else (ms, s))"
| "perform E (Settle p) (ms, s) = (ms, settleDeps E p s)"
| "perform E (Happen n) (ms, s) = (ms, log_event (Outside n) s)"

lemma perform_step: "(page_step E)\<^sup>*\<^sup>* c (perform E a c)"
proof (cases "(E, a, c)" rule: perform.cases)
  case (1 E' l sub ms s)
  then show ?thesis
    by (auto split: prod.split intro!: r_into_rtranclp loop_step.start may_startI)
next
  case (2 E' i ms s)
  then show ?thesis by (auto split: prod.split intro!: r_into_rtranclp loop_step.turn)
next
  case (3 E' p ms s)
  then show ?thesis by (auto simp: happens_def intro!: r_into_rtranclp loop_step.other)
next
  case (4 E' n ms s)
  then show ?thesis by (auto simp: happens_def intro!: r_into_rtranclp loop_step.other)
qed

lemma perform_weave:
  assumes "fold (perform E) as ([], page_load E s0) = (ms, s)" shows "weave E s0 ms s"
proof -
  have "(page_step E)\<^sup>*\<^sup>* c (fold (perform E) as c)" for c
  proof (induction as arbitrary: c)
    case (Cons a as)
    from perform_step [of E c a] Cons [of "perform E a c"] show ?case by (simp del: perform.simps)
  qed simp
  from this [of "([], page_load E s0)"] show ?thesis using assms by (simp add: weave_def)
qed

section \<open>One handler after the other\<close>

text \<open>A suspended handler given all its turns in a row ends as its undisturbed run does.\<close>

lemma turns_finish:
  assumes "i < length ms" "suspended (ms ! i)" "run (ms ! i) s = (r, s')"
  shows "(loop_step may outside)\<^sup>*\<^sup>* (ms, s) (ms[i := Finish r], s')"
  using assms
proof (induction ms arbitrary: s rule: wf_induct_rule [OF wf_later])
  case (1 ms)
  show ?case
  proof (cases "finished (ms ! i)")
    case True
    then have "ms ! i = Finish r \<and> s' = s" using 1(4) by (cases "ms ! i") simp_all
    then show ?thesis by (metis list_update_id rtranclp.rtrancl_refl)
  next
    case False
    obtain m1 s1 where m1: "resume (ms ! i) s = (m1, s1)" by force
    let ?ms = "ms[i := m1]"
    have "(?ms, ms) \<in> later" using resume_part [OF 1(3) False m1] 1(2) by (auto simp: later_def)
    moreover have "suspended m1" "run m1 s1 = (r, s')"
      using resume_suspended [OF 1(3) m1] resume_run [OF 1(3) m1] 1(4) by simp_all
    ultimately have "(loop_step may outside)\<^sup>*\<^sup>* (?ms, s1) (?ms[i := Finish r], s')"
      using 1(1) [of ?ms s1] 1(2) by simp
    moreover have "loop_step may outside (ms, s) (?ms, s1)" using 1(2) m1 by (rule loop_step.turn)
    ultimately show ?thesis by (simp add: converse_rtranclp_into_rtranclp)
  qed
qed

lemma dispatch_steps: "\<exists>ms'. (page_step E)\<^sup>*\<^sup>* (ms, s) (ms @ ms', dispatch E l sub s) \<and> list_all finished ms'"
proof (cases "l \<in> set (listeners s)")
  case True
  obtain m1 s1 where m1: "advance (handler E l sub) s = (m1, s1)" by force
  obtain r s' where r: "run (handler E l sub) s = (r, s')" by force
  have "page_step E (ms, s) (ms @ [m1], s1)"
    by (rule loop_step.start [OF _ m1]) (rule may_startI [OF True])
  moreover have "(page_step E)\<^sup>*\<^sup>* (ms @ [m1], s1) ((ms @ [m1])[length ms := Finish r], s')"
    by (rule turns_finish) (use advance_suspended [OF m1] advance_run [OF m1] r in auto)
  ultimately have "(page_step E)\<^sup>*\<^sup>* (ms, s) (ms @ [Finish r], s')"
    by (simp add: converse_rtranclp_into_rtranclp)
  then show ?thesis using True r by (intro exI [of _ "[Finish r]"]) (simp add: dispatch_def)
next
  case False
  then show ?thesis by (intro exI [of _ "[]"]) (simp add: dispatch_def)
qed

lemma page_run_weave: "page_run E s0 s \<Longrightarrow> \<exists>ms. weave E s0 ms s \<and> list_all finished ms"
proof (induction rule: page_run.induct)
  case load
  then show ?case by (intro exI [of _ "[]"]) (simp add: weave_load)
next
  case (event s l sub)
  then obtain ms where ms: "weave E s0 ms s" "list_all finished ms" by blast
  obtain ms' where "(page_step E)\<^sup>*\<^sup>* (ms, s) (ms @ ms', dispatch E l sub s)" "list_all finished ms'"
    using dispatch_steps [of E ms s l sub] by blast
  with ms show ?case by (intro exI [of _ "ms @ ms'"]) (auto intro: weave_steps)
qed

end
