(* ===== verification/WalletFacts.thy ===== *)
theory WalletFacts
  imports WalletSafety
begin

text \<open>
  Facts about single routines of the wallet: the endpoint and address helpers, the calendar behind the
  start date of a lease, the registry, and the caches of the bundle and the client.
\<close>

section \<open>Endpoints and addresses\<close>

lemma toHttpRPC_tcp: "trim r = lit ''tcp://'' @ x \<Longrightarrow> toHttpRPC r = lit ''http://'' @ x"
  by (simp add: toHttpRPC_def Let_def)

lemma toHttpRPC_other: "\<not> startsWith (trim r) (lit ''tcp://'') \<Longrightarrow> toHttpRPC r = trim r"
  by (simp add: toHttpRPC_def Let_def)

lemma toHttpRPC_idem: "toHttpRPC (toHttpRPC r) = toHttpRPC r"
proof (cases "startsWith (trim r) (lit ''tcp://'')")
  case True
  then obtain x where x: "trim r = lit ''tcp://'' @ x" by (auto simp: startsWith_iff)
  have "trimmed (lit ''tcp://'' @ x)" using trimmed_trim [of r] by (simp only: x)
  then have "trimmed (lit ''http://'' @ x)"
    by (cases "x = []") (auto simp: trimmed_def lit_def is_space_def)
  moreover have "\<not> startsWith (lit ''http://'' @ x) (lit ''tcp://'')" by (simp add: lit_def)
  ultimately show ?thesis by (simp add: toHttpRPC_tcp [OF x] toHttpRPC_other trimmed_fixpoint)
next
  case False
  then show ?thesis by (simp add: toHttpRPC_other)
qed

lemma toHttpRPC_not_tcp: "\<not> startsWith (toHttpRPC r) (lit ''tcp://'')"
proof (cases "startsWith (trim r) (lit ''tcp://'')")
  case True
  then obtain x where x: "trim r = lit ''tcp://'' @ x" by (auto simp: startsWith_iff)
  show ?thesis by (simp add: toHttpRPC_tcp [OF x] lit_def)
qed (simp add: toHttpRPC_other)

lemma isLikelyGridAddress_iff:
  "isLikelyGridAddress a \<longleftrightarrow>
     (\<exists>tail. trim a = lit ''congrid1'' @ tail \<and> list_all is_lower_alnum tail \<and> 12 \<le> length tail \<and> length tail \<le> 82)"
  by (auto simp: isLikelyGridAddress_def Let_def startsWith_iff)

lemma Long_small:
  assumes "0 \<le> n" "n + 1 < 2 ^ 53" shows "sint (Long_fromNumber (Fin (of_int n))) = n"
proof -
  have "num_plus_int (Fin (of_int n)) 1 = Fin (of_int (n + 1))"
    using round_double_small_nat [of "n + 1"] assms by (simp add: num_plus_int_def)
  moreover have "\<not> num_le (Fin (2 ^ 63)) (Fin (of_int (n + 1)))"
  proof -
    have "(of_int (n + 1) :: rat) < of_int (2 ^ 63)" using assms(2) by (simp only: of_int_less_iff) simp
    then show ?thesis by (simp add: num_le_def)
  qed
  moreover have "\<not> (of_int n :: rat) \<le> - (2 ^ 63)" "\<not> (of_int n :: rat) < 0" using assms(1) by simp_all
  ultimately have "Long_fromNumber (Fin (of_int n)) = of_int n" by (simp add: Long_fromNumber_def)
  moreover have "sint (of_int n :: long) = n"
    using assms sint_sbintrunc' [where 'a = 64, of n] by (simp add: signed_take_bit_int_eq_self)
  ultimately show ?thesis by simp
qed

section \<open>The caches\<close>

lemma ensure_connected:
  "cfg_enabled (cfg E) \<Longrightarrow> wallet_connected s \<Longrightarrow> run (ensureWalletConnected E) s = (Inr (), s)"
  by (simp add: ensureWalletConnected_def wallet_connected_def run_simps)

lemma registry_at_iff: "registry_at ps p = Some r \<longleftrightarrow> promise_at ps p = Some (Settled (Inr r))"
  by (simp add: registry_at_def split: option.split deps_promise.split sum.split)

lemma load_cached:
  assumes "walletDeps s = Some r" shows "run (loadWalletDeps E) s = (Inr r, s)"
proof -
  from assms obtain p where p: "walletDepsPromise s = Some p" "promise_at (depsPromises s) p = Some (Settled (Inr r))"
    by (auto simp: walletDeps_def registry_at_iff bind_eq_Some_conv)
  then have "settleDeps E p s = s" by (intro settleDeps_other) simp
  with p show ?thesis by (simp add: loadWalletDeps_def awaitDeps_def run_simps liftE_def)
qed

lemma load_again: "run (loadWalletDeps E) s = (Inr r, s') \<Longrightarrow> run (loadWalletDeps E) s' = (Inr r, s')"
  using wp_run [OF wp_loadWalletDeps] by (blast intro: load_cached dest: loaded_def [THEN iffD1])

text \<open>\<open>live_promise s\<close>: the cached promise exists and did not fail.\<close>

definition live_promise :: "wallet \<Rightarrow> bool" where
  "live_promise s \<longleftrightarrow>
     (\<forall>p. walletDepsPromise s = Some p \<longrightarrow>
        (\<exists>d. promise_at (depsPromises s) p = Some d \<and> (\<forall>e. d \<noteq> Settled (Inl e))))"

lemma load_failed:
  assumes "live_promise s"
  shows "wp (loadWalletDeps E) (\<lambda>_ _. True) (\<lambda>_ s'. kept s s' \<and> walletDepsPromise s' = None) s"
proof (cases "walletDepsPromise s")
  case None
  then have n: "walletDeps s = None" by (simp add: walletDeps_def)
  show ?thesis unfolding loadWalletDeps_def
    by (auto simp: wp_simps None started_promise intro!: wp_frame [OF wp_awaitDeps [OF _ _ kept_started n]] split: sum.split)
next
  case (Some p)
  with assms obtain d where d: "promise_at (depsPromises s) p = Some d" "\<forall>e. d \<noteq> Settled (Inl e)"
    by (auto simp: live_promise_def)
  show ?thesis
  proof (cases d)
    case (Loading r)
    with d Some have n: "walletDeps s = None" by (simp add: walletDeps_def registry_at_def)
    from d Loading have r: "promise_at (depsPromises s) p = Some (Loading r)" by simp
    show ?thesis unfolding loadWalletDeps_def
      by (auto simp: wp_simps Some intro!: wp_frame [OF wp_awaitDeps [OF Some r kept_refl n]])
  next
    case (Settled r)
    with d obtain reg where "walletDeps s = Some reg"
      using Some by (cases r) (auto simp: walletDeps_def registry_at_def)
    from load_cached [OF this, of E] show ?thesis by (simp add: wp_def)
  qed
qed

text \<open>With nothing cached, loading starts with a new import.\<close>

lemma load_imports:
  assumes "walletDepsPromise s = None"
  shows "\<exists>es. tr (snd (run (loadWalletDeps E) s))
    = tr s @ ImportBundle walletBundleURL (e_import E (tr s) walletBundleURL) # es"
proof -
  have "wp (loadWalletDeps E) (\<lambda>_ s'. \<exists>es. tr s' = tr s @ ImportBundle walletBundleURL (e_import E (tr s) walletBundleURL) # es)
      (\<lambda>_ s'. \<exists>es. tr s' = tr s @ ImportBundle walletBundleURL (e_import E (tr s) walletBundleURL) # es) s"
  proof -
    have a: "wp (awaitDeps E p) (\<lambda>_ s'. \<exists>es. tr s' = tr s1 @ es) (\<lambda>_ s'. \<exists>es. tr s' = tr s1 @ es) s1" for p s1
      using settleDeps_frame [of E p s1]
      by (cases "(E, promise_at (depsPromises (settleDeps E p s1)) p)" rule: settledValue.cases)
         (auto simp: awaitDeps_def wp_simps split: sum.split)
    show ?thesis unfolding loadWalletDeps_def using assms
      by (auto simp: wp_simps started_promise intro!: wp_frame [OF a] split: sum.split)
  qed
  then show ?thesis by (rule wp_snd)
qed

lemma client_again:
  assumes "run (getClient E) s = (Inr c, s')" "wallet_connected s'" "cfg_enabled (cfg E)"
  shows "run (getClient E) s' = (Inr c, s')"
proof -
  have "st_client s' = Some c" using wp_run [OF wp_getClient assms(1)] by (simp add: client_step_def)
  then show ?thesis
    using ensure_connected [OF assms(3,2)] by (simp add: getClient_def run_simps)
qed

section \<open>The calendar\<close>

text \<open>The lengths of the months, January first.\<close>

definition days_in_month :: "int \<Rightarrow> int \<Rightarrow> int" where
  "days_in_month y m =
     (if m = 1 then (if leap_year y then 29 else 28) else if m \<in> {3, 5, 8, 10} then 30 else 31)"

lemma div_step: "0 < k \<Longrightarrow> (n + 1) div k = n div k + (if (n + 1) mod k = 0 then 1 else 0)" for n k :: int
proof -
  assume k: "0 < k"
  show ?thesis
  proof (cases "(n + 1) mod k = 0")
    case True
    then obtain q where q: "n + 1 = k * q" by auto
    then have n: "n = k * (q - 1) + (k - 1)" by (simp add: right_diff_distrib)
    have "(k * (q - 1) + (k - 1)) div k = q - 1" using k by simp
    then have "n div k = q - 1" by (simp only: n)
    with True q k show ?thesis by simp
  next
    case False
    have "n mod k + 1 \<noteq> k"
    proof
      assume "n mod k + 1 = k"
      then have "(n mod k + 1) mod k = 0" by simp
      then have "(n + 1) mod k = 0" by (simp add: mod_add_left_eq)
      with False show False by simp
    qed
    moreover have "n mod k < k" using k by simp
    ultimately have "n mod k + 1 < k" by linarith
    moreover have "n + 1 = k * (n div k) + (n mod k + 1)" by simp
    ultimately have "(n + 1) div k = n div k" using k by (intro int_div_pos_eq) simp_all
    then show ?thesis using False by simp
  qed
qed

lemma day_from_year_step: "day_from_year (y + 1) = day_from_year y + 365 + (if leap_year y then 1 else 0)"
proof -
  have a: "(y - 1968) div 4 = (y - 1969) div 4 + (if y mod 4 = 0 then 1 else 0)"
    using div_step [of 4 "y - 1969"] mod_diff_right_eq [of y 1968 4] by simp
  have b: "(y - 1900) div 100 = (y - 1901) div 100 + (if y mod 100 = 0 then 1 else 0)"
    using div_step [of 100 "y - 1901"] mod_diff_right_eq [of y 1900 100] by simp
  have c: "(y - 1600) div 400 = (y - 1601) div 400 + (if y mod 400 = 0 then 1 else 0)"
    using div_step [of 400 "y - 1601"] mod_diff_right_eq [of y 1600 400] by simp
  have m: "y mod 400 = 0 \<Longrightarrow> y mod 100 = 0" "y mod 100 = 0 \<Longrightarrow> y mod 4 = 0"
    by (presburger, presburger)
  define i4 i100 i400 :: int where "i4 = (if y mod 4 = 0 then 1 else 0)" and "i100 = (if y mod 100 = 0 then 1 else 0)"
    and "i400 = (if y mod 400 = 0 then 1 else 0)"
  define p q r where "p = (y - 1969) div 4" and "q = (y - 1901) div 100" and "r = (y - 1601) div 400"
  have "(if leap_year y then 1 else 0) = i4 - i100 + i400"
    using m by (auto simp: leap_year_def i4_def i100_def i400_def)
  moreover have "day_from_year (y + 1) = 365 * (y - 1970) + 365 + (p + i4) - (q + i100) + (r + i400)"
  proof -
    have "y + 1 - 1970 = (y - 1970) + 1" "y + 1 - 1969 = y - 1968" "y + 1 - 1901 = y - 1900" "y + 1 - 1601 = y - 1600"
      by simp_all
    then show ?thesis
      by (simp only: day_from_year_def a b c p_def q_def r_def i4_def i100_def i400_def distrib_left mult_1_right)
  qed
  moreover have "day_from_year y = 365 * (y - 1970) + p - q + r"
    by (simp add: day_from_year_def p_def q_def r_def)
  ultimately show ?thesis by linarith
qed

lemma month_cases: "0 \<le> m \<Longrightarrow> m < 12 \<Longrightarrow> m \<in> {0, 1, 2, 3, 4, 5, 6, 7, 8, 9, 10, 11 :: int}"
  by (simp, presburger)

lemma make_day_month_step:
  assumes "0 \<le> m" "m < 12"
  shows "make_day y (m + 1) 1 = make_day y m 1 + days_in_month y m"
proof (cases "m = 11")
  case True
  have "day_from_year (y + 1) = day_from_year y + 365 + (if leap_year y then 1 else 0)" by (rule day_from_year_step)
  with True show ?thesis by (simp add: make_day_def month_start_def days_in_month_def Let_def)
next
  case False
  then show ?thesis using month_cases [OF assms]
    by (auto simp: make_day_def month_start_def days_in_month_def Let_def)
qed

lemma make_day_epoch: "make_day 1970 0 1 = 0"
  by (simp add: make_day_def month_start_def day_from_year_def Let_def)

text \<open>A day past the end of a month is a day of the next month.\<close>

lemma make_day_add: "make_day y m (d + k) = make_day y m d + k"
  by (simp add: make_day_def Let_def)

lemma nonexistent_day:
  assumes "0 \<le> m" "m < 12" shows "make_day y m d = make_day y (m + 1) (d - days_in_month y m)"
proof -
  have "make_day y m d = make_day y m 1 + (d - 1)" "make_day y (m + 1) (d - days_in_month y m) = make_day y (m + 1) 1 + (d - days_in_month y m - 1)"
    using make_day_add [of y m 1 "d - 1"] make_day_add [of y "m + 1" 1 "d - days_in_month y m - 1"] by simp_all
  with make_day_month_step [OF assms, of y] show ?thesis by simp
qed

section \<open>A date written year-month-day\<close>

lemma splitOn_none: "d \<notin> set p \<Longrightarrow> splitOn d p = [p]"
  by (induction p) auto

lemma splitOn_first: "d \<notin> set p \<Longrightarrow> splitOn d (p @ d # r) = p # splitOn d r"
  by (induction p) auto

lemma digits_no_dash: "list_all is_digit p \<Longrightarrow> 45 \<notin> set p"
  by (auto simp: list_all_iff is_digit_def)

definition numeral_of :: "jstring \<Rightarrow> int \<Rightarrow> bool" where
  "numeral_of p n \<longleftrightarrow> p \<noteq> [] \<and> list_all is_digit p \<and> dec_val p = n"

lemma toNumber_numeral: "numeral_of p n \<Longrightarrow> 0 \<le> n \<Longrightarrow> n < 2 ^ 53 \<Longrightarrow> toNumber p = Fin (of_int n)"
  by (auto simp: numeral_of_def toNumber_digits round_double_small_nat)

lemma make_day_bounds:
  assumes "100 \<le> y" "y \<le> 9999" "0 \<le> m" "m < 12" "1 \<le> d" "d \<le> 31"
  shows "\<bar>make_day y m d * 86400000\<bar> \<le> 8640000000000000"
proof -
  define p q r where "p = (y - 1969) div 4" and "q = (y - 1901) div 100" and "r = (y - 1601) div 400"
  have p: "-2000 \<le> p" "p \<le> 2100" using assms(1,2) unfolding p_def by linarith+
  have q: "-2000 \<le> q" "q \<le> 2100" using assms(1,2) unfolding q_def by linarith+
  have r: "-2000 \<le> r" "r \<le> 2100" using assms(1,2) unfolding r_def by linarith+
  have ms: "0 \<le> month_start y m" "month_start y m \<le> 335"
    using month_cases [OF assms(3,4)] by (auto simp: month_start_def)
  have "make_day y m d = 365 * (y - 1970) + p - q + r + month_start y m + d - 1"
    using assms(3,4) by (simp add: make_day_def Let_def day_from_year_def p_def q_def r_def)
  then have "- 100000000 \<le> make_day y m d \<and> make_day y m d \<le> 100000000"
    using p q r ms assms(1,2,5,6) by simp
  then show ?thesis by linarith
qed

lemma utc_date_ymd:
  assumes "numeral_of py y" "numeral_of pm m" "numeral_of pd d"
    and "100 \<le> y" "y \<le> 9999" "1 \<le> m" "m \<le> 12" "1 \<le> d" "d \<le> 31"
  shows "utc_date (py @ 45 # pm @ 45 # pd) = Some (make_day y (m - 1) d * 86400000)"
proof -
  have s: "splitOn 45 (py @ 45 # pm @ 45 # pd) = [py, pm, pd]"
    using assms(1-3) digits_no_dash by (simp add: numeral_of_def splitOn_first splitOn_none)
  have n: "toNumber py = Fin (of_int y)" "toNumber pm = Fin (of_int m)" "toNumber pd = Fin (of_int d)"
    using assms by (auto intro!: toNumber_numeral)
  have "num_plus_int (Fin (of_int m)) (- 1) = Fin (of_int (m - 1))"
    using round_double_small_nat [of "m - 1"] assms(6,7) by (simp add: num_plus_int_def)
  moreover have "toIntegerOrInfinity (of_int x) = x" for x by (simp add: toIntegerOrInfinity_def flip: of_int_minus)
  moreover have "\<bar>make_day y (m - 1) d * 86400000\<bar> \<le> 8640000000000000"
    using assms by (intro make_day_bounds) simp_all
  ultimately show ?thesis using assms(4) unfolding utc_date_def s n
    by (simp add: n dateUTC_def Let_def del: of_int_diff)
qed

lemma start_ok_not_past: "start_ok now value v \<Longrightarrow> value \<noteq> [] \<Longrightarrow> now div 1000 \<le> v"
  by (auto simp: start_ok_def zdiv_mono1)

lemma parseStartDate_run:
  assumes "utc_date value = Some startMs"
  shows "run (parseStartDate E value) s =
    (if startMs < e_now E (tr s) - 86400000 then run (throwT E (lit ''Start date must be today or later.'') []) s
     else (Inr ((if startMs < e_now E (tr s) then e_now E (tr s) + 300000 else startMs) div 1000), s))"
proof -
  have "value \<noteq> []" using assms by (auto simp: utc_date_def)
  then show ?thesis using assms
    by (auto simp: utc_date_def parseStartDate_def run_simps split: list.splits option.splits)
qed

end
