(* ===== verification/WalletRely.thy ===== *)
theory WalletRely
  imports WalletPage WalletWeave WalletFacts
begin

text \<open>
  Rely and guarantee for the page: \<open>page_inv\<close> is the invariant of all interleavings, \<open>steps_to\<close> what any turn
  of any handler, the loader or the outside may do to the state.

  \<^item> \<open>promises_ok\<close>: at most one load is under way, the cached promise did not fail, and the bundle was imported
    successfully exactly when such a promise is cached.
  \<^item> \<open>lawful_trace\<close>: every broadcast carries one message that a form asked for (\<open>requested\<close>).
  \<^item> \<open>one_account E a\<close>: the extension only ever reports the account \<open>a\<close>; then every message is sent from the
    account it names.
  \<^item> \<open>layout\<close>: the shape of the page, which no handler changes.
\<close>

section \<open>The invariant\<close>

fun bundle_ok :: "event \<Rightarrow> bool" where
  "bundle_ok (ImportBundle _ (Inr b)) = has_Long b"
| "bundle_ok _ = False"

fun promise_ok :: "deps_promise \<Rightarrow> bool" where
  "promise_ok (Loading (Inr b)) = has_Long b"
| "promise_ok (Settled (Inr r)) = True"
| "promise_ok _ = False"

definition bundle_cached :: "wallet \<Rightarrow> bool" where
  "bundle_cached s \<longleftrightarrow> (\<exists>p d. walletDepsPromise s = Some p \<and> promise_at (depsPromises s) p = Some d \<and> promise_ok d)"

definition promises_ok :: "wallet \<Rightarrow> bool" where
  "promises_ok s \<longleftrightarrow>
     (\<forall>p r. promise_at (depsPromises s) p = Some (Loading r) \<longrightarrow> walletDepsPromise s = Some p)
     \<and> live_promise s
     \<and> length (filter bundle_ok (tr s)) = (if bundle_cached s then 1 else 0)"

definition one_account :: "env \<Rightarrow> jstring \<Rightarrow> bool" where
  "one_account E a \<longleftrightarrow> (\<forall>h sg x xs. e_getAccounts E h sg = Inr (Some (x # xs)) \<longrightarrow> x = a)"

definition right :: "env \<Rightarrow> jstring \<Rightarrow> bool" where
  "right E b \<longleftrightarrow> (\<forall>a. one_account E a \<longrightarrow> b = a)"

text \<open>
  \<open>requested E es b m g\<close>: a form that was read at a moment \<open>h\<close> of the history \<open>es\<close> asked for \<open>m\<close> in the name of \<open>b\<close>. A
  registration form named a wallet \<open>w\<close>, and the call right after the form was read is a badge verification of the
  domain for \<open>w\<close> that succeeded. The owner \<open>b\<close> is read again after the answer: it is \<open>w\<close> when the extension reports
  one account only, and need not be otherwise (\<open>register_race\<close>).
\<close>

definition requested :: "env \<Rightarrow> trace \<Rightarrow> jstring \<Rightarrow> encode_object \<Rightarrow> js_number \<Rightarrow> bool" where
  "requested E es b m g \<longleftrightarrow>
     (\<exists>h i. prefix h es \<and> create_content E h (CreateForm i) b m g)
     \<or> (\<exists>h i sub. prefix h es \<and> status_content E h (StatusForm i) sub b m g)
     \<or> (\<exists>h i. prefix h es \<and> lease_content E h (LeaseForm i) b m g)
     \<or> (\<exists>h i w domain ev r. prefix (h @ [ev]) es \<and> register_content E h (RegisterForm i) b w domain m g
          \<and> asked ev domain w r \<and> verified r \<and> right E w)"

lemma requested_sender: "requested E es b m g \<Longrightarrow> msg_sender m = b"
  by (auto simp: requested_def dest: contents_named)

definition lawful :: "env \<Rightarrow> trace \<Rightarrow> event \<Rightarrow> bool" where
  "lawful E es ev \<longleftrightarrow>
     (\<exists>c a m g fee r b. ev = SignAndBroadcast c a [m] fee [] r \<and> fee_for E g fee \<and> requested E es b m g
        \<and> (\<forall>x. one_account E x \<longrightarrow> a = x \<and> b = x))"

definition lawful_trace :: "env \<Rightarrow> trace \<Rightarrow> bool" where
  "lawful_trace E es \<longleftrightarrow> (\<forall>xs ev ys. es = xs @ ev # ys \<and> is_broadcast ev \<longrightarrow> lawful E xs ev)"

definition layout where
  "layout s = (length (flashes s), doc_flash s, form_flash s, length (address_els s), length (autofill_inputs s),
     connect_buttons s, page_forms s, listeners s, uiReady s)"

definition page_inv :: "env \<Rightarrow> wallet \<Rightarrow> bool" where
  "page_inv E s \<longleftrightarrow> promises_ok s \<and> lawful_trace E (tr s) \<and> (st_address s = [] \<or> right E (st_address s))"

definition grows :: "env \<Rightarrow> wallet \<Rightarrow> wallet \<Rightarrow> bool" where
  "grows E s s' \<longleftrightarrow> (\<exists>es. tr s' = tr s @ es) \<and> layout s' = layout s \<and> (right E (st_address s) \<longrightarrow> right E (st_address s'))"

definition steps_to :: "env \<Rightarrow> wallet \<Rightarrow> wallet \<Rightarrow> bool" where
  "steps_to E s s' \<longleftrightarrow> (page_inv E s \<longrightarrow> page_inv E s' \<and> grows E s s')"

lemma grows_trans: "grows E s s' \<Longrightarrow> grows E s' s'' \<Longrightarrow> grows E s s''"
  by (auto simp: grows_def)

interpretation page: interference "steps_to E" "page_inv E"
proof
  fix s s' s''
  show "steps_to E s s" by (simp add: steps_to_def grows_def)
  show "steps_to E s s''" if "steps_to E s s'" "steps_to E s' s''"
    using that by (auto simp: steps_to_def intro: grows_trans)
  show "page_inv E s'" if "page_inv E s" "steps_to E s s'"
    using that by (simp add: steps_to_def)
qed

section \<open>Single changes\<close>

lemma lawful_trace_snoc:
  "lawful_trace E (es @ [ev]) \<longleftrightarrow> lawful_trace E es \<and> (is_broadcast ev \<longrightarrow> lawful E es ev)"
proof
  assume l: "lawful_trace E (es @ [ev])"
  have "lawful E xs e" if "es = xs @ e # ys" "is_broadcast e" for xs e ys
    using l that unfolding lawful_trace_def by (metis append.assoc append_Cons)
  then show "lawful_trace E es \<and> (is_broadcast ev \<longrightarrow> lawful E es ev)"
    using l unfolding lawful_trace_def by auto
next
  assume l: "lawful_trace E es \<and> (is_broadcast ev \<longrightarrow> lawful E es ev)"
  show "lawful_trace E (es @ [ev])" unfolding lawful_trace_def
  proof (intro allI impI, elim conjE)
    fix xs e ys assume e: "es @ [ev] = xs @ e # ys" "is_broadcast e"
    then show "lawful E xs e" using l
      by (cases ys rule: rev_cases) (auto simp: lawful_trace_def)
  qed
qed

lemma promises_log [simp]: "\<not> bundle_ok ev \<Longrightarrow> promises_ok (log_event ev s) = promises_ok s"
  by (simp add: promises_ok_def live_promise_def bundle_cached_def)

lemma layout_log [simp]: "layout (log_event ev s) = layout s"
  by (simp add: layout_def)

lemma step_log:
  "\<not> bundle_ok ev \<Longrightarrow> (is_broadcast ev \<Longrightarrow> lawful E (tr s) ev) \<Longrightarrow> steps_to E s (log_event ev s)"
  by (auto simp: steps_to_def page_inv_def grows_def lawful_trace_snoc)

text \<open>Changes that leave the promises, the account and the shape of the page alone.\<close>

lemma step_page:
  assumes "tr s' = tr s" "walletDepsPromise s' = walletDepsPromise s" "depsPromises s' = depsPromises s"
    "st_address s' = st_address s" "layout s' = layout s"
  shows "steps_to E s s'"
  using assms by (simp add: steps_to_def page_inv_def grows_def promises_ok_def live_promise_def bundle_cached_def)

lemma step_address:
  "(page_inv E s \<Longrightarrow> right E a) \<Longrightarrow> steps_to E s (s\<lparr>st_address := a\<rparr>)"
  by (auto simp: steps_to_def page_inv_def grows_def promises_ok_def live_promise_def bundle_cached_def layout_def)

section \<open>Loading the bundle\<close>

lemma promise_at_append:
  "promise_at (ps @ [d]) p = (if p = length ps then Some d else promise_at ps p)"
  by (auto simp: promise_at_def nth_append)

lemma promise_at_other: "promise_at (ps[p := d]) q = (if q = p \<and> p < length ps then Some d else promise_at ps q)"
  by (auto simp: promise_at_def)

lemma step_started:
  assumes "walletDepsPromise s = None" shows "steps_to E s (deps_started E s)"
proof -
  let ?r = "e_import E (tr s) walletBundleURL"
  have "promises_ok (deps_started E s)" if "promises_ok s"
  proof -
    from that assms have none: "promise_at (depsPromises s) p \<noteq> Some (Loading r)" for p r
      by (auto simp: promises_ok_def)
    have "length (filter bundle_ok (tr s)) = 0"
      using that assms by (simp add: promises_ok_def bundle_cached_def)
    moreover have "bundle_ok (ImportBundle walletBundleURL ?r) = promise_ok (Loading ?r)" by (cases ?r) simp_all
    ultimately show ?thesis using none
      by (auto simp: promises_ok_def live_promise_def bundle_cached_def deps_started_def Let_def promise_at_append)
  qed
  moreover have "layout (deps_started E s) = layout s" "st_address (deps_started E s) = st_address s"
    by (simp_all add: deps_started_def Let_def layout_def)
  ultimately show ?thesis
    by (auto simp: steps_to_def page_inv_def grows_def started_promise lawful_trace_snoc)
qed

text \<open>The promise of the running load settles well, or fails and is dropped.\<close>

lemma promises_settled:
  assumes "promises_ok s" "promise_at (depsPromises s) p = Some (Loading (Inr b))" "has_Long b"
    and "walletDepsPromise t = walletDepsPromise s" "depsPromises t = (depsPromises s)[p := Settled (Inr reg)]"
    and "filter bundle_ok (tr t) = filter bundle_ok (tr s)"
  shows "promises_ok t"
proof -
  have cur: "walletDepsPromise s = Some p" using assms(1,2) by (auto simp: promises_ok_def)
  have p: "p < length (depsPromises s)" using assms(2) by (auto simp: promise_at_def split: if_splits)
  have "bundle_cached s" "bundle_cached t"
    using assms cur p by (auto simp: bundle_cached_def promise_at_other)
  moreover have "live_promise t" using assms(4,5) cur p by (simp add: live_promise_def promise_at_other)
  moreover have "walletDepsPromise t = Some q" if "promise_at (depsPromises t) q = Some (Loading r)" for q r
    using that assms(1,4,5) p by (auto simp: promises_ok_def promise_at_other split: if_splits)
  ultimately show ?thesis using assms(1,6) by (simp add: promises_ok_def)
qed

lemma promises_dropped:
  assumes "promises_ok s" "promise_at (depsPromises s) p = Some (Loading r)" "\<forall>b. r = Inr b \<longrightarrow> \<not> has_Long b"
  shows "promises_ok (s\<lparr>walletDepsPromise := None, depsPromises := (depsPromises s)[p := Settled (Inl e)]\<rparr>)" (is "promises_ok ?t")
proof -
  have cur: "walletDepsPromise s = Some p" using assms(1,2) by (auto simp: promises_ok_def)
  have p: "p < length (depsPromises s)" using assms(2) by (auto simp: promise_at_def split: if_splits)
  have "\<not> promise_ok (Loading r)" using assms(3) by (cases r) auto
  then have "\<not> bundle_cached s" using cur assms(2) by (simp add: bundle_cached_def)
  moreover have "promise_at (depsPromises ?t) q \<noteq> Some (Loading r')" for q r'
    using assms(1) cur p by (auto simp: promises_ok_def promise_at_other)
  ultimately show ?thesis using assms(1) by (simp add: promises_ok_def live_promise_def bundle_cached_def)
qed

lemma step_settle: "steps_to E s (settleDeps E p s)"
proof (cases "\<exists>r. promise_at (depsPromises s) p = Some (Loading r)")
  case True
  then obtain r where r: "promise_at (depsPromises s) p = Some (Loading r)" ..
  then obtain res s' where res: "load_result E r s res s'"
    and t: "settleDeps E p s = s'\<lparr>depsPromises := (depsPromises s)[p := Settled res]\<rparr>" by (rule settleDeps_result)
  have "promises_ok (settleDeps E p s)" if "promises_ok s"
    using res unfolding load_result_def
  proof (elim disjE exE conjE)
    fix b assume b: "r = Inr b" "has_Long b" and eqs: "res = Inr (walletRegistry (default_types b))"
      "s' = (if util_Long_same b then s else log_event ConfigureLong s)"
    have "promise_at (depsPromises s) p = Some (Loading (Inr b))" using r b(1) by simp
    from promises_settled [OF that this b(2)] show ?thesis unfolding t eqs by simp
  next
    fix e assume "\<forall>b. r = Inr b \<longrightarrow> \<not> has_Long b" "res = Inl e" "s' = s\<lparr>walletDepsPromise := None\<rparr>"
    with promises_dropped [OF that r] show ?thesis unfolding t by simp
  qed
  moreover obtain d ps es where f: "settleDeps E p s = s\<lparr>walletDepsPromise := d, depsPromises := ps, tr := tr s @ es\<rparr>"
      "es = [] \<or> es = [ConfigureLong]"
    using settleDeps_frame [of E p s] by blast
  have "layout (settleDeps E p s) = layout s" "st_address (settleDeps E p s) = st_address s"
    "tr (settleDeps E p s) = tr s @ es" unfolding f(1) by (simp_all add: layout_def)
  moreover have "lawful_trace E (tr s) \<longrightarrow> lawful_trace E (tr s @ es)" using f(2) by (auto simp: lawful_trace_snoc)
  ultimately show ?thesis by (simp add: steps_to_def page_inv_def grows_def)
next
  case False
  then have "settleDeps E p s = s" by (intro settleDeps_other) auto
  then show ?thesis by simp
qed

section \<open>Safe routines\<close>

abbreviation safe_in :: "env \<Rightarrow> (wallet, exn, 'a) proc \<Rightarrow> bool" where
  "safe_in E m \<equiv> safe (steps_to E) (page_inv E) m"

lemma safe_call [safe_intros]:
  "(\<And>r. \<not> bundle_ok (ev r) \<and> \<not> is_broadcast (ev r)) \<Longrightarrow> safe (steps_to E) I (call r ev)"
  unfolding call_def by (rule safe_act) (auto intro: step_log)

lemma safe_emit [safe_intros]: "\<not> bundle_ok ev \<Longrightarrow> \<not> is_broadcast ev \<Longrightarrow> safe (steps_to E) I (emit ev)"
  unfolding emit_def by (rule safe_modify) (rule step_log, simp_all)

lemma rg_call [rg_simps]:
  "rg T (call r ev) Q R s = (T s (log_event (ev (r (tr s))) s) \<and>
     (case r (tr s) of Inl e \<Rightarrow> R e (log_event (ev (Inl e)) s) | Inr x \<Rightarrow> Q x (log_event (ev (Inr x)) s)))"
  by (auto simp: call_def split: sum.split)

lemma rg_texts [rg_simps]:
  "rg T (liftE r) Q R s = (case r of Inl e \<Rightarrow> R e s | Inr x \<Rightarrow> Q x s)"
  "rg T (feeE f) Q R s = (case f of Inl m \<Rightarrow> R (newError m) s | Inr x \<Rightarrow> Q x s)"
  "rg T (tr_text E m args) Q' R s = (case i18n_t (e_messages E) m args of
     Inl _ \<Rightarrow> R (e_typeError E (lit ''text.replace'')) s | Inr x \<Rightarrow> Q' x s)"
  by (simp_all add: liftE_def feeE_def tr_text_def rg_simps split: sum.split)

lemma rg_throwT [rg_simps]:
  "rg T (throwT E m args) Q R s = (case i18n_t (e_messages E) m args of
     Inl _ \<Rightarrow> R (e_typeError E (lit ''text.replace'')) s | Inr x \<Rightarrow> R (newError x) s)"
  by (simp add: throwT_def rg_simps split: sum.split)

lemma safe_texts [safe_intros]:
  "safe T I (liftE r)" "safe T I (feeE f)" "safe T I (tr_text E m args)" "safe T I (throwT E m args)"
  by (simp_all add: safe_def rg_simps split: sum.split)

lemma safe_settledValue [safe_intros]: "safe T I (settledValue E d)"
  by (cases "(E, d)" rule: settledValue.cases) (auto intro!: safe_intros)

lemma safe_awaitDeps [safe_intros]: "safe_in E (awaitDeps E p)"
  unfolding awaitDeps_def by (auto intro!: safe_intros step_settle)

lemma safe_startDeps:
  assumes "walletDepsPromise s = None" "page_inv E s"
  shows "rg (steps_to E) (startDeps E) (\<lambda>_. page_inv E) R s"
  using step_started [OF assms(1), of E] assms(2) by (simp add: startDeps_def rg_simps page.T_inv)

lemma safe_loadWalletDeps [safe_intros]: "safe_in E (loadWalletDeps E)"
  unfolding safe_def
proof (intro allI impI)
  fix s assume inv: "page_inv E s"
  have rest: "rg (steps_to E) (andThen (await (ret ())) (\<lambda>_. awaitDeps E p)) (\<lambda>_ _. True) (\<lambda>_ _. True) s1"
    if "page_inv E s1" for p s1
  proof -
    have "safe_in E (andThen (await (ret ())) (\<lambda>_. awaitDeps E p))" by (intro safe_intros)
    with that show ?thesis by (simp add: safe_def)
  qed
  show "guarantees (steps_to E) (loadWalletDeps E) s"
  proof (cases "walletDepsPromise s")
    case None
    with rest show ?thesis unfolding loadWalletDeps_def rg_andThen page.rg_gets
      by (auto simp: rg_andThen [symmetric] intro!: rg_frame [OF safe_startDeps [OF None inv]])
  next
    case (Some p)
    with rest [OF inv] show ?thesis unfolding loadWalletDeps_def rg_andThen page.rg_gets
      by (simp add: rg_basic rg_andThen [symmetric])
  qed
qed

section \<open>Notices\<close>

lemma safe_showFlash [safe_intros]: "safe_in E (showFlash E m b ctx)"
  unfolding showFlash_def by (auto intro!: safe_intros step_page simp: layout_def)

lemma safe_flashes [safe_intros]: "safe_in E (flashT E m args ctx)" "safe_in E (flashError E ctx e)"
  unfolding flashT_def flashError_def by (auto intro!: safe_intros)

lemma safe_updateWalletAddress [safe_intros]: "safe_in E (updateWalletAddress E a)"
  unfolding updateWalletAddress_def by (auto intro!: safe_intros step_page simp: layout_def)

lemma safe_autofill [safe_intros]: "safe_in E (autofill i n)"
  by (induction n arbitrary: i) (auto intro!: safe_intros step_page simp: layout_def)

section \<open>Connecting\<close>

lemma safe_suggest [safe_intros]: "safe_in E (suggestChainIfSupported E p)"
  unfolding suggestChainIfSupported_def Let_def by (auto intro!: safe_intros)

text \<open>An account the extension reported is the right one.\<close>

lemma reported_right: "e_getAccounts E h sg = Inr (Some (a # as)) \<Longrightarrow> right E a"
  unfolding right_def one_account_def by blast

lemma rg_getAccounts:
  assumes "page_inv E s"
  shows "rg (steps_to E) (await (call (\<lambda>h. e_getAccounts E h sg) (GetAccounts sg)))
    (\<lambda>r s'. page_inv E s' \<and> (\<forall>a as. r = Some (a # as) \<longrightarrow> right E a)) (\<lambda>_. page_inv E) s"
proof -
  have "steps_to E s (log_event (GetAccounts sg r) s)" for r by (rule step_log) simp_all
  then show ?thesis using assms
    by (auto simp: rg_simps intro: page.T_inv reported_right split: sum.split)
qed

text \<open>
  After a connect the account is the right one and stays so. \<open>linked_inv E q\<close> is the invariant from then on,
  together with the history \<open>h\<close> it goes back to.
\<close>

definition linked_inv :: "env \<Rightarrow> trace \<Rightarrow> wallet \<Rightarrow> bool" where
  "linked_inv E h s \<longleftrightarrow> page_inv E s \<and> right E (st_address s) \<and> prefix h (tr s)"

lemma linked_step: "linked_inv E h s \<Longrightarrow> steps_to E s s' \<Longrightarrow> linked_inv E h s'"
  by (auto simp: linked_inv_def steps_to_def grows_def)

lemma linked_page: "linked_inv E h s \<Longrightarrow> page_inv E s"
  by (simp add: linked_inv_def)

lemma linked_here: "linked_inv E h s \<Longrightarrow> linked_inv E (tr s) s"
  by (simp add: linked_inv_def)

lemma linked_right: "linked_inv E h s \<Longrightarrow> right E (st_address s)"
  by (simp add: linked_inv_def)

interpretation linked: interference "steps_to E" "linked_inv E h"
  by unfold_locales (auto intro: page.T_trans linked_step)

abbreviation safe_linked :: "env \<Rightarrow> trace \<Rightarrow> (wallet, exn, 'a) proc \<Rightarrow> bool" where
  "safe_linked E h m \<equiv> safe (steps_to E) (linked_inv E h) m"

lemma safe_linkedI: "safe_in E m \<Longrightarrow> safe_linked E h m"
  by (erule safe_mono) (rule linked_page)

text \<open>\<open>links E m\<close>: when \<open>m\<close> returns, the account is the right one.\<close>

definition links :: "env \<Rightarrow> (wallet, exn, 'a) proc \<Rightarrow> bool" where
  "links E m \<longleftrightarrow> (\<forall>s. page_inv E s \<longrightarrow> rg (steps_to E) m (\<lambda>_. linked_inv E []) (\<lambda>_. page_inv E) s)"

lemma linksD: "links E m \<Longrightarrow> page_inv E s \<Longrightarrow> rg (steps_to E) m (\<lambda>_. linked_inv E []) (\<lambda>_. page_inv E) s"
  by (simp add: links_def)

lemma links_safe: "links E m \<Longrightarrow> safe_in E m"
  unfolding safe_def by (blast dest: linksD intro: rg_frame)

lemma links_await: "links E m \<Longrightarrow> links E (await m)"
  unfolding links_def rg_await by (blast intro: rg_frame linked_step page.T_inv)

lemma links_then:
  assumes "safe_in E m" "\<And>x. links E (f x)" shows "links E (andThen m f)"
  unfolding links_def rg_andThen
proof (intro allI impI)
  fix s assume "page_inv E s"
  from page.safe_rg [OF assms(1) this, of "\<lambda>_. True"]
  show "rg (steps_to E) m (\<lambda>x. rg (steps_to E) (f x) (\<lambda>_. linked_inv E []) (\<lambda>_. page_inv E)) (\<lambda>_. page_inv E) s"
    by (rule rg_frame) (use assms(2) in \<open>auto intro: linksD\<close>)
qed

lemma links_catch:
  assumes "links E m" "\<And>e. links E (h e)" shows "links E (catch m h)"
  unfolding links_def rg_catch
proof (intro allI impI)
  fix s assume "page_inv E s"
  from linksD [OF assms(1) this]
  show "rg (steps_to E) m (\<lambda>_. linked_inv E []) (\<lambda>e. rg (steps_to E) (h e) (\<lambda>_. linked_inv E []) (\<lambda>_. page_inv E)) s"
    by (rule rg_frame) (use assms(2) in \<open>auto intro: linksD\<close>)
qed

lemma links_throw: "links E (throw e)" "links E (throwT E m args)"
  by (simp_all add: links_def rg_simps split: sum.split)

lemma rg_adopt:
  assumes "page_inv E s" "right E a"
  shows "rg (steps_to E) (andThen (modify (\<lambda>s. s\<lparr>st_signer := Some sg\<rparr>)) (\<lambda>_.
    andThen (modify (\<lambda>s. s\<lparr>st_address := a\<rparr>)) (\<lambda>_. updateWalletAddress E a))) (\<lambda>_. linked_inv E []) (\<lambda>_. page_inv E) s"
proof -
  let ?s1 = "s\<lparr>st_signer := Some sg\<rparr>" and ?s2 = "s\<lparr>st_signer := Some sg, st_address := a\<rparr>"
  have s1: "steps_to E s ?s1" by (rule step_page) (simp_all add: layout_def)
  have s2: "steps_to E ?s1 ?s2" using step_address [of E ?s1 a] assms(2) by simp
  then have "linked_inv E [] ?s2"
    using page.T_inv [OF page.T_inv [OF assms(1) s1] s2] assms(2) by (simp add: linked_inv_def)
  from linked.safe_rg [OF safe_linkedI [OF safe_updateWalletAddress] this, of "\<lambda>_. True"]
  have "rg (steps_to E) (updateWalletAddress E a) (\<lambda>_. linked_inv E []) (\<lambda>_. page_inv E) ?s2"
    by (rule rg_frame) (auto dest: linked_page)
  with s1 s2 show ?thesis by (simp add: rg_simps)
qed

lemma links_connectProvider: "links E (connectProvider E item)"
proof -
  have accounts: "links E (andThen (await (call (\<lambda>h. e_getAccounts E h sg) (GetAccounts sg))) (\<lambda>accounts.
     case accounts of Some (a # _) \<Rightarrow>
           andThen (modify (\<lambda>s. s\<lparr>st_signer := Some sg\<rparr>)) (\<lambda>_.
           andThen (modify (\<lambda>s. s\<lparr>st_address := a\<rparr>)) (\<lambda>_. updateWalletAddress E a))
       | _ \<Rightarrow> throwT E m args))" (is "links E (andThen ?m ?f)") for sg m args
    unfolding links_def rg_andThen
  proof (intro allI impI)
    fix s assume "page_inv E s"
    show "rg (steps_to E) ?m (\<lambda>x. rg (steps_to E) (?f x) (\<lambda>_. linked_inv E []) (\<lambda>_. page_inv E)) (\<lambda>_. page_inv E) s"
      by (rule rg_frame [OF rg_getAccounts [OF \<open>page_inv E s\<close>]])
         (auto intro: rg_adopt linksD [OF links_throw(2)] split: option.split list.split)
  qed
  show ?thesis unfolding connectProvider_def Let_def
    by (intro accounts links_then safe_intros) auto
qed

lemma links_tryProviders: "links E (tryProviders E ps e)"
  by (induction ps arbitrary: e) (auto simp: Let_def intro!: links_catch links_throw links_connectProvider)

lemma links_ensure: "links E (ensureWalletConnected E)"
proof -
  have "linked_inv E [] s" if "page_inv E s" "st_address s \<noteq> []" for s
    using that by (auto simp: linked_inv_def page_inv_def)
  then show ?thesis
    using linksD [OF links_tryProviders] linksD [OF links_throw(2)]
    unfolding ensureWalletConnected_def getWalletProviders_def links_def
    by (auto simp: rg_simps page.rg_gets simp del: tryProviders.simps split: sum.splits option.splits)
qed

lemma safe_ensure [safe_intros]: "safe_in E (ensureWalletConnected E)"
  by (rule links_safe [OF links_ensure])

lemma safe_openClient [safe_intros]: "safe_in E (openClient E url r)"
  unfolding openClient_def by (auto intro!: safe_intros step_page simp: layout_def)

lemma safe_getClient [safe_intros]: "safe_in E (getClient E)"
  unfolding getClient_def Let_def by (auto intro!: safe_intros)

section \<open>Submitting\<close>

lemma safe_feeE: "(\<And>x. r = Inr x \<Longrightarrow> safe T I (f x)) \<Longrightarrow> safe T I (andThen (feeE r) f)"
  by (cases r) (simp_all add: safe_def rg_simps)

text \<open>The broadcast itself: sender and fee are read at the moment of the call.\<close>

lemma safe_broadcast:
  assumes req: "\<And>es. prefix h es \<Longrightarrow> requested E es b m g" and b: "right E b" and fee: "fee_for E g fee"
    and rest: "\<And>x. safe_in E (k x)"
  shows "safe_linked E h (andThen (gets st_address) (\<lambda>address.
    andThen (await (call (\<lambda>h. e_broadcast E h c address [m] fee) (SignAndBroadcast c address [m] fee []))) k))"
  unfolding safe_def
proof (intro allI impI)
  fix s assume s: "linked_inv E h s"
  have "lawful E (tr s) (SignAndBroadcast c (st_address s) [m] fee [] r)" for r
    unfolding lawful_def using s req [of "tr s"] b fee by (fastforce simp: linked_inv_def right_def)
  then have t: "steps_to E s (log_event (SignAndBroadcast c (st_address s) [m] fee [] r) s)" for r
    by (intro step_log) simp_all
  have "page_inv E s'" if "steps_to E (log_event (SignAndBroadcast c (st_address s) [m] fee [] r) s) s'" for r s'
    using that t s by (blast intro: page.T_inv linked_page)
  with rest show "guarantees (steps_to E) (andThen (gets st_address) (\<lambda>address.
      andThen (await (call (\<lambda>h. e_broadcast E h c address [m] fee) (SignAndBroadcast c address [m] fee []))) k)) s"
    using t by (auto simp: rg_simps safe_def split: sum.split)
qed

lemma safe_submitTx:
  assumes "\<And>es. prefix h es \<Longrightarrow> requested E es b m g" "right E b"
  shows "safe_linked E h (submitTx E [m] g)"
  unfolding submitTx_def
  by (intro linked.safe_andThen linked.safe_await safe_linkedI [OF safe_getClient] safe_linkedI [OF safe_loadWalletDeps]
      safe_feeE safe_broadcast [OF assms]) (auto simp: fee_for_def intro!: safe_intros)

text \<open>The end of a form: from the state \<open>s0\<close> in which the form was read and the message built.\<close>

lemma safe_send:
  assumes "linked_inv E h s0" "\<And>es. prefix (tr s0) es \<Longrightarrow> requested E es (st_address s0) m g" "\<And>x. safe_in E (k x)"
  shows "safe (steps_to E) (\<lambda>s. s = s0) (andThen (await (submitTx E [m] g)) k)"
proof (rule safe_exact [where I = "linked_inv E (tr s0)"])
  show "safe_linked E (tr s0) (andThen (await (submitTx E [m] g)) k)"
    using safe_submitTx [OF assms(2)] linked_right [OF assms(1)]
    by (intro linked.safe_andThen linked.safe_await safe_linkedI [OF assms(3)])
qed (rule linked_here [OF assms(1)])

lemma safe_success: "safe_in E (andThen (flashT E m args ctx) (\<lambda>_. emit (ReloadAfter n)))"
  by (auto intro!: safe_intros)

section \<open>Handlers\<close>

lemma safe_after_connect:
  assumes "safe_linked E [] m" shows "safe_in E (andThen (await (ensureWalletConnected E)) (\<lambda>_. m))"
proof (rule safe_then [where J = "\<lambda>_. linked_inv E []"])
  fix s assume "page_inv E s"
  from linksD [OF links_await [OF links_ensure] this]
  show "rg (steps_to E) (await (ensureWalletConnected E)) (\<lambda>_. linked_inv E []) (\<lambda>_ _. True) s"
    by (rule rg_frame) auto
qed (rule assms)

lemma safe_guard:
  "safe T I (throwT E m args) \<Longrightarrow> (c \<Longrightarrow> safe T I (f ())) \<Longrightarrow> safe T I (andThen (guardE c (throwT E m args)) f)"
  by (cases c) (auto simp: guardE_def ret_def safe_def rg_simps split: sum.split)

lemma safe_onConnectClick: "safe_in E (onConnectClick E)"
  unfolding onConnectClick_def by (intro safe_intros)

lemma safe_gets_same:
  "safe (steps_to E) (\<lambda>s. s = s0) (f (g s0)) \<Longrightarrow> safe (steps_to E) (\<lambda>s. s = s0) (andThen (gets g) f)"
  by (rule page.safe_gets_exact) simp

lemma safe_onCreateSlotSubmit: "safe_in E (onCreateSlotSubmit E (CreateForm i))"
proof -
  have req: "requested E es b (createSlotMsg E b data (toNumber (field data ''rate''))) (numOr (gas_create_slot (cfg E)) 220000)"
    if "prefix (tr s0) es" "data = e_formData E (tr s0) (CreateForm i)" "field data ''publisher'' \<noteq> []" "field data ''label'' \<noteq> []"
      "field data ''rate'' \<noteq> []" "validRate (toNumber (field data ''rate''))" for es s0 data b
    using create_contentI [OF that(2-6)] that(1) unfolding requested_def by blast
  show ?thesis unfolding onCreateSlotSubmit_def createSlotTry_def formData_def Let_def
    by (intro page.safe_andThen safe_emit page.safe_catch safe_after_connect linked.safe_andThen linked.safe_await
        safe_linkedI [OF safe_loadWalletDeps] linked.safe_gets_exact safe_guard safe_texts safe_flashes
        safe_gets_same safe_send safe_success req) auto
qed

lemma safe_onSlotStatusSubmit: "safe_in E (onSlotStatusSubmit E (StatusForm i) sub)"
proof -
  have tail: "safe (steps_to E) (\<lambda>s. s = s0) (case slotAction a of
      None \<Rightarrow> throwT E (lit ''Unknown slot action.'') []
    | Some status \<Rightarrow>
        andThen (gets st_address) (\<lambda>address.
        andThen (await (submitTx E [updateStatusMsg address (field data ''slot_id'') status] (numOr (gas_update_slot (cfg E)) 140000))) (\<lambda>txHash.
        andThen (flashT E (lit ''Slot updated. Tx: {0}'') [txHash] Document) (\<lambda>_.
        emit (ReloadAfter 1500)))))"
    if "linked_inv E h s0" "data = e_formData E (tr s0) (StatusForm i)" "field data ''slot_id'' \<noteq> []"
      "a = (case sub of Some v \<Rightarrow> v | None \<Rightarrow> field data ''action'')" for h s0 data a
  proof (cases "slotAction a")
    case None
    then show ?thesis by (simp add: safe_texts)
  next
    case (Some status)
    have "requested E es (st_address s0) (updateStatusMsg (st_address s0) (field data ''slot_id'') status) (numOr (gas_update_slot (cfg E)) 140000)"
      if "prefix (tr s0) es" for es
      using status_contentI [OF \<open>data = _\<close> \<open>field data ''slot_id'' \<noteq> []\<close>, of sub status "st_address s0"] Some that \<open>a = _\<close>
      unfolding requested_def by blast
    then show ?thesis unfolding Some option.case by (intro safe_gets_same safe_send [OF that(1)] safe_success)
  qed
  show ?thesis unfolding onSlotStatusSubmit_def slotStatusTry_def formData_def Let_def
    by (intro page.safe_andThen safe_emit page.safe_catch safe_after_connect linked.safe_gets_exact safe_guard tail
        safe_texts safe_flashes) auto
qed

lemma rg_parseStartDate:
  "rg (steps_to E) (parseStartDate E value) (\<lambda>v s'. s' = s \<and> start_ok (e_now E (tr s)) value v) (\<lambda>_ _. True) s"
proof (cases "value = []")
  case True
  then show ?thesis by (simp add: parseStartDate_def rg_simps start_ok_def)
next
  case False
  then show ?thesis
    by (auto simp: parseStartDate_def rg_simps start_ok_def utc_date_def split: list.split option.split sum.split)
qed

lemma safe_start:
  assumes "\<And>v. start_ok (e_now E (tr s0)) value v \<Longrightarrow> safe (steps_to E) (\<lambda>s. s = s0) (f v)"
  shows "safe (steps_to E) (\<lambda>s. s = s0) (andThen (parseStartDate E value) f)"
  unfolding safe_def rg_andThen using assms
  by (auto simp: safe_def intro: rg_frame [OF rg_parseStartDate])

lemma safe_onLeaseSubmit: "safe_in E (onLeaseSubmit E (LeaseForm i))"
proof -
  have req: "requested E es b (leaseMsg b data start (toNumber (field data ''duration_seconds''))) (numOr (gas_lease_slot (cfg E)) 220000)"
    if "prefix (tr s0) es" "data = e_formData E (tr s0) (LeaseForm i)" "field data ''slot_id'' \<noteq> []" "field data ''target_url'' \<noteq> []"
      "validDuration (toNumber (field data ''duration_seconds''))" "start_ok (e_now E (tr s0)) (field data ''start_date'') start"
    for es s0 data start b
    using lease_contentI [OF that(2-6)] that(1) unfolding requested_def by blast
  show ?thesis unfolding onLeaseSubmit_def leaseTry_def formData_def Let_def
    by (intro page.safe_andThen safe_emit page.safe_catch safe_after_connect linked.safe_andThen linked.safe_await
        safe_linkedI [OF safe_loadWalletDeps] linked.safe_gets_exact safe_guard safe_start safe_gets_same safe_send safe_success req
        safe_texts safe_flashes) auto
qed

lemma safe_fetch:
  assumes "linked_inv E h s0" "\<And>r. safe_linked E (tr s0 @ [Fetch rq (Inr r)]) (f r)"
  shows "safe (steps_to E) (\<lambda>s. s = s0) (andThen (await (call (\<lambda>h. e_fetch E h rq) (Fetch rq))) f)"
proof (rule safe_then [where J = "\<lambda>r. linked_inv E (tr s0 @ [Fetch rq (Inr r)])"])
  fix s assume s: "s = s0"
  have t: "steps_to E s (log_event (Fetch rq r) s)" for r by (rule step_log) simp_all
  have "linked_inv E h (log_event (Fetch rq r) s)" for r using linked_step [OF assms(1) t [unfolded s]] s by simp
  then have "linked_inv E (tr s0 @ [Fetch rq (Inr r)]) (log_event (Fetch rq (Inr r)) s)" for r
    using linked_here [of E h "log_event (Fetch rq (Inr r)) s"] s by simp
  then show "rg (steps_to E) (await (call (\<lambda>h. e_fetch E h rq) (Fetch rq))) (\<lambda>r. linked_inv E (tr s0 @ [Fetch rq (Inr r)])) (\<lambda>_ _. True) s"
    using t by (auto simp: rg_simps intro: linked_step split: sum.split)
qed (rule assms(2))

lemma safe_verified:
  "(verified r \<Longrightarrow> safe T I (f ())) \<Longrightarrow> safe T I (andThen (checkVerification E r (json_or_empty r)) f)"
  by (auto simp: checkVerification_def json_or_empty_def verified_def safe_def rg_simps split: option.splits sum.splits)

lemma safe_onRegisterSubmit: "safe_in E (onRegisterSubmit E (RegisterForm i))"
proof -
  have tail: "safe_linked E (tr s0 @ [Fetch (verifyRequest domain address) (Inr r)]) (andThen (gets st_address) (\<lambda>owner.
        andThen (await (submitTx E [registerMsg owner domain referrer] (Fin 220000))) (\<lambda>txHash.
        flashT E (lit ''Registration submitted; verifier confirmation pending. Tx: {0}'') [txHash] (FormNode (RegisterForm i)))))"
    if "right E address" "data = e_formData E (tr s0) (RegisterForm i)" "domain = toLowerCase (e_lower E) (field data ''domain'')" "domain \<noteq> []"
      "field data ''wallet'' = address" "address \<noteq> []" "referrer = field data ''referrer''"
      "referrer = [] \<or> isLikelyGridAddress referrer" "verified r"
    for data s0 domain address referrer r
  proof (rule linked.safe_gets_then)
    let ?h = "tr s0 @ [Fetch (verifyRequest domain address) (Inr r)]"
    fix s assume "linked_inv E ?h s"
    have "requested E es (st_address s) (registerMsg (st_address s) domain referrer) (Fin 220000)" if "prefix ?h es" for es
      using register_contentI [OF \<open>data = _\<close> \<open>domain = _\<close> \<open>domain \<noteq> []\<close> \<open>field data _ = address\<close> \<open>address \<noteq> []\<close>
          \<open>referrer = field data _\<close> \<open>referrer = [] \<or> _\<close>] that asked_verifyRequest \<open>verified r\<close> \<open>right E address\<close>
      unfolding requested_def by blast
    from safe_submitTx [OF this linked_right [OF \<open>linked_inv E ?h s\<close>]]
    show "safe_linked E ?h (andThen (await (submitTx E [registerMsg (st_address s) domain referrer] (Fin 220000))) (\<lambda>txHash.
         flashT E (lit ''Registration submitted; verifier confirmation pending. Tx: {0}'') [txHash] (FormNode (RegisterForm i))))"
      by (intro linked.safe_andThen linked.safe_await safe_linkedI [OF safe_flashes(1)])
  qed
  show ?thesis unfolding onRegisterSubmit_def registerTry_def formData_def Let_def
    by (intro page.safe_andThen safe_emit page.safe_catch safe_after_connect linked.safe_gets_exact safe_gets_same safe_guard safe_fetch
        linked.safe_await_ret safe_verified tail safe_texts safe_flashes) (auto simp: linked_right)
qed

lemma safe_handler: "safe_in E (handler E l sub)"
  by (cases "(E, l, sub)" rule: handler.cases)
     (simp_all add: safe_onConnectClick safe_onCreateSlotSubmit safe_onSlotStatusSubmit safe_onLeaseSubmit
       safe_onRegisterSubmit)

section \<open>All interleavings\<close>

interpretation page_loop: event_loop "steps_to E" "page_inv E" "may_start E" "happens E"
proof
  fix s s' assume "page_inv E s" "happens E s s'"
  then show "steps_to E s s'" by (auto simp: happens_def intro: step_log step_settle)
next
  fix s m assume "page_inv E s" "may_start E s m"
  then show "safe_in E m" by (auto simp: may_start_def safe_handler)
qed

definition fresh_page :: "wallet \<Rightarrow> bool" where
  "fresh_page s \<longleftrightarrow> tr s = [] \<and> st_signer s = None \<and> st_address s = [] \<and> st_client s = None
     \<and> walletDepsPromise s = None \<and> depsPromises s = [] \<and> listeners s = []"

text \<open>Loading the page sets the address display, the listeners and the readiness flag only.\<close>

definition core where
  "core s = (tr s, st_signer s, st_address s, st_client s, walletDepsPromise s, depsPromises s, flashes s, doc_flash s,
     form_flash s, length (address_els s), autofill_inputs s, connect_buttons s, page_forms s)"

lemma core_load: "core (page_load E s) = core s"
proof -
  have "wp (initWalletUI E) (\<lambda>_ s'. core s' = core s) (\<lambda>_ s'. core s' = core s) s"
    unfolding initWalletUI_def bindConnectButtons_def bindCreateSlotForms_def bindSlotStatusForms_def
      bindLeaseForms_def bindPublisherRegisterForms_def bind_listeners_def
    by (auto simp: wp_simps core_def intro!: wp_frame [OF wp_updateWalletAddress])
  then show ?thesis unfolding page_load_def by (rule wp_snd)
qed

lemma loaded_inv: "fresh_page s \<Longrightarrow> page_inv E (page_load E s)"
  using core_load [of E s]
  by (auto simp: core_def fresh_page_def page_inv_def promises_ok_def live_promise_def bundle_cached_def
      lawful_trace_def promise_at_def)

lemma weave_inv:
  assumes "weave E s0 ms s" "fresh_page s0" shows "page_inv E s \<and> grows E (page_load E s0) s"
  using page_loop.loop_reaches [OF assms(1) [unfolded weave_def] loaded_inv [OF assms(2)]]
    loaded_inv [OF assms(2)] by (simp add: steps_to_def)

lemma weave_lawful:
  assumes "weave E s0 ms s" "fresh_page s0" "tr s = before @ SignAndBroadcast c a msgs fee memo r # after"
  shows "\<exists>m g. msgs = [m] \<and> memo = [] \<and> fee_for E g fee \<and> requested E before (msg_sender m) m g
    \<and> (\<forall>x. one_account E x \<longrightarrow> a = x \<and> msg_sender m = x)"
proof -
  have "lawful E before (SignAndBroadcast c a msgs fee memo r)"
    using weave_inv [OF assms(1,2)] assms(3) by (simp add: page_inv_def lawful_trace_def)
  then show ?thesis using requested_sender by (fastforce simp: lawful_def)
qed

text \<open>A registration: with one account, the verified wallet, the owner and the sender are that account.\<close>

lemma requested_registration:
  assumes "requested E es b m g" "intended (msgValue m) = CRegisterPublisher p"
  obtains ev w q where "ev \<in> set es" "asked ev (rp_domain p) w q" "verified q" "right E w" "rp_owner p = b"
proof -
  obtain h i w domain ev q where c: "prefix (h @ [ev]) es" "register_content E h (RegisterForm i) b w domain m g"
      "asked ev domain w q" "verified q" "right E w"
    using assms by (auto simp: requested_def create_content_def status_content_def lease_content_def)
  have "rp_domain p = domain" "rp_owner p = b" using c(2) assms(2) by (auto simp: register_content_def)
  moreover have "ev \<in> set es" using c(1) by (auto dest: set_mono_prefix)
  ultimately show thesis using c(3-5) that by blast
qed

lemma weave_registration:
  assumes "weave E s0 ms s" "fresh_page s0" "one_account E x"
    and "tr s = before @ SignAndBroadcast c a [m] fee memo r # after" "intended (msgValue m) = CRegisterPublisher p"
  shows "a = x \<and> rp_owner p = x \<and> (\<exists>ev q. ev \<in> set before \<and> asked ev (rp_domain p) x q \<and> verified q)"
proof -
  obtain g where req: "requested E before (msg_sender m) m g" and same: "a = x" "msg_sender m = x"
    using weave_lawful [OF assms(1,2,4)] assms(3) by auto
  from req assms(5) obtain ev w q where "ev \<in> set before" "asked ev (rp_domain p) w q" "verified q" "right E w" "rp_owner p = msg_sender m"
    by (rule requested_registration)
  moreover from this have "w = x" using assms(3) by (simp add: right_def)
  ultimately show ?thesis using same by blast
qed

section \<open>Disabled deployments\<close>

lemma weave_disabled:
  assumes "weave E s0 ms s" "\<not> cfg_enabled (cfg E)" "fresh_page s0"
  shows "ms = [] \<and> (\<exists>es. s = s0\<lparr>tr := es\<rparr> \<and> (\<forall>ev \<in> set es. \<exists>n. ev = Outside n))"
proof -
  have load: "page_load E s0 = s0" using assms(2) by (simp add: page_load_def initWalletUI_def run_simps)
  have quiet: "listeners s0 = []" "depsPromises s0 = []" "tr s0 = []" using assms(3) by (simp_all add: fresh_page_def)
  have "\<exists>es. c = ([], s0\<lparr>tr := es\<rparr>) \<and> (\<forall>ev \<in> set es. \<exists>n. ev = Outside n)"
    if "(page_step E)\<^sup>*\<^sup>* ([], s0) c" for c
    using that
  proof (induction rule: rtranclp_induct)
    case base
    have "s0 = s0\<lparr>tr := []\<rparr>" using quiet(3) by (cases s0) simp
    then show ?case by (intro exI [of _ "[]"]) simp
  next
    case (step c c')
    then obtain es where es: "c = ([], s0\<lparr>tr := es\<rparr>)" "\<forall>ev \<in> set es. \<exists>n. ev = Outside n" by blast
    have settle: "settleDeps E p (s0\<lparr>tr := es\<rparr>) = s0\<lparr>tr := es\<rparr>" for p
      using quiet(2) by (simp add: settleDeps_def promise_at_def)
    from step(2) [unfolded es(1)] show ?case
    proof (cases rule: loop_step.cases)
      case (start m m' s')
      then show ?thesis using quiet(1) by (simp add: may_start_def)
    next
      case (turn i m' s')
      then show ?thesis by simp
    next
      case (other s')
      then consider n where "s' = log_event (Outside n) (s0\<lparr>tr := es\<rparr>)" | "s' = s0\<lparr>tr := es\<rparr>"
        using settle by (auto simp: happens_def)
      then show ?thesis
      proof cases
        case 1
        then show ?thesis using other es(2) by (intro exI [of _ "es @ [Outside n]"]) (auto simp: log_event_def)
      next
        case 2
        then show ?thesis using other es(2) by blast
      qed
    qed
  qed
  from this [of "(ms, s)"] show ?thesis using assms(1) load by (simp add: weave_def)
qed

end
