(* ===== verification/WalletLive.thy ===== *)
theory WalletLive
  imports WalletPage WalletFacts
begin

text \<open>
  Submissions that go through: with a connected wallet, a cached client and valid input, the handlers
  broadcast and finish as intended. A concrete deployment (\<open>demo_env\<close>, \<open>demo_page\<close>, \<open>ready_page\<close>) shows that
  the hypotheses used throughout can hold.
\<close>

section \<open>A submission with everything in place\<close>

lemma submit_ready:
  assumes "cfg_enabled (cfg E)" "wallet_connected s" "st_client s = Some c" "walletDeps s = Some reg"
    and "GasPrice_fromString (gas_price_string E) = Inr gp" "calculateFee g gp = Inr fee"
    and "e_broadcast E (tr s) c (st_address s) msgs fee = Inr res" "tx_code res = 0"
  shows "run (submitTx E msgs g) s
    = (Inr (transactionHash res), log_event (SignAndBroadcast c (st_address s) msgs fee [] (Inr res)) s)"
proof -
  have "run (getClient E) s = (Inr c, s)"
    using ensure_connected [OF assms(1,2)] assms(3) by (simp add: getClient_def run_simps)
  then show ?thesis using assms load_cached [OF assms(4)]
    by (simp add: submitTx_def run_simps feeE_def call_def)
qed

lemma i18n_none: "i18n_t None m args = Inr (replace_placeholders args m)"
  by (simp add: i18n_t_def lookup_text_def)

lemma create_slot_success:
  fixes E s f
  defines "data \<equiv> e_formData E (tr s @ [PreventDefault]) f"
  defines "rate \<equiv> toNumber (field data ''rate'')"
  defines "msg \<equiv> createSlotMsg E (st_address s) data rate"
  assumes "cfg_enabled (cfg E)" "wallet_connected s" "st_client s = Some c" "walletDeps s = Some reg"
    and "field data ''publisher'' \<noteq> []" "field data ''label'' \<noteq> []" "field data ''rate'' \<noteq> []" "validRate rate"
    and "GasPrice_fromString (gas_price_string E) = Inr gp"
    and "calculateFee (numOr (gas_create_slot (cfg E)) 220000) gp = Inr fee"
    and "e_broadcast E (tr s @ [PreventDefault]) c (st_address s) [msg] fee = Inr res" "tx_code res = 0"
    and "i18n_t (e_messages E) (lit ''Slot created. Tx: {0}'') [transactionHash res] = Inr y"
    and "i18n_t (e_messages E) y [] = Inr x"
  shows "run (onCreateSlotSubmit E f) s = (Inr (), log_event (ReloadAfter 1500) (flash_result x False Document
    (log_event (SignAndBroadcast c (st_address s) [msg] fee [] (Inr res)) (log_event PreventDefault s))))"
proof -
  let ?s = "log_event PreventDefault s"
  have "wallet_connected ?s" using assms(5) by (simp add: wallet_connected_def)
  note e = ensure_connected [OF assms(4) this]
  have "walletDeps ?s = Some reg" using assms(7) by simp
  note l = load_cached [OF this, of E]
  have "run (submitTx E [msg] (numOr (gas_create_slot (cfg E)) 220000)) ?s = (Inr (transactionHash res),
      log_event (SignAndBroadcast c (st_address ?s) [msg] fee [] (Inr res)) ?s)"
    by (rule submit_ready [OF assms(4) \<open>wallet_connected ?s\<close> _ \<open>walletDeps ?s = Some reg\<close> assms(12,13) _ assms(15)])
       (use assms(6,14) in simp_all)
  moreover have "run (flashT E (lit ''Slot created. Tx: {0}'') [transactionHash res] Document) s1
      = (Inr (), flash_result x False Document s1)" for s1
    using assms(16,17) by (intro wp_exact) (simp add: wp_simps)
  ultimately show ?thesis
    using assms(8-11)
    by (simp add: onCreateSlotSubmit_def createSlotTry_def run_simps emit_def e l formData_def Let_def data_def [symmetric] rate_def [symmetric] msg_def [symmetric])
qed

section \<open>What is sent, whatever the node answers\<close>

lemma submit_calls:
  assumes "cfg_enabled (cfg E)" "wallet_connected s" "st_client s = Some c" "walletDeps s = Some reg"
    and "GasPrice_fromString (gas_price_string E) = Inr gp" "calculateFee g gp = Inr fee"
  shows "\<exists>r r'. run (submitTx E msgs g) s = (r', log_event (SignAndBroadcast c (st_address s) msgs fee [] r) s)"
proof -
  have "run (getClient E) s = (Inr c, s)"
    using ensure_connected [OF assms(1,2)] assms(3) by (simp add: getClient_def run_simps)
  then show ?thesis using assms load_cached [OF assms(4)]
    by (auto simp: submitTx_def run_simps feeE_def call_def throwT_def tr_text_def split: sum.split)
qed

lemma failure_trace: "\<exists>es. tr (snd (failure_shown E ctx e s)) = tr s @ es"
  using flash_trace [of _ True ctx s] by (auto simp: failure_shown_def split: sum.split)

lemma create_slot_sends:
  assumes "cfg_enabled (cfg E)" "wallet_connected s" "st_client s = Some c" "walletDeps s = Some reg"
    and "data = e_formData E (tr s @ [PreventDefault]) f" "rate = toNumber (field data ''rate'')"
    and "field data ''publisher'' \<noteq> []" "field data ''label'' \<noteq> []" "field data ''rate'' \<noteq> []" "validRate rate"
    and "GasPrice_fromString (gas_price_string E) = Inr gp"
    and "calculateFee (numOr (gas_create_slot (cfg E)) 220000) gp = Inr fee"
  shows "\<exists>r. prefix (tr s @ [PreventDefault, SignAndBroadcast c (st_address s) [createSlotMsg E (st_address s) data rate] fee [] r])
    (tr (snd (run (onCreateSlotSubmit E f) s)))"
proof -
  let ?s = "log_event PreventDefault s" and ?m = "createSlotMsg E (st_address s) data rate"
  have w: "wallet_connected ?s" "walletDeps ?s = Some reg" "st_client ?s = Some c" using assms(2-4) by simp_all
  note e = ensure_connected [OF assms(1) w(1)] and l = load_cached [OF w(2), of E]
  obtain r r' where sub: "run (submitTx E [?m] (numOr (gas_create_slot (cfg E)) 220000)) ?s
      = (r', log_event (SignAndBroadcast c (st_address s) [?m] fee [] r) ?s)" (is "_ = (_, ?s1)")
    using submit_calls [OF assms(1) w(1,3,2) assms(11,12), of "[?m]"] by auto
  have flash: "\<exists>es. tr (snd (run (flashT E n args ctx) s1)) = tr s1 @ es" for n args ctx s1
  proof -
    have "\<exists>es. tr (flash_result x b ctx s1) = tr s1 @ es" for x b using flash_trace by blast
    then have "wp (flashT E n args ctx) (\<lambda>_ s'. \<exists>es. tr s' = tr s1 @ es) (\<lambda>_ s'. \<exists>es. tr s' = tr s1 @ es) s1"
      by (simp add: wp_simps split: sum.split)
    then show ?thesis by (rule wp_snd)
  qed
  have "\<exists>es. tr (snd (run (onCreateSlotSubmit E f) s)) = tr ?s1 @ es"
  proof (cases r')
    case (Inl x)
    then have "run (onCreateSlotSubmit E f) s = failure_shown E Document x ?s1" using assms(5-10) sub
      by (simp add: onCreateSlotSubmit_def createSlotTry_def run_simps emit_def e l formData_def Let_def run_flashError)
    then show ?thesis using failure_trace [of E Document x ?s1] by metis
  next
    case (Inr h)
    obtain q s2 where q: "run (flashT E (lit ''Slot created. Tx: {0}'') [h] Document) ?s1 = (q, s2)" by force
    with flash [of "lit ''Slot created. Tx: {0}''" "[h]" Document ?s1] obtain es where es: "tr s2 = tr ?s1 @ es" by fastforce
    have "run (onCreateSlotSubmit E f) s
        = (case q of Inl x \<Rightarrow> failure_shown E Document x s2 | Inr _ \<Rightarrow> (Inr (), log_event (ReloadAfter 1500) s2))"
      using Inr assms(5-10) sub q
      by (cases q) (simp_all add: onCreateSlotSubmit_def createSlotTry_def run_simps emit_def e l formData_def Let_def run_flashError)
    then have "\<exists>es. tr (snd (run (onCreateSlotSubmit E f) s)) = tr s2 @ es"
      using failure_trace [of E Document _ s2] by (cases q) simp_all
    with es show ?thesis by (metis append.assoc)
  qed
  then show ?thesis by (intro exI [of _ r]) (auto simp: prefix_def)
qed

text \<open>A rate typed in decimal digits, below and above 2 ^ 53, is accepted; the message has no other use for the field.\<close>

lemma rate_numeral:
  assumes "0 \<le> n" "n < 2 ^ 53 \<or> odd n \<and> 2 ^ 53 < n \<and> n + 1 < 2 ^ 54" shows "validRate (toNumber (dec_digits n))"
proof -
  have "\<exists>k. 0 \<le> k \<and> toNumber (dec_digits n) = Fin (of_int k)"
    using assms(2)
  proof
    assume "n < 2 ^ 53"
    then show ?thesis using assms(1) toNumber_dec_digits [of n] by auto
  next
    assume "odd n \<and> 2 ^ 53 < n \<and> n + 1 < 2 ^ 54"
    then show ?thesis using toNumber_merged(1) [of n] by (intro exI [of _ "merged_with n"]) (auto simp: merged_with_def)
  qed
  then show ?thesis by (simp add: validRate_iff)
qed

lemma createSlotMsg_rate: "createSlotMsg E a (data(lit ''rate'' := v)) x = createSlotMsg E a data x"
  by (simp add: createSlotMsg_def Let_def field_def lit_eq_iff)

section \<open>A concrete deployment\<close>

definition demo_config :: config where
  "demo_config = \<lparr>cfg_enabled = True, cfg_chain_id = lit ''congrid-main'', cfg_rpc = lit ''tcp://127.0.0.1:26657'',
     cfg_rest = [], cfg_fee_denom = lit ''ucongrid'', cfg_gas_price = lit ''0.0025ucongrid'',
     slot_rate_denom = [], slot_unit_seconds = Fin 3600, slot_min_duration_seconds = Fin 86400,
     slot_max_duration_seconds = Fin 2592000, gas_create_slot = Fin 0, gas_update_slot = Fin 0, gas_lease_slot = Fin 0\<rparr>"

definition demo_form :: "form \<Rightarrow> jstring \<Rightarrow> jstring option" where
  "demo_form f k =
     (case f of
        CreateForm _ \<Rightarrow> map_of [(lit ''publisher'', lit '' example.org ''), (lit ''label'', lit ''Header''), (lit ''rate'', lit ''250'')] k
      | StatusForm _ \<Rightarrow> map_of [(lit ''slot_id'', lit ''slot-1''), (lit ''action'', lit ''pause'')] k
      | LeaseForm _ \<Rightarrow> map_of [(lit ''slot_id'', lit ''slot-1''), (lit ''target_url'', lit ''https://ad.example''),
                            (lit ''duration_seconds'', lit ''86400''), (lit ''start_date'', lit ''2024-03-01'')] k
      | RegisterForm _ \<Rightarrow> map_of [(lit ''domain'', lit ''Example.org''), (lit ''wallet'', lit ''congrid1abcdefghijklmnopqrst'')] k)"

definition demo_env :: env where
  "demo_env = \<lparr>cfg = demo_config, e_messages = None, e_lower = (\<lambda>s. s),
     e_keplr = (\<lambda>_. Some \<lparr>has_suggest = True, has_getOfflineSigner = True\<rparr>),
     e_suggest = (\<lambda>_ _. Inr ()), e_enable = (\<lambda>_ _. Inr ()), e_getOfflineSigner = (\<lambda>_ _. Inr 7),
     e_getOfflineSignerAuto = (\<lambda>_ _. Inr 7),
     e_getAccounts = (\<lambda>_ _. Inr (Some [lit ''congrid1abcdefghijklmnopqrst''])),
     e_import = (\<lambda>_ _. Inr \<lparr>has_Long = True, util_Long_same = False, default_types = []\<rparr>),
     e_connect = (\<lambda>_ _ _ _ _. Inr 11),
     e_broadcast = (\<lambda>_ _ _ _ _. Inr \<lparr>tx_code = 0, rawLog = [], transactionHash = lit ''ABCD''\<rparr>),
     e_fetch = (\<lambda>_ _. Inr \<lparr>resp_ok = True, resp_json = Inr (Some \<lparr>v_ok_true = True, v_error = []\<rparr>)\<rparr>),
     e_now = (\<lambda>_. 1709200000000), e_newURL = (\<lambda>_. None), e_formData = (\<lambda>_. demo_form),
     e_typeError = (\<lambda>m. newError m)\<rparr>"

definition demo_page :: wallet where
  "demo_page = \<lparr>st_signer = None, st_address = [], st_client = None, walletDepsPromise = None, depsPromises = [],
     flashes = [\<lparr>textContent = [], hidden = True, is_error = False\<rparr>], doc_flash = Some 0, form_flash = (\<lambda>_. None),
     address_els = [[]], autofill_inputs = [[]], connect_buttons = 1,
     page_forms = [CreateForm 0, StatusForm 0, LeaseForm 0, RegisterForm 0], listeners = [], uiReady = False, tr = []\<rparr>"

definition ready_page :: wallet where
  "ready_page = demo_page\<lparr>st_signer := Some 7, st_address := lit ''congrid1abcdefghijklmnopqrst'', st_client := Some 11,
     walletDepsPromise := Some 0, depsPromises := [Settled (Inr (walletRegistry []))], listeners := [OnSubmit (CreateForm 0)]\<rparr>"

lemma demo_fields:
  "field (demo_form (CreateForm 0)) ''publisher'' = lit ''example.org''" "field (demo_form (CreateForm 0)) ''label'' = lit ''Header''"
  "field (demo_form (CreateForm 0)) ''rate'' = lit ''250''"
  by code_simp+

lemma demo_rate: "toNumber (lit ''250'') = Fin 250"
  by code_simp

lemma demo_gas: "GasPrice_fromString (lit ''0.0025ucongrid'') = Inr \<lparr>gp_amount = \<lparr>atomics = 2500000000000000, fractionalDigits = 18\<rparr>, gp_denom = lit ''ucongrid''\<rparr>"
  by code_simp

lemma demo_fee: "calculateFee (Fin 220000) \<lparr>gp_amount = \<lparr>atomics = 2500000000000000, fractionalDigits = 18\<rparr>, gp_denom = lit ''ucongrid''\<rparr>
   = Inr \<lparr>fee_amount = lit ''550'', fee_denom = lit ''ucongrid'', fee_gas = lit ''220000''\<rparr>"
  by code_simp

lemma demo_note: "replace_placeholders [lit ''ABCD''] (lit ''Slot created. Tx: {0}'') = lit ''Slot created. Tx: ABCD''"
  by code_simp

lemma demo_env_simps [simp]:
  "cfg demo_env = demo_config" "e_messages demo_env = None" "e_formData demo_env h = demo_form"
  "e_broadcast demo_env h c a ms fee = Inr \<lparr>tx_code = 0, rawLog = [], transactionHash = lit ''ABCD''\<rparr>"
  "cfg_enabled demo_config" "gas_create_slot demo_config = Fin 0" "numOr (Fin 0) 220000 = Fin 220000"
  by (simp_all add: demo_env_def demo_config_def numOr_def truthy_def)

lemma demo_ready [simp]:
  "wallet_connected ready_page" "st_client ready_page = Some 11" "walletDeps ready_page = Some (walletRegistry [])"
  "tr ready_page = []" "find_flash Document (log_event e (log_event e' ready_page)) = Some 0" "flashes ready_page \<noteq> []"
  by (simp_all add: ready_page_def demo_page_def wallet_connected_def find_flash_def walletDeps_def registry_at_def promise_at_def)

lemma demo_gas_price: "GasPrice_fromString (gas_price_string demo_env) = GasPrice_fromString (lit ''0.0025ucongrid'')"
  by (simp add: gas_price_string_def orElse_def demo_config_def)

lemma demo_valid: "validRate (Fin 250)"
  by (simp add: validRate_def isFinite_def isInteger_def)

end
