(* ===== verification/WalletErrors.thy ===== *)
theory WalletErrors
  imports WalletFacts
begin

text \<open>
  The checks of the forms, as the user sees them. \<open>form_problem\<close> lists, in the order of the page's promises to
  the user, what can be wrong with a form; \<open>form_rejected\<close> shows that the handler of a connected page, with the bundle
  loaded if the form needs it, reports exactly the first problem (registration forms in their own notice element,
  the others in the document's) and does nothing else.

  What the user does not see: an error whose text is the name of a member of \<open>Object.prototype\<close>.
\<close>

section \<open>The first problem of a form\<close>

definition start_problem :: "int \<Rightarrow> jstring \<Rightarrow> string option" where
  "start_problem now value =
     (if value = [] then None
      else case utc_date value of
        None \<Rightarrow> Some ''Invalid start date.''
      | Some startMs \<Rightarrow> if startMs < now - 86400000 then Some ''Start date must be today or later.'' else None)"

fun form_problem :: "env \<Rightarrow> trace \<Rightarrow> jstring \<Rightarrow> jstring option \<Rightarrow> form \<Rightarrow> (string \<times> jstring list) option" where
  "form_problem E h acc sub (CreateForm i) =
     (let data = e_formData E h (CreateForm i) in
      if field data ''publisher'' = [] then Some (''Publisher domain required.'', [])
      else if field data ''label'' = [] then Some (''Slot label required.'', [])
      else if field data ''rate'' = [] then Some (''Rate required.'', [])
      else if \<nexists>k. 0 \<le> k \<and> toNumber (field data ''rate'') = Fin (of_int k)
      then Some (''Rate must be a non-negative integer.'', [])
      else None)"
| "form_problem E h acc sub (StatusForm i) =
     (let data = e_formData E h (StatusForm i);
          action = (case sub of Some v \<Rightarrow> v | None \<Rightarrow> field data ''action'') in
      if field data ''slot_id'' = [] then Some (''Slot id required.'', [])
      else if \<nexists>status. (action, status) \<in> action_codes then Some (''Unknown slot action.'', [])
      else None)"
| "form_problem E h acc sub (LeaseForm i) =
     (let data = e_formData E h (LeaseForm i) in
      if field data ''slot_id'' = [] \<or> field data ''target_url'' = []
      then Some (''Slot and target URL are required.'', [])
      else if \<nexists>k. 0 < k \<and> toNumber (field data ''duration_seconds'') = Fin (of_int k)
      then Some (''Select a lease duration.'', [])
      else map_option (\<lambda>m. (m, [])) (start_problem (e_now E h) (field data ''start_date'')))"
| "form_problem E h acc sub (RegisterForm i) =
     (let data = e_formData E h (RegisterForm i) in
      if toLowerCase (e_lower E) (field data ''domain'') = []
      then Some (''Please generate registration details first (missing domain).'', [])
      else if field data ''wallet'' = []
      then Some (''Please generate registration details first (missing wallet).'', [])
      else if field data ''wallet'' \<noteq> acc
      then Some (''Connected wallet mismatch. connected={0} form={1}'', [acc, field data ''wallet''])
      else if field data ''referrer'' \<noteq> [] \<and> \<not> isLikelyGridAddress (field data ''referrer'')
      then Some (''Referrer verifier address format looks invalid. Use congrid1... address.'', [])
      else None)"

text \<open>Where a form reports: registration forms in themselves, the others in the document.\<close>

fun notice_place :: "form \<Rightarrow> context_node" where
  "notice_place (RegisterForm i) = FormNode (RegisterForm i)"
| "notice_place _ = Document"

fun console :: "form \<Rightarrow> exn \<Rightarrow> wallet \<Rightarrow> wallet" where
  "console (RegisterForm i) e s = log_event (ConsoleError e) s"
| "console _ e s = s"

text \<open>The create and the lease form load the bundle before they are read.\<close>

fun needs_bundle :: "form \<Rightarrow> bool" where
  "needs_bundle (CreateForm _) = True"
| "needs_bundle (LeaseForm _) = True"
| "needs_bundle _ = False"

section \<open>Rejection\<close>

lemma run_throwT: "i18n_t (e_messages E) m args = Inr y \<Longrightarrow> run (throwT E m args) s = (Inl (newError y), s)"
  by (simp add: throwT_def tr_text_def run_simps)

lemma shown_error:
  assumes "i18n_t (e_messages E) (orElse y (lit ''Error'')) [] = Inr x"
  shows "failure_shown E ctx (newError y) s = (Inr (), flash_result x True ctx s)"
proof -
  have "orElse (ex_message (newError y)) (ex_string (newError y)) = orElse y (lit ''Error'')"
    by (simp add: newError_def orElse_def)
  with assms show ?thesis by (simp add: failure_shown_def newError_def)
qed

lemma run_start_problem:
  assumes "start_problem (e_now E (tr s)) value = Some m" "i18n_t (e_messages E) (lit m) [] = Inr y"
  shows "run (parseStartDate E value) s = (Inl (newError y), s)"
proof (cases "utc_date value")
  case None
  then show ?thesis using assms
    by (auto simp: start_problem_def utc_date_def parseStartDate_def run_throwT split: if_splits list.splits option.splits)
next
  case (Some startMs)
  then show ?thesis using assms parseStartDate_run [OF Some, of E s]
    by (auto simp: start_problem_def run_throwT split: if_splits)
qed

lemma no_action: "(\<forall>status. (a, status) \<notin> action_codes) \<longleftrightarrow> slotAction a = None"
  using slotAction_codes [of a] by (cases "slotAction a") auto

lemma form_rejected:
  assumes "cfg_enabled (cfg E)" "wallet_connected s" "needs_bundle f \<Longrightarrow> walletDeps s \<noteq> None"
    and "form_problem E (tr s @ [PreventDefault]) (st_address s) sub f = Some (m, args)"
    and "i18n_t (e_messages E) (lit m) args = Inr y" "i18n_t (e_messages E) (orElse y (lit ''Error'')) [] = Inr x"
  shows "run (handler E (OnSubmit f) sub) s
    = (Inr (), flash_result x True (notice_place f) (console f (newError y) (log_event PreventDefault s)))"
proof -
  let ?s = "log_event PreventDefault s"
  have "wallet_connected ?s" using assms(2) by simp
  note e = ensure_connected [OF assms(1) this]
  have l: "\<exists>reg. run (loadWalletDeps E) ?s = (Inr reg, ?s)" if "needs_bundle f"
    using assms(3) [OF that] load_cached [of ?s _ E] by auto
  note fl = run_flashError shown_error [OF assms(6)]
  show ?thesis
  proof (cases f)
    case (CreateForm i)
    with l obtain reg where "run (loadWalletDeps E) ?s = (Inr reg, ?s)" by auto
    then show ?thesis using assms(4,5) CreateForm
      by (auto simp: run_throwT onCreateSlotSubmit_def createSlotTry_def run_simps emit_def e fl formData_def Let_def validRate_iff split: if_splits)
  next
    case (StatusForm i)
    then show ?thesis using assms(4,5)
      by (cases sub) (auto simp: run_throwT onSlotStatusSubmit_def slotStatusTry_def run_simps emit_def e fl formData_def Let_def no_action split: if_splits)
  next
    case (LeaseForm i)
    with l obtain reg where "run (loadWalletDeps E) ?s = (Inr reg, ?s)" by auto
    then show ?thesis using assms(4,5) LeaseForm run_start_problem [of E ?s]
      by (auto simp: run_throwT onLeaseSubmit_def leaseTry_def run_simps emit_def e fl formData_def Let_def validDuration_iff split: if_splits)
  next
    case (RegisterForm i)
    then show ?thesis using assms(4,5)
      by (auto simp: run_throwT onRegisterSubmit_def registerTry_def run_simps emit_def e fl formData_def Let_def split: if_splits)
  qed
qed

section \<open>Errors without a notice\<close>

fun form_try :: "env \<Rightarrow> form \<Rightarrow> jstring option \<Rightarrow> unit wproc" where
  "form_try E (CreateForm i) sub = createSlotTry E (CreateForm i)"
| "form_try E (StatusForm i) sub = slotStatusTry E (StatusForm i) sub"
| "form_try E (LeaseForm i) sub = leaseTry E (LeaseForm i)"
| "form_try E (RegisterForm i) sub = registerTry E (RegisterForm i)"

text \<open>Every form ends by showing what its \<open>try\<close> block threw.\<close>

lemma form_failed:
  assumes "run (form_try E f sub) (log_event PreventDefault s) = (Inl e, s1)"
  shows "run (handler E (OnSubmit f) sub) s = failure_shown E (notice_place f) e (console f e s1)"
  using assms
  by (cases f) (simp_all add: onCreateSlotSubmit_def onSlotStatusSubmit_def onLeaseSubmit_def onRegisterSubmit_def run_simps
      emit_def run_flashError)

lemma prototype_text:
  "m \<in> set object_prototype \<Longrightarrow> cat m = None \<Longrightarrow> i18n_t (Some cat) m args = Inl TextReplaceIsNotAFunction"
  by (simp add: i18n_t_def lookup_text_def)

lemma flashes_console [simp]: "flashes (console f e s) = flashes s"
  by (cases f) simp_all

lemma unshown_error:
  assumes "run (form_try E f sub) (log_event PreventDefault s) = (Inl e, s1)" "\<not> ex_nullish e"
    and "e_messages E = Some cat" "orElse (ex_message e) (ex_string e) \<in> set object_prototype" "cat (orElse (ex_message e) (ex_string e)) = None"
  shows "run (handler E (OnSubmit f) sub) s = (Inl (e_typeError E (lit ''text.replace'')), console f e s1)"
  unfolding form_failed [OF assms(1)] failure_shown_def using assms(2-5) by (simp add: prototype_text)

end
