(* ===== verification/WalletRaces.thy ===== *)
theory WalletRaces
  imports WalletRely WalletLive WalletErrors
begin

text \<open>
  What interleaving can spoil. The script keeps the account and the client in module variables that it reads
  again after each await, and neither connecting the wallet nor connecting the client is guarded by a shared
  promise. Three schedules show the consequences: a message named after one account is sent from another, an
  account is registered whose badge was never verified, and the client is connected twice. The hypothesis
  \<open>one_account\<close> excludes the first two, the absence of a second handler all three.
\<close>

section \<open>The user switches accounts\<close>

definition alice :: jstring where "alice = lit ''congrid1alice''"
definition bob :: jstring where "bob = lit ''congrid1bob''"

fun is_accounts :: "event \<Rightarrow> bool" where
  "is_accounts (GetAccounts _ _) = True"
| "is_accounts _ = False"

text \<open>The extension reports \<open>alice\<close> first and \<open>bob\<close> from then on.\<close>

definition switch_env :: env where
  "switch_env = demo_env
     \<lparr>e_getAccounts := (\<lambda>h _. Inr (Some [if list_ex is_accounts h then bob else alice])),
      e_keplr := (\<lambda>_. Some \<lparr>has_suggest = False, has_getOfflineSigner = True\<rparr>)\<rparr>"

text \<open>
  The user submits the status form and presses Connect while the extension is still answering. Both ask
  for the accounts; the form is told \<open>alice\<close> and builds its message; then the button is told \<open>bob\<close>; then the
  form broadcasts.
\<close>

definition switch_schedule :: "action list" where
  "switch_schedule =
     [Begin (OnSubmit (StatusForm 0)) None, Begin (OnConnect 0) None,
      Turn 0, Turn 1, Turn 0, Turn 1, Turn 0, Turn 0, Turn 1] @ replicate 7 (Turn 0)"

fun sent_for_other :: "event \<Rightarrow> bool" where
  "sent_for_other (SignAndBroadcast c a [m] fee memo r) = (a = bob \<and> msg_sender m = alice)"
| "sent_for_other _ = False"

lemma switch_run:
  "list_ex sent_for_other (tr (snd (fold (perform switch_env) switch_schedule ([], page_load switch_env demo_page))))"
  by code_simp

section \<open>The user switches accounts while a registration is verified\<close>

definition register_env :: env where
  "register_env = switch_env\<lparr>e_formData := (\<lambda>_ _. map_of [(lit ''domain'', lit ''example.org''), (lit ''wallet'', alice)])\<rparr>"

text \<open>
  The registration form names \<open>alice\<close>, who is connected when it is checked; while the site verifies the badge for
  \<open>alice\<close>, the Connect button is told \<open>bob\<close>; the owner of the message is read after that.
\<close>

definition register_schedule :: "action list" where
  "register_schedule =
     [Begin (OnSubmit (RegisterForm 0)) None, Begin (OnConnect 0) None,
      Turn 0, Turn 1, Turn 0, Turn 1, Turn 0, Turn 0, Turn 1, Turn 1] @ replicate 10 (Turn 0)"

fun registers :: "jstring \<Rightarrow> event \<Rightarrow> bool" where
  "registers b (SignAndBroadcast c a [m] fee memo r) = (a = b \<and> m = registerMsg b (lit ''example.org'') [])"
| "registers b _ = False"

fun verified_only_for :: "jstring \<Rightarrow> event \<Rightarrow> bool" where
  "verified_only_for w (Fetch rq r) = (fetch_body rq = verify_body (lit ''example.org'') w)"
| "verified_only_for w _ = True"

lemma register_run:
  "case fold (perform register_env) register_schedule ([], page_load register_env demo_page) of (ms, s) \<Rightarrow>
     list_ex (registers bob) (tr s) \<and> list_all (verified_only_for alice) (tr s)"
  by code_simp

lemma verified_only: "list_all (verified_only_for b) es \<Longrightarrow> ev \<in> set es \<Longrightarrow> asked ev domain w q \<Longrightarrow> w = b"
  by (auto simp: list_all_iff asked_def verify_body_inj dest!: bspec)

section \<open>Two submissions at once\<close>

text \<open>The first client that connects is number 11, the next one number 12.\<close>

definition double_env :: env where
  "double_env = switch_env\<lparr>e_connect := (\<lambda>h _ _ _ _. Inr (if list_ex client_ok h then 12 else 11))\<rparr>"

definition double_schedule :: "action list" where
  "double_schedule =
     [Begin (OnSubmit (StatusForm 0)) None, Begin (OnSubmit (StatusForm 0)) None] @ concat (replicate 7 [Turn 0, Turn 1])
       @ [Turn 0]"

lemma double_run:
  "case fold (perform double_env) double_schedule ([], page_load double_env demo_page) of (ms, s) \<Rightarrow>
     case perform double_env (Turn 1) (ms, s) of (ms', s') \<Rightarrow>
       st_client s = Some 11 \<and> st_client s' = Some 12 \<and> length (filter client_ok (tr s')) = 2"
  by code_simp

lemma double_weave:
  obtains ms s ms' s' where "weave double_env demo_page ms s" "(page_step double_env)\<^sup>*\<^sup>* (ms, s) (ms', s')"
    "st_client s = Some 11" "st_client s' = Some 12" "length (filter client_ok (tr s')) = 2"
proof -
  obtain ms s where r: "fold (perform double_env) double_schedule ([], page_load double_env demo_page) = (ms, s)" by force
  obtain ms' s' where r': "perform double_env (Turn 1) (ms, s) = (ms', s')" by force
  have "(page_step double_env)\<^sup>*\<^sup>* (ms, s) (ms', s')" using perform_step [of double_env "(ms, s)" "Turn 1"] r' by simp
  with perform_weave [OF r] double_run r r' that show thesis by simp
qed

lemma demo_fresh: "fresh_page demo_page"
  by (simp add: fresh_page_def demo_page_def)

section \<open>One submission alone\<close>

text \<open>The form pauses a slot.\<close>

definition demo_addr :: jstring where "demo_addr = lit ''congrid1abcdefghijklmnopqrst''"

definition demo_msg :: encode_object where "demo_msg = updateStatusMsg demo_addr (lit ''slot-1'') 2"

definition demo_tx_fee :: std_fee where
  "demo_tx_fee = \<lparr>fee_amount = lit ''350'', fee_denom = lit ''ucongrid'', fee_gas = lit ''140000''\<rparr>"

fun is_demo_tx :: "event \<Rightarrow> bool" where
  "is_demo_tx (SignAndBroadcast c a msgs fee memo r) = (a = demo_addr \<and> msgs = [demo_msg] \<and> fee = demo_tx_fee \<and> memo = [])"
| "is_demo_tx _ = False"

definition single_schedule :: "action list" where
  "single_schedule = Begin (OnSubmit (StatusForm 0)) None # replicate 12 (Turn 0)"

lemma single_run:
  "list_ex is_demo_tx (tr (snd (fold (perform demo_env) single_schedule ([], page_load demo_env demo_page))))"
  by code_simp

lemma registration_run:
  "list_ex (registers demo_addr) (tr (snd (fold (perform demo_env) (Begin (OnSubmit (RegisterForm 0)) None # replicate 14 (Turn 0))
     ([], page_load demo_env demo_page))))"
  by code_simp

lemma demo_one_account: "one_account demo_env demo_addr"
  by (auto simp: one_account_def demo_env_def demo_addr_def)

lemma schedule_reaches:
  assumes "list_ex P (tr (snd (fold (perform E) as ([], page_load E s0))))"
  shows "\<exists>ms s before ev after. weave E s0 ms s \<and> tr s = before @ ev # after \<and> P ev"
proof -
  obtain ms s where r: "fold (perform E) as ([], page_load E s0) = (ms, s)" by force
  then obtain ev where "P ev" "ev \<in> set (tr s)" using assms by (auto simp: list_ex_iff)
  with perform_weave [OF r] show ?thesis by (blast dest: split_list)
qed

end
