(* ===== verification/WalletTx.thy ===== *)
theory WalletTx
  imports SigningFacts AccountFacts WalletRaces
begin

text \<open>
  From the form to the bytes the node gets: a broadcast that some interleaving of the page's handlers makes
  (\<open>WalletRely\<close>), carried out by the signing client of the bundle (\<open>Signing\<close>), hands the node a transaction from
  which the chain reads exactly the message the form asked for.
\<close>

section \<open>A message is no longer than its bytes\<close>

lemma carries_str: "n \<le> wlen w \<Longrightarrow> n + utf8_length s \<le> wlen (str_field tag s w)"
  by (simp add: str_field_def string_def Let_def)

lemma carries_num: "n \<le> wlen w \<Longrightarrow> n \<le> wlen (long_field tag v w)" "n \<le> wlen w \<Longrightarrow> n \<le> wlen (int32_field tag k w)"
  by (simp_all add: long_field_def int32_field_def int64_def int32_def Let_def)

lemma carries_tags:
  "n \<le> wlen w \<Longrightarrow> n + sum_list (map utf8_length vs) \<le> wlen (fold (\<lambda>v w. string v (uint32 t w)) vs w)"
proof (induction vs arbitrary: n w)
  case (Cons v vs)
  have "n + utf8_length v \<le> wlen (string v (uint32 t w))" using Cons.prems by (simp add: string_def Let_def)
  from Cons.IH [OF this] show ?case by (simp add: add.assoc)
qed simp

lemmas carries = carries_str carries_num carries_tags

lemma create_slot_size:
  assumes "small (finish (MsgCreateSlot_encode m create))" shows "encodable_CreateSlot m"
proof -
  have "0 + utf8_length (cs_publisher m) + utf8_length (cs_domain m) + utf8_length (cs_label m) + utf8_length (cs_summary m)
      + utf8_length (cs_category m) + utf8_length (cs_placement m) + utf8_length (cs_size m) + utf8_length (cs_rateDenom m)
      + utf8_length (cs_rateAmount m) + sum_list (map utf8_length (cs_tags m)) \<le> wlen (MsgCreateSlot_encode m create)"
    unfolding MsgCreateSlot_encode_def Let_def by (intro carries) simp
  moreover have "utf8_length t \<le> sum_list (map utf8_length (cs_tags m))" if "t \<in> set (cs_tags m)" for t
    using that by (intro member_le_sum_list) auto
  ultimately show ?thesis using assms by (fastforce simp: small_def length_finish encodable_CreateSlot_def short_def list_all_iff)
qed

lemma update_status_size:
  assumes "small (finish (MsgUpdateSlotStatus_encode m create))" "0 \<le> us_status m" "us_status m < 2 ^ 31"
  shows "encodable_UpdateSlotStatus m"
proof -
  have "0 + utf8_length (us_publisher m) + utf8_length (us_slotId m) \<le> wlen (MsgUpdateSlotStatus_encode m create)"
    unfolding MsgUpdateSlotStatus_encode_def Let_def by (intro carries) simp
  with assms show ?thesis by (simp add: small_def length_finish encodable_UpdateSlotStatus_def short_def)
qed

lemma lease_slot_size:
  assumes "small (finish (MsgLeaseSlot_encode m create))" shows "encodable_LeaseSlot m"
proof -
  have "0 + utf8_length (ls_lessee m) + utf8_length (ls_slotId m) + utf8_length (ls_targetUrl m) \<le> wlen (MsgLeaseSlot_encode m create)"
    unfolding MsgLeaseSlot_encode_def Let_def by (intro carries) simp
  with assms show ?thesis by (simp add: small_def length_finish encodable_LeaseSlot_def short_def)
qed

lemma register_publisher_size:
  assumes "small (finish (MsgRegisterPublisher_encode m create))" shows "encodable_RegisterPublisher m"
proof -
  have "0 + utf8_length (rp_owner m) + utf8_length (rp_domain m) + utf8_length (rp_metadataUri m) + utf8_length (rp_proof m)
      + utf8_length (rp_verifier m) + utf8_length (rp_referrer m) \<le> wlen (MsgRegisterPublisher_encode m create)"
    unfolding MsgRegisterPublisher_encode_def Let_def by (intro carries) simp
  with assms show ?thesis by (simp add: small_def length_finish encodable_RegisterPublisher_def short_def)
qed

text \<open>So the registry is right on every message whose bytes are few enough.\<close>

definition status_in_range :: "encode_object \<Rightarrow> bool" where
  "status_in_range m \<longleftrightarrow> (\<forall>x. intended (msgValue m) = CUpdateSlotStatus x \<longrightarrow> 0 \<le> us_status x \<and> us_status x < 2 ^ 31)"

lemma small_sendable:
  assumes "well_typed m" "registry_encode (walletRegistry ds) m = Inr bs" "small bs" "status_in_range m"
  shows "sendable (msgValue m)"
  using assms
  by (auto simp: well_typed_def registry_encode_def sendable_def status_in_range_def intended_def split: msg_value.splits
      intro: create_slot_size update_status_size lease_slot_size register_publisher_size)

lemma small_chain:
  assumes "well_typed m" "encodeAsAny (walletRegistry ds) m = Inr y" "small (any_value y)" "status_in_range m"
  shows "chain_decode (any_typeUrl y) (any_value y) = Some (intended (msgValue m))"
proof -
  obtain bs where bs: "registry_encode (walletRegistry ds) m = Inr bs" "y = \<lparr>any_typeUrl = typeUrl m, any_value = bs\<rparr>"
    using assms(2) by (auto simp: encodeAsAny_def split: sum.splits encode_error.splits)
  with registry_chain [OF assms(1) small_sendable [OF assms(1) bs(1) _ assms(4)], of ds] assms(3) show ?thesis by simp
qed

lemma contents_in_range:
  "create_content E h f b m g \<Longrightarrow> status_in_range m" "status_content E h f sub b m g \<Longrightarrow> status_in_range m"
  "lease_content E h f b m g \<Longrightarrow> status_in_range m" "register_content E h f b w d m g \<Longrightarrow> status_in_range m"
  unfolding create_content_def status_content_def lease_content_def register_content_def status_in_range_def action_codes_def
  by (elim exE conjE, simp)+ auto

lemma requested_typed: "requested E es b m g \<Longrightarrow> well_typed m \<and> status_in_range m"
  unfolding requested_def by (elim disjE exE conjE) (simp_all add: contents_named contents_in_range)

section \<open>End to end\<close>

lemma chain_receives:
  assumes "weave E s0 ms s" "fresh_page s0" "tr s = before @ SignAndBroadcast c a msgs fee memo r # after"
    and "signAndBroadcast N (walletRegistry ds) a msgs fee memo cs = Some (r', cs')" "n_direct N" "cl_tr cs' = cl_tr cs @ es"
    and "es = es1 @ BroadcastTxSync bs reply # es2" "list_all reply_ok es1" "gas_ok fee" "small bs"
  shows "\<exists>m g y key acc chainId gas sig. msgs = [m] \<and> requested E before (msg_sender m) m g \<and> fee_for E g fee
    \<and> read_tx bs = Some (tx_body_of [y] [], auth_of key (acc_sequence acc) fee gas, [sig])
    \<and> chain_decode (any_typeUrl y) (any_value y) = Some (intended (msgValue m))
    \<and> Int53_fromString (fee_gas fee) = Inr gas \<and> facts_of a (cl_chainId cs) es1 key acc chainId"
proof -
  from weave_lawful [OF assms(1-3)] obtain m g where m: "msgs = [m]" "memo = []" "fee_for E g fee"
    "requested E before (msg_sender m) m g" by blast
  from tx_received [OF assms(4-10)] obtain anys key acc chainId gas sig where
    t: "map_sum_list (encodeAsAny (walletRegistry ds)) msgs = Inr anys" "Int53_fromString (fee_gas fee) = Inr gas"
      "read_tx bs = Some (tx_body_of anys memo, auth_of key (acc_sequence acc) fee gas, [sig])" "list_all any_ok anys"
      "facts_of a (cl_chainId cs) es1 key acc chainId" by blast
  from t(1) obtain y where y: "encodeAsAny (walletRegistry ds) m = Inr y" "anys = [y]" by (auto simp: m(1) split: sum.splits)
  have "small (any_value y)" using t(4) y(2) by (simp add: any_ok_def)
  with requested_typed [OF m(4)] y(1) have "chain_decode (any_typeUrl y) (any_value y) = Some (intended (msgValue m))"
    by (intro small_chain) simp_all
  then show ?thesis using m(1,3,4) t(2,5) t(3) [unfolded m(2) y(2)] by blast
qed

section \<open>A concrete transaction\<close>

text \<open>The demo page pauses a slot; the node and the signer cooperate.\<close>

definition demo_account :: chain_account where "demo_account = \<lparr>acc_accountNumber = 5, acc_sequence = 9\<rparr>"

text \<open>The account as the chain sends it.\<close>

definition demo_base :: base_account where
  "demo_base = \<lparr>ba_address = demo_addr, ba_pubKey = key_any (SingleKey (SecpKey (2 # replicate 32 7))), ba_accountNumber = 5, ba_sequence = 9\<rparr>"

definition demo_chain_reply :: abci_reply where
  "demo_chain_reply = chain_reply (PlainAccount demo_base) 100"

lemma demo_base_readable: "base_account_readable demo_base"
proof -
  have "readable_str demo_addr" by (simp add: readable_str_def short_def demo_addr_def lit_def)
  moreover have "deliverable any_readable any_fields (single_any (SecpKey (2 # replicate 32 7)))" by (rule deliverable_single) simp
  ultimately show ?thesis by (simp add: base_account_readable_def demo_base_def u64_def)
qed

text \<open>The same account, vesting in two periods.\<close>

definition demo_vesting :: base_vesting where
  "demo_vesting = \<lparr>bv_baseAccount = Some demo_base, bv_originalVesting = [\<lparr>coin_denom = lit ''ucongrid'', coin_amt = lit ''500''\<rparr>],
     bv_delegatedFree = [], bv_delegatedVesting = [], bv_endTime = 1800000000\<rparr>"

definition demo_periodic :: periodic_vesting where
  "demo_periodic = \<lparr>pv_baseVestingAccount = Some demo_vesting, pv_startTime = - 1,
     pv_vestingPeriods = [\<lparr>pd_length = 86400, pd_amount = []\<rparr>, \<lparr>pd_length = 3600, pd_amount = []\<rparr>]\<rparr>"

lemma demo_periodic_readable: "periodic_vesting_readable demo_periodic"
proof -
  have "length (wire_bytes (base_account_fields demo_base)) < 1000" "length (wire_bytes (base_vesting_fields demo_vesting)) < 1000"
    "list_all (\<lambda>p. length (wire_bytes (period_fields p)) < 1000) (pv_vestingPeriods demo_periodic)"
    "list_all (\<lambda>c. length (wire_bytes (coin_fields c)) < 1000) (bv_originalVesting demo_vesting)" by code_simp+
  moreover have "readable_str (lit ''ucongrid'')" "readable_str (lit ''500'')" by (simp_all add: readable_str_def short_def lit_def)
  ultimately show ?thesis using demo_base_readable
    by (simp add: periodic_vesting_readable_def base_vesting_readable_def period_readable_def deliverable_def coin_readable_def
        small_def s64_def demo_periodic_def demo_vesting_def)
qed

lemma demo_deliverable:
  "deliverable any_readable any_fields (account_any (PlainAccount demo_base))"
  "deliverable any_readable any_fields (account_any (PeriodicVesting demo_periodic))"
  "deliverable any_readable any_fields (account_any (PlainAccount (demo_base\<lparr>ba_sequence := 2 ^ 53\<rparr>)))"
proof -
  have "length (wire_bytes (base_account_fields demo_base)) < 1000" "length (wire_bytes (periodic_vesting_fields demo_periodic)) < 1000"
    "length (wire_bytes (base_account_fields (demo_base\<lparr>ba_sequence := 2 ^ 53\<rparr>))) < 1000" by code_simp+
  then show "deliverable any_readable any_fields (account_any (PlainAccount demo_base))"
    "deliverable any_readable any_fields (account_any (PeriodicVesting demo_periodic))"
    "deliverable any_readable any_fields (account_any (PlainAccount (demo_base\<lparr>ba_sequence := 2 ^ 53\<rparr>)))"
    by (intro deliverable_any; simp)+
qed

lemma demo_reports: "account_in demo_chain_reply = Some demo_account"
proof -
  have "answered demo_chain_reply (account_any (PlainAccount demo_base))"
    unfolding demo_chain_reply_def by (rule chain_reply_answered [OF demo_deliverable(1)]) simp
  from answered_account [OF this] show ?thesis
    using accountFromAny_reads [of "PlainAccount demo_base" demo_base "SingleKey (SecpKey (2 # replicate 32 7))"] demo_base_readable
    by (simp add: demo_account_def) (simp add: demo_base_def)
qed

definition demo_signer :: signer_account where
  "demo_signer = \<lparr>sa_address = demo_addr, sa_pubkey = 2 # replicate 32 7\<rparr>"

definition demo_signature :: "byte list" where "demo_signature = replicate 64 1"

definition demo_reply :: sync_reply where
  "demo_reply = \<lparr>sync_code = 0, sync_codespace = [], sync_log = [], sync_hash = [171, 205]\<rparr>"

definition demo_net :: network where
  "demo_net = \<lparr>n_abci = (\<lambda>_ _ _. Inr demo_chain_reply), n_status = (\<lambda>_. Inr (lit ''congrid-main'')), n_direct = True,
     n_accounts = (\<lambda>_. Inr [demo_signer]), n_signDirect = (\<lambda>_ _ doc. Inr (doc, toBase64 demo_signature)),
     n_signAmino = (\<lambda>_ _. Inl (newError [])), n_broadcast = (\<lambda>_ _. Inr demo_reply),
     n_search = (\<lambda>_ _. Inr [\<lparr>found_code = 0, found_log = []\<rparr>]), n_timedOut = (\<lambda>h. 60000 \<le> 3000 * sleeps h)\<rparr>"

lemma demo_timers: "timers_in_order demo_net 60000 3000"
  by (simp add: timers_in_order_def demo_net_def)

lemma demo_cooperates:
  "cooperative demo_net demo_addr demo_chain_reply demo_account (lit ''congrid-main'') demo_signer (toBase64 demo_signature) demo_signature
     demo_reply \<lparr>found_code = 0, found_log = []\<rparr>"
  using demo_reports by (simp add: cooperative_def demo_net_def demo_signer_def demo_reply_def lit_def)

definition demo_any :: any where
  "demo_any = \<lparr>any_typeUrl = url_UpdateSlotStatus, any_value = finish (MsgUpdateSlotStatus_encode
     \<lparr>us_publisher = demo_addr, us_slotId = lit ''slot-1'', us_status = 2\<rparr> create)\<rparr>"

definition demo_client :: client_state where
  "demo_client = \<lparr>cl_chainId = None, cl_tr = []\<rparr>"

lemma demo_anys: "map_sum_list (encodeAsAny (walletRegistry ds)) [demo_msg] = Inr [demo_any]"
  by (simp add: demo_msg_def updateStatusMsg_def encodeAsAny_def registry_encode_def demo_any_def
      MsgUpdateSlotStatus_fromPartial_def orEmpty_def)

lemma demo_gas_limit: "Int53_fromString (fee_gas demo_tx_fee) = Inr 140000"
  by code_simp

definition demo_doc :: sign_doc where
  "demo_doc = made_doc [demo_any] [] (sa_pubkey demo_signer) demo_account demo_tx_fee 140000 (lit ''congrid-main'')"

lemma length_made_tx:
  "length (made_tx doc sig) \<le> 30 + length (sd_bodyBytes doc) + length (sd_authInfoBytes doc) + length sig"
  using varint32_len_le [of 10] varint32_len_le [of 18] varint32_len_le [of 26] varint32_len_le [of "of_nat (length (sd_bodyBytes doc))"]
    varint32_len_le [of "of_nat (length (sd_authInfoBytes doc))"] varint32_len_le [of "of_nat (length sig)"]
  by (simp add: made_tx_def length_finish TxRaw_encode_def bytes_field_def bin_bytes_def Let_def bcreate_def)

lemma demo_lengths:
  "wlen (TxBody_encode (tx_body_of [demo_any] []) bcreate) < 200"
  "wlen (AuthInfo_encode (auth_of (sa_pubkey demo_signer) (acc_sequence demo_account) demo_tx_fee 140000) bcreate) < 200"
  by code_simp+

lemma demo_small: "small (made_tx demo_doc demo_signature)"
  using length_made_tx [of demo_doc demo_signature] demo_lengths
  by (simp add: small_def demo_doc_def made_doc_def makeSignDoc_def length_finish demo_signature_def)

definition demo_calls :: ctrace where
  "demo_calls = [AccountQuery demo_addr (Inr demo_chain_reply), QueryStatus (Inr (lit ''congrid-main'')),
     SignerAccounts (Inr [demo_signer]), SignDirect demo_addr demo_doc (Inr (demo_doc, toBase64 demo_signature)), StartTimer 60000]"

lemma demo_calls_ok: "list_all reply_ok demo_calls"
  using demo_reports by (auto simp: demo_calls_def demo_account_def u64_ok_def)

lemma demo_call:
  "\<exists>r s' es2. signAndBroadcast demo_net (walletRegistry []) demo_addr [demo_msg] demo_tx_fee [] demo_client = Some (r, s')
     \<and> cl_tr s' = cl_tr demo_client @ demo_calls @ BroadcastTxSync (made_tx demo_doc demo_signature) (Inr demo_reply) # es2"
proof -
  have "cl_chainId demo_client = None \<or> cl_chainId demo_client = Some (lit ''congrid-main'')" by (simp add: demo_client_def)
  note c = call_succeeds [OF demo_cooperates this demo_anys demo_gas_limit, where memo = "[]", folded demo_doc_def]
  show ?thesis unfolding c by (simp add: demo_calls_def status_calls_def demo_client_def)
qed

end
