(* ===== verification/LanguageMenu.thy ===== *)
theory LanguageMenu
  imports JsString
begin

text \<open>
  \<open>static/language-menu.js\<close>: the \<open>details.language-switch\<close> element of the navigation bar and the two
  document listeners that close it. The browser itself toggles a \<open>details\<close> element when its
  summary is activated; that is the event \<open>Toggle\<close>. The listeners are installed only when the page
  has the menu. A menu without a \<open>summary\<close> makes the focus call throw after the menu was closed.
\<close>

record language_menu =
  menu_open :: bool
  summary_focused :: bool
  has_summary :: bool

text \<open>\<open>Click inside\<close> tells whether the target lies inside the menu.\<close>

datatype menu_event = Click bool | Keydown jstring | Toggle

datatype menu_error = FocusOfNull

definition onClick :: "bool \<Rightarrow> language_menu \<Rightarrow> language_menu" where
  "onClick inside m = (if \<not> inside then m\<lparr>menu_open := False\<rparr> else m)"

definition onKeydown :: "jstring \<Rightarrow> language_menu \<Rightarrow> (menu_error + unit) \<times> language_menu" where
  "onKeydown key m =
     (if key = lit ''Escape'' \<and> menu_open m then
        (let m = m\<lparr>menu_open := False\<rparr>
         in if has_summary m then (Inr (), m\<lparr>summary_focused := True\<rparr>) else (Inl FocusOfNull, m))
      else (Inr (), m))"

text \<open>\<open>None\<close> is a page without the menu, where no listener exists.\<close>

definition menu_step :: "menu_event \<Rightarrow> language_menu option \<Rightarrow> language_menu option" where
  "menu_step e page =
     (case page of
        None \<Rightarrow> None
      | Some m \<Rightarrow>
          Some (case e of
                  Click inside \<Rightarrow> onClick inside m
                | Keydown key \<Rightarrow> snd (onKeydown key m)
                | Toggle \<Rightarrow> m\<lparr>menu_open := \<not> menu_open m\<rparr>))"

inductive menu_reachable :: "language_menu option \<Rightarrow> language_menu option \<Rightarrow> bool" where
  start: "menu_reachable m m"
| step: "menu_reachable m m' \<Longrightarrow> menu_reachable m (menu_step e m')"

text \<open>Only \<open>Toggle\<close> opens the menu.\<close>

lemma menu_opened_by_toggle:
  "menu_step e (Some m) = Some m' \<Longrightarrow> \<not> menu_open m \<Longrightarrow> menu_open m' \<Longrightarrow> e = Toggle"
  by (auto simp: menu_step_def onClick_def onKeydown_def Let_def split: menu_event.splits if_splits)

lemma menu_reachable_invariant:
  "menu_reachable (Some m) p \<Longrightarrow> \<exists>m'. p = Some m' \<and> has_summary m' = has_summary m"
  by (induction "Some m" p rule: menu_reachable.induct)
     (auto simp: menu_step_def onClick_def onKeydown_def Let_def split: menu_event.splits)

fun closes :: "menu_event \<Rightarrow> bool" where
  "closes (Click inside) = (\<not> inside)"
| "closes (Keydown key) = (key = lit ''Escape'')"
| "closes Toggle = False"

lemma menu_step_closes: "closes e \<Longrightarrow> menu_step e (Some m) = Some m' \<Longrightarrow> \<not> menu_open m'"
  by (cases e) (auto simp: menu_step_def onClick_def onKeydown_def Let_def split: if_splits)

text \<open>After a closing event the menu stays closed until the user toggles it.\<close>

lemma menu_stays_closed:
  "\<not> menu_open m \<Longrightarrow> Toggle \<notin> set es \<Longrightarrow> \<exists>m'. fold menu_step es (Some m) = Some m' \<and> \<not> menu_open m'"
proof (induction es arbitrary: m)
  case (Cons e es)
  obtain m1 where m1: "menu_step e (Some m) = Some m1" by (simp add: menu_step_def)
  with Cons.prems have "\<not> menu_open m1" using menu_opened_by_toggle by fastforce
  with Cons m1 show ?case by simp
qed auto

end
