(* ===== verification/Spec2Isabelle.thy ===== *)
theory Spec2Isabelle
  imports WalletTx LanguageMenu
begin

text \<open>
  The browser wallet of the Congrid site (\<open>cmd/congrid-site/static\<close>).

  The chain itself is a Cosmos application written in Go. Users reach it through the pages of
  \<open>congrid-site\<close>, whose script \<open>wallet.js\<close> connects the Keplr extension, turns forms into protobuf messages
  of the registry module and has the client of \<open>wallet-deps.bundle.mjs\<close> sign and broadcast them. This library
  models that script, the scripts beside it and the part of the bundle a transaction runs through.

  Theories, bottom up:

  \<^item> \<open>Prelude\<close>: effectful routines (a state, awaits, a result or a thrown value), weakest preconditions and
    invariants of routines. \<open>Tasks\<close>: routines interleaved at their awaits, rely and guarantee.
  \<^item> \<open>JsString\<close>, \<open>JsNumber\<close>, \<open>JsJson\<close>: what the scripts use of JavaScript: strings of 16-bit units (\<open>trim\<close>, \<open>split\<close>,
    \<open>includes\<close>, \<open>toLowerCase\<close>), numbers as binary64 values (rounding, \<open>Number(string)\<close>, \<open>String(number)\<close>, \<open>Date.UTC\<close>),
    \<open>JSON.stringify\<close>.
  \<^item> \<open>Proto\<close>, \<open>Wire\<close>: the protobuf writer of the bundle (\<open>Writer\<close>, \<open>LongBits\<close>, \<open>utf8\<close>, \<open>Long\<close>), and a reader of the wire
    format, against which both writers are proved.
  \<^item> \<open>WalletMsgs\<close>, \<open>WalletChain\<close>: \<open>makeMsgCreateSlot\<close>, \<open>makeMsgUpdateSlotStatus\<close>, \<open>makeMsgLeaseSlot\<close>,
    \<open>makeMsgRegisterPublisher\<close>, the registry \<open>loadWalletDeps\<close> builds, and what the chain reads. The locale
    \<open>message_codec\<close> is the contract of a codec; each message type interprets it.
  \<^item> \<open>Binary\<close>, \<open>TxCodec\<close>, \<open>TxSize\<close>, \<open>Base64\<close>: the second writer of the bundle (\<open>BinaryWriter\<close>, nested messages, 64-bit
    integers), the codecs of a transaction (\<open>Any\<close> to \<open>TxRaw\<close>), bounds on sizes, \<open>toBase64\<close> and \<open>fromBase64\<close>. The
    contracts \<open>binary_codec\<close> and, extending it, \<open>sized_codec\<close> are interpreted for every type.
  \<^item> \<open>Reader\<close>: \<open>BinaryReader\<close> of the bundle, the loop of every \<open>decode\<close>, skipping of unknown fields and groups.
    \<open>ReaderVarint\<close>, \<open>ReaderDecimal\<close>, \<open>ReaderText\<close>: its numbers and its text, on every buffer. \<open>ReaderCodec\<close>: the locale
    \<open>wire_decoder\<close>, the contract of a decoder: it reads back what the chain encodes, also when unknown fields follow.
  \<^item> \<open>Accounts\<close>, \<open>AccountFacts\<close>: the account query, the codecs of the six account types and of the public keys,
    \<open>decodeOptionalPubkey\<close>, \<open>accountFromAny\<close>. Every decoder interprets \<open>wire_decoder\<close>.
  \<^item> \<open>Fee\<close>: \<open>GasPrice.fromString\<close>, \<open>calculateFee\<close> and the \<open>Decimal\<close>, \<open>Uint53\<close> and \<open>coin\<close> code they call.
  \<^item> \<open>I18n\<close>: \<open>CongridI18n.t\<close> of \<open>i18n.js\<close>. \<open>LanguageMenu\<close>: the listeners of \<open>language-menu.js\<close>.
  \<^item> \<open>WalletEnv\<close>: the state of \<open>wallet.js\<close> (record \<open>wallet\<close>) and the outside world (record \<open>env\<close>).
    \<open>Wallet\<close>: the functions from \<open>dependencyLoadMessage\<close> to \<open>submitTx\<close>. \<open>WalletForms\<close>: the listeners
    (\<open>bindConnectButtons\<close> to \<open>bindPublisherRegisterForms\<close>), \<open>initWalletUI\<close>, the life of a page.
  \<^item> \<open>WalletRules\<close>, \<open>WalletSafety\<close>, \<open>WalletPage\<close>, \<open>WalletFacts\<close>, \<open>WalletErrors\<close>, \<open>WalletLive\<close>: what each form may broadcast, the
    invariants of a page whose handlers run one after the other, errors, and a concrete deployment.
  \<^item> \<open>WalletWeave\<close>, \<open>WalletRely\<close>, \<open>WalletRaces\<close>: the handlers interleaved, the invariant of all interleavings, and three
    schedules that interleaving spoils.
  \<^item> \<open>Signing\<close>, \<open>SigningFacts\<close>: \<open>signAndBroadcast\<close> of the bundle's client (record \<open>client_state\<close>) against the node, the
    signer and the timers (record \<open>network\<close>), and what it guarantees. The account comes from the bytes of the node's
    reply to an ABCI query (\<open>queryAbci\<close>), through the reader and \<open>accountFromAny\<close>.
  \<^item> \<open>WalletTx\<close>: both ends joined, from the form to the bytes the node gets.

  Outside the model: the Keplr extension, the dynamic import, the RPC transport, \<open>fetch\<close>, the clock, \<open>URL\<close>, the form
  fields and the texts of the engine's TypeErrors are fields of \<open>env\<close>; the node, the signer and \<open>setTimeout\<close> are
  fields of \<open>network\<close>. Each reply is an arbitrary function of the whole history of calls, so a theorem for
  every \<open>E\<close> and \<open>N\<close> holds whatever these parties do. For \<open>wallet.js\<close> the call \<open>client.signAndBroadcast\<close> is one event;
  C6 takes the arguments of such an event to the model of the client.

  Interleaving: an await is \<open>Pause\<close>; between pauses a handler runs alone. A reply is fixed when the call is made.
  The loader of the bundle settles on its own or when the first waiter resumes.

  What the properties show: what each form may broadcast and how its handler ends when no other handler comes
  between (C1 to C4); what remains of it over all interleavings, down to the bytes the node gets (C5 to C9, registrations
  C18 and C24), and for a page without interleaving (C10); that valid input goes through
  (C11, C12) and what is reported otherwise (C13, C14); caching of bundle and client (C15 to C17); that polling ends
  (C19); how the account in the node's reply is read, refused or missing (C20 to
  C22); the registry and disabled pages (C23, C25); encodings (C26 to C30); the reader (C31 to
  C33); the fee (C34); numbers and dates a user types (C35 to C38); an error without a notice (C39); the language menu (C40). The
  section \<open>Further facts\<close> at the end has the sequential page as an interleaving, the reloading of the bundle, UTF-8, the
  calendar, dates that do not exist, large rates and the substitution in notices.

  Bounds: strings and nested messages are shorter than 2 ^ 32 bytes, the range of the length prefixes the writers
  compute in 32 bits; for a transaction one bound on the whole is enough. 64-bit numbers of a transaction
  are outside the gap that C30 describes. Text from the chain is shorter than 8192 units or has no high surrogates
  (C32 and \<open>utf8Read_stale\<close>). All recursion is total except the poll loop, a partial function that C19 shows to
  return. The loop of the decoders counts down the bytes left of the message, which are enough because every round
  reads a key (\<open>decode_until_unfold\<close> is the loop of the source without the count).

  Not modelled: the methods of the writers and of the reader that no modelled codec calls, the rest of the bundle (other
  CosmJS modules, the RPC transport with its JSON, cryptography, an embedded
  WebAssembly module that takes 1411 of its 1420 lines), the amino signing path beyond the point where it
  fails for the wallet's messages, the Go chain and servers, stylesheets and templates.
\<close>

text \<open>
  C1. Submitting the create-slot form, with no other handler in between. Whatever the wallet extension, the bundle, the RPC
  node and the form contain, the handler broadcasts at most one transaction. A broadcast carries one message, the
  \<open>MsgCreateSlot\<close> built from the trimmed form fields at one moment of this run, with non-empty domain, label and rate and a
  rate that is a non-negative integer; it is sent from the address the message names (unless the extension reported an
  empty address), with an empty memo and the fee of the configured gas limit. When the \<open>try\<close> block returns, the result
  code was 0, and the handler ends with the success notice and the scheduled reload. When it throws, no reload is
  scheduled, and the handler ends as \<open>failure_shown\<close> says for the thrown value: its text is the error notice, except for \<open>null\<close>,
  \<open>undefined\<close> and texts on which \<open>t\<close> throws, where the handler throws.
\<close>

theorem create_slot_submit:
  "handled E (create_rule E f (tr s)) (lit ''Slot created. Tx: {0}'') (log_event (ReloadAfter 1500)) Document (\<lambda>_ s. s)
     (createSlotTry E f) (onCreateSlotSubmit E f) s"
  by (rule handled_create)

text \<open>
  C2. Submitting the publisher registration form, with no other handler in between. A broadcast is preceded, in this run and
  right after the form was read, by a badge verification request for the same lower-cased domain and the same wallet
  that was answered with \<open>ok: true\<close>; it carries one \<open>MsgRegisterPublisher\<close> whose owner is the connected wallet, which is
  the wallet the form names and the sender, and a referrer that is empty or looks like a Congrid address. A thrown value
  is logged to the console and shown as \<open>failure_shown\<close> says, in the notice element of the form. With interleaving the owner
  can be another account than the one that was verified (\<open>register_race\<close>), unless there is only one
  (\<open>one_account_registration\<close>).
\<close>

theorem register_publisher_submit:
  "handled E (register_rule E f (tr s)) (lit ''Registration submitted; verifier confirmation pending. Tx: {0}'') id (FormNode f)
     (\<lambda>e. log_event (ConsoleError e)) (registerTry E f) (onRegisterSubmit E f) s"
  by (rule handled_register)

text \<open>
  C3. Submitting the lease form, with no other handler in between. A broadcast carries one \<open>MsgLeaseSlot\<close> with a non-empty slot
  id and target URL, a duration that is a positive integer, and a start that is 0 (no date given) or comes from three
  numbers that \<open>Date.UTC\<close> turns into a time at most a day before now, moved five minutes ahead of now when it lies in the
  past. \<open>Date.UTC\<close> also reads dates that do not exist (\<open>nonexistent_date_rolls_over\<close>). It is sent from the lessee unless the
  extension reported an empty address. The ends of the handler are those of the create-slot form.
\<close>

theorem lease_submit:
  "handled E (lease_rule E f (tr s)) (lit ''Lease requested. Tx: {0}'') (log_event (ReloadAfter 1500)) Document (\<lambda>_ s. s)
     (leaseTry E f) (onLeaseSubmit E f) s"
  by (rule handled_lease)

text \<open>
  C4. Submitting the slot status form, with no other handler in between. A broadcast carries one \<open>MsgUpdateSlotStatus\<close> with a
  non-empty slot id and the status of the action: the pressed button's value when a button submitted the form, the action
  field otherwise. It is sent from the publisher it names unless the extension reported an empty address. The ends of the
  handler are those of the create-slot form.
\<close>

theorem slot_status_submit:
  "handled E (status_rule E f sub (tr s)) (lit ''Slot updated. Tx: {0}'') (log_event (ReloadAfter 1500)) Document (\<lambda>_ s. s)
     (slotStatusTry E f sub) (onSlotStatusSubmit E f sub) s"
  by (rule handled_status)



text \<open>
  C6. From the form to the bytes. Take any broadcast that any interleaving of the handlers makes and let the signing
  client of the bundle carry it out. If it hands bytes to the node, then the chain reads from them a transaction
  with exactly one message, the one a form asked for, an empty memo and no options; the fee and gas limit
  computed for that form; and one signer, whose key the signer reported, with the sequence number the node
  reported, and its signature. Assumed: the signer has the direct mode and returns the document it is shown
  unchanged, the sequence and the gas limit are outside the gap of the 64-bit encoder (\<open>uint64_gap\<close>), and the transaction is shorter than 2 ^ 32 bytes.
\<close>

theorem chain_receives_request:
  assumes "weave E s0 ms s" "fresh_page s0" "tr s = before @ SignAndBroadcast c a msgs fee memo r # after"
    and "signAndBroadcast N (walletRegistry ds) a msgs fee memo cs = Some (r', cs')" "n_direct N" "cl_tr cs' = cl_tr cs @ es"
    and "es = es1 @ BroadcastTxSync bs reply # es2" "list_all reply_ok es1" "gas_ok fee" "small bs"
  shows "\<exists>m g y key acc chainId gas sig. msgs = [m] \<and> requested E before (msg_sender m) m g \<and> fee_for E g fee
    \<and> read_tx bs = Some (tx_body_of [y] [], auth_of key (acc_sequence acc) fee gas, [sig])
    \<and> chain_decode (any_typeUrl y) (any_value y) = Some (intended (msgValue m))
    \<and> Int53_fromString (fee_gas fee) = Inr gas \<and> facts_of a (cl_chainId cs) es1 key acc chainId"
  using assms by (rule chain_receives)

theorem chain_receives_request_witness:
  "\<exists>y key sequence gas sig. read_tx (made_tx demo_doc demo_signature)
       = Some (tx_body_of [y] [], auth_of key sequence demo_tx_fee gas, [sig])
     \<and> chain_decode (any_typeUrl y) (any_value y) = Some (intended (msgValue demo_msg))"
proof -
  obtain ms s before ev after where run: "weave demo_env demo_page ms s" "tr s = before @ ev # after" and "is_demo_tx ev"
    using schedule_reaches [OF single_run] by blast
  then obtain c r where ev: "ev = SignAndBroadcast c demo_addr [demo_msg] demo_tx_fee [] r" by (auto elim: is_demo_tx.elims)
  have net: "n_direct demo_net" "gas_ok demo_tx_fee" by (simp_all add: demo_net_def gas_ok_def demo_gas_limit u64_ok_def)
  obtain r' cs' es2 where call: "signAndBroadcast demo_net (walletRegistry []) demo_addr [demo_msg] demo_tx_fee [] demo_client = Some (r', cs')"
    "cl_tr cs' = cl_tr demo_client @ demo_calls @ BroadcastTxSync (made_tx demo_doc demo_signature) (Inr demo_reply) # es2"
    using demo_call by blast
  from chain_receives_request [OF run(1) demo_fresh run(2) [unfolded ev] call(1) net(1) call(2) refl demo_calls_ok net(2) demo_small]
  show ?thesis by (elim exE conjE) auto
qed

text \<open>
  C7. Whatever the node and the signer answer, a call of \<open>signAndBroadcast\<close> sends at most one transaction. Before it, the
  signer was shown the document of exactly the given messages, fee and memo, with the account number and
  sequence the node reported, the chain id and the key the signer reported for the address; what is sent are
  the bytes the signer returned with its signature.
\<close>

theorem only_signed_is_sent:
  assumes "signAndBroadcast N reg a msgs fee memo s = Some (r, s')" "n_direct N" "cl_tr s' = cl_tr s @ es"
    and "es = es1 @ BroadcastTxSync bs reply # es2"
  shows "\<not> list_ex is_send (es1 @ es2)
    \<and> (\<exists>q. bs = finish (TxRaw_encode q bcreate) \<and> signed_as reg a msgs fee memo (cl_chainId s) es1 q)"
  using assms by (rule call_sends)

theorem only_signed_is_sent_witness:
  "\<exists>q. made_tx demo_doc demo_signature = finish (TxRaw_encode q bcreate)
     \<and> signed_as (walletRegistry []) demo_addr [demo_msg] demo_tx_fee [] None demo_calls q"
proof -
  obtain r s' es2 where call: "signAndBroadcast demo_net (walletRegistry []) demo_addr [demo_msg] demo_tx_fee [] demo_client = Some (r, s')"
    "cl_tr s' = cl_tr demo_client @ demo_calls @ BroadcastTxSync (made_tx demo_doc demo_signature) (Inr demo_reply) # es2"
    using demo_call by blast
  have "n_direct demo_net" "cl_chainId demo_client = None" by (simp_all add: demo_net_def demo_client_def)
  with only_signed_is_sent [OF call(1) this(1) call(2) refl] show ?thesis by simp
qed

text \<open>
  C8. As long as the extension reports one account only, every broadcast of every interleaving is sent from that
  account, and its message names it.
\<close>

theorem one_account_senders:
  assumes "weave E s0 ms s" "fresh_page s0" "one_account E x" "SignAndBroadcast c a msgs fee memo r \<in> set (tr s)"
  shows "a = x \<and> (\<exists>m. msgs = [m] \<and> msg_sender m = x)"
proof -
  obtain before after where "tr s = before @ SignAndBroadcast c a msgs fee memo r # after"
    using assms(4) by (blast dest: split_list)
  from weave_lawful [OF assms(1,2) this] show ?thesis using assms(3) by blast
qed

theorem one_account_senders_witness:
  "\<exists>ms s c a msgs fee memo r. weave demo_env demo_page ms s \<and> SignAndBroadcast c a msgs fee memo r \<in> set (tr s)
     \<and> a = demo_addr"
proof -
  obtain ms s before ev after where run: "weave demo_env demo_page ms s" "tr s = before @ ev # after" and "is_demo_tx ev"
    using schedule_reaches [OF single_run] by blast
  then obtain c a msgs fee memo r where ev: "ev = SignAndBroadcast c a msgs fee memo r" by (auto elim: is_demo_tx.elims)
  then have "SignAndBroadcast c a msgs fee memo r \<in> set (tr s)" using run by simp
  with one_account_senders [OF run(1) demo_fresh demo_one_account this] run(1) show ?thesis by blast
qed

text \<open>
  C9. Without that assumption the sender and the named account can differ: the user submits a form and presses
  Connect while the extension is answering, and switches the account in between. The message names the first
  account and is broadcast from the second, because \<open>state.address\<close> is read again after the awaits.
\<close>

theorem account_switch_race:
  "\<exists>ms s c m fee memo r. weave switch_env demo_page ms s \<and> fresh_page demo_page
     \<and> SignAndBroadcast c bob [m] fee memo r \<in> set (tr s) \<and> msg_sender m = alice \<and> alice \<noteq> bob"
proof -
  obtain ms s before ev after where "weave switch_env demo_page ms s" "tr s = before @ ev # after" and "sent_for_other ev"
    using schedule_reaches [OF switch_run] by blast
  moreover from this obtain c m fee memo r where "ev = SignAndBroadcast c bob [m] fee memo r" "msg_sender m = alice"
    by (auto elim: sent_for_other.elims)
  moreover have "alice \<noteq> bob" by (simp add: alice_def bob_def)
  ultimately show ?thesis using demo_fresh
    by (intro exI [of _ ms] exI [of _ s] exI [of _ c] exI [of _ m] exI [of _ fee] exI [of _ memo] exI [of _ r]) simp
qed

text \<open>
  C10. Over the whole life of a page whose handlers run one after the other (loading, then clicks and submits, each answered
  completely before the next, whatever the environment answers), every broadcast carries one message whose type URL
  matches its shape, is sent from the address the message names unless that is empty, with an empty memo and the fee of a gas limit; and a reload is scheduled only when some
  broadcast returned code 0.
\<close>

theorem page_broadcasts_authorised:
  assumes "page_run E s0 s" "tr s0 = []"
  shows "good_page E s"
  using assms(1) by (rule page_run_good) (simp add: good_page_def assms(2))

theorem page_broadcasts_authorised_witness:
  "good_page demo_env (dispatch demo_env (OnSubmit (CreateForm 0)) None (page_load demo_env ready_page)) \<and> tr ready_page = []"
  using page_broadcasts_authorised [OF page_run.event [OF page_run.load], of ready_page demo_env "OnSubmit (CreateForm 0)" None]
  by (simp add: ready_page_def demo_page_def)

text \<open>
  C11. The converse of the safety of the create-slot form: with a connected wallet, a cached client and bundle,
  valid fields, a gas price that parses and a node that answers code 0, the handler returns normally, having
  broadcast exactly the intended message, shown the success notice and scheduled the reload.
\<close>

theorem create_slot_goes_through:
  assumes "cfg_enabled (cfg E)" "wallet_connected s" "st_client s = Some c" "walletDeps s = Some reg"
    and "data = e_formData E (tr s @ [PreventDefault]) f" "rate = toNumber (field data ''rate'')"
    and "field data ''publisher'' \<noteq> []" "field data ''label'' \<noteq> []" "field data ''rate'' \<noteq> []" "validRate rate"
    and "GasPrice_fromString (gas_price_string E) = Inr gp"
    and "calculateFee (numOr (gas_create_slot (cfg E)) 220000) gp = Inr fee"
    and "e_broadcast E (tr s @ [PreventDefault]) c (st_address s) [createSlotMsg E (st_address s) data rate] fee = Inr res"
    and "tx_code res = 0"
    and "i18n_t (e_messages E) (lit ''Slot created. Tx: {0}'') [transactionHash res] = Inr y"
    and "i18n_t (e_messages E) y [] = Inr x"
  shows "run (onCreateSlotSubmit E f) s = (Inr (), log_event (ReloadAfter 1500) (flash_result x False Document
    (log_event (SignAndBroadcast c (st_address s) [createSlotMsg E (st_address s) data rate] fee [] (Inr res))
      (log_event PreventDefault s))))"
  using assms create_slot_success [of E s c reg f gp fee res y x] by simp

theorem create_slot_goes_through_witness:
  "fst (run (onCreateSlotSubmit demo_env (CreateForm 0)) ready_page) = Inr ()
   \<and> map is_broadcast (tr (snd (run (onCreateSlotSubmit demo_env (CreateForm 0)) ready_page))) = [False, True, False]
   \<and> textContent (flashes (snd (run (onCreateSlotSubmit demo_env (CreateForm 0)) ready_page)) ! 0) = lit ''Slot created. Tx: ABCD''"
proof -
  have "run (onCreateSlotSubmit demo_env (CreateForm 0)) ready_page = (Inr (), log_event (ReloadAfter 1500)
      (flash_result (lit ''Slot created. Tx: ABCD'') False Document (log_event (SignAndBroadcast 11 (st_address ready_page)
        [createSlotMsg demo_env (st_address ready_page) (demo_form (CreateForm 0)) (Fin 250)]
        \<lparr>fee_amount = lit ''550'', fee_denom = lit ''ucongrid'', fee_gas = lit ''220000''\<rparr> []
        (Inr \<lparr>tx_code = 0, rawLog = [], transactionHash = lit ''ABCD''\<rparr>)) (log_event PreventDefault ready_page))))"
    by (rule create_slot_goes_through [OF _ _ _ _ _ _ _ _ _ demo_valid demo_gas [folded demo_gas_price]])
       (simp_all add: demo_fields demo_rate demo_note demo_fee i18n_none replace_no_args)
  then show ?thesis by (simp add: flash_result_def)
qed

text \<open>
  C12. The converse: when the node sends an account the client can read, the signer holds a compressed key for it and signs what it is
  shown, and the node accepts and then reports the transaction, the call makes exactly these calls, in
  this order, with the intended document and the bytes made from it, and returns the reported result. \<open>status_calls\<close> is
  the status call of a client that does not know the chain id yet; later calls make none.
\<close>

theorem signing_goes_through:
  fixes memo :: jstring
  assumes "cooperative N a rep acc chainId x signature sig reply tx" "cl_chainId s = None \<or> cl_chainId s = Some chainId"
    and "map_sum_list (encodeAsAny reg) msgs = Inr anys" "Int53_fromString (fee_gas fee) = Inr gas"
    and "doc = made_doc anys memo (sa_pubkey x) acc fee gas chainId" "hash = toUpperHex (sync_hash reply)"
  shows "signAndBroadcast N reg a msgs fee memo s =
    Some (Inr \<lparr>tx_code = found_code tx, rawLog = found_log tx, transactionHash = hash\<rparr>,
      \<lparr>cl_chainId = Some chainId, cl_tr = cl_tr s @ [AccountQuery a (Inr rep)] @ status_calls s chainId @
        [SignerAccounts (Inr [x]), SignDirect a doc (Inr (doc, signature)), StartTimer 60000,
         BroadcastTxSync (made_tx doc sig) (Inr reply), Sleep 3000, TxSearch (tx_query hash) (Inr [tx])]\<rparr>)"
  using call_succeeds [OF assms(1-4)] unfolding assms(5,6) .

theorem signing_goes_through_witness:
  "\<exists>s' s''. signAndBroadcast demo_net (walletRegistry []) demo_addr [demo_msg] demo_tx_fee [] demo_client
     = Some (Inr \<lparr>tx_code = 0, rawLog = [], transactionHash = lit ''ABCD''\<rparr>, s') \<and> length (cl_tr s') = 8
   \<and> signAndBroadcast demo_net (walletRegistry []) demo_addr [demo_msg] demo_tx_fee [] s'
     = Some (Inr \<lparr>tx_code = 0, rawLog = [], transactionHash = lit ''ABCD''\<rparr>, s'') \<and> length (cl_tr s'') = 15"
proof -
  have "lit ''ABCD'' = toUpperHex (sync_hash demo_reply)" by code_simp
  note goes = signing_goes_through [OF demo_cooperates _ demo_anys demo_gas_limit refl this]
  from goes [of demo_client "[]" "[]"] obtain s' where
    first: "signAndBroadcast demo_net (walletRegistry []) demo_addr [demo_msg] demo_tx_fee [] demo_client
      = Some (Inr \<lparr>tx_code = 0, rawLog = [], transactionHash = lit ''ABCD''\<rparr>, s')"
      "cl_chainId s' = Some (lit ''congrid-main'')" "length (cl_tr s') = 8"
    by (simp add: demo_client_def status_calls_def)
  from goes [of s' "[]" "[]"] first show ?thesis by (simp add: status_calls_def)
qed

text \<open>
  C13. The checks of the forms. On a connected page, when \<open>form_problem\<close> names something wrong with the submitted form
  (the first in the order create, status, lease and registration forms promise their checks), the handler ends
  normally with exactly that problem, translated, as an error notice; nothing is called or broadcast and nothing
  else of the page changes. The notice is the form's own for registrations, which also log the error to the console, and the
  document's for the others. The create and the lease form import the bundle before they are read; for them it is loaded.
\<close>

theorem form_checks:
  assumes "cfg_enabled (cfg E)" "wallet_connected s" "needs_bundle f \<Longrightarrow> walletDeps s \<noteq> None"
    and "form_problem E (tr s @ [PreventDefault]) (st_address s) sub f = Some (m, args)"
    and "i18n_t (e_messages E) (lit m) args = Inr y" "i18n_t (e_messages E) (orElse y (lit ''Error'')) [] = Inr x"
  shows "run (handler E (OnSubmit f) sub) s
    = (Inr (), flash_result x True (notice_place f) (console f (newError y) (log_event PreventDefault s)))"
  using assms by (rule form_rejected)

theorem form_checks_witness:
  "run (handler demo_env (OnSubmit (StatusForm 0)) (Some (lit ''delete''))) ready_page
    = (Inr (), flash_result (lit ''Unknown slot action.'') True Document (log_event PreventDefault ready_page))"
proof -
  have "field (demo_form (StatusForm 0)) ''slot_id'' = lit ''slot-1''" by code_simp
  moreover have "\<nexists>status. (lit ''delete'', status) \<in> action_codes" by (simp add: action_codes_def lit_def)
  ultimately have "form_problem demo_env (tr ready_page @ [PreventDefault]) (st_address ready_page) (Some (lit ''delete'')) (StatusForm 0)
      = Some (''Unknown slot action.'', [])" by (simp add: lit_def)
  from form_checks [OF _ _ _ this] show ?thesis by (simp add: i18n_none replace_no_args orElse_def lit_def)
qed

text \<open>
  C14. A signer without direct mode, which \<open>getOfflineSignerAuto\<close> may return, never gets anything through: for each of the
  four message types the call ends with an error, and no document is signed and nothing is sent.
\<close>

theorem amino_signer_fails:
  assumes "\<not> n_direct N" "well_typed m"
  shows "\<exists>e s' es. signAndBroadcast N reg a [m] fee memo s = Some (Inl e, s') \<and> cl_tr s' = cl_tr s @ es
    \<and> \<not> list_ex is_signing es \<and> \<not> list_ex is_send es"
  using assms by (rule amino_fails)

theorem amino_signer_fails_witness:
  "\<exists>e s' es. signAndBroadcast (demo_net\<lparr>n_direct := False\<rparr>) (walletRegistry []) demo_addr [demo_msg] demo_tx_fee [] demo_client
     = Some (Inl e, s') \<and> cl_tr s' = cl_tr demo_client @ es \<and> \<not> list_ex is_send es"
proof -
  have "well_typed demo_msg" by (simp add: well_typed_def demo_msg_def updateStatusMsg_def)
  with amino_signer_fails [of "demo_net\<lparr>n_direct := False\<rparr>" demo_msg] show ?thesis by fastforce
qed

text \<open>
  C15. The shared promise works under every interleaving: at most one load of the bundle is under way at any time,
  and the bundle was imported successfully at most once, exactly when the cached promise is one that succeeds.
\<close>

theorem bundle_imported_once:
  assumes "weave E s0 ms s" "fresh_page s0"
  shows "length (filter bundle_ok (tr s)) = (if bundle_cached s then 1 else 0)
    \<and> (\<forall>p q r r'. promise_at (depsPromises s) p = Some (Loading r) \<and> promise_at (depsPromises s) q = Some (Loading r') \<longrightarrow> p = q)"
proof -
  have ok: "promises_ok s" using weave_inv [OF assms] by (simp add: page_inv_def)
  have "p = q" if "promise_at (depsPromises s) p = Some (Loading r)" "promise_at (depsPromises s) q = Some (Loading r')" for p q r r'
    using ok that unfolding promises_ok_def by (metis option.inject)
  with ok show ?thesis unfolding promises_ok_def by blast
qed

theorem bundle_imported_once_witness:
  "\<exists>ms s. weave double_env demo_page ms s \<and> length (filter client_ok (tr s)) = 2 \<and> length (filter bundle_ok (tr s)) \<le> 1"
proof -
  obtain ms s ms' s' where w: "weave double_env demo_page ms s" "(page_step double_env)\<^sup>*\<^sup>* (ms, s) (ms', s')" "length (filter client_ok (tr s')) = 2"
    by (rule double_weave)
  have "weave double_env demo_page ms' s'" using w(1,2) by (rule weave_steps)
  moreover from bundle_imported_once [OF this demo_fresh] have "length (filter bundle_ok (tr s')) \<le> 1" by simp
  ultimately show ?thesis using w(3) by blast
qed

text \<open>
  C16. Over the whole life of a page whose handlers run one after the other, the RPC client is connected at most
  once, and \<open>state.client\<close> says whether it was.
\<close>

theorem client_connected_once:
  assumes "page_run E s0 s" "tr s0 = []" "st_client s0 = None"
  shows "length (filter client_ok (tr s)) = (if st_client s = None then 0 else 1)"
  using page_run_cached [OF assms(1)] assms(2,3) by (simp add: cached_def)

theorem client_connected_once_witness:
  "(let s = dispatch demo_env (OnConnect 0) None (page_load demo_env demo_page)
    in length (filter client_ok (tr s)) = (if st_client s = None then 0 else 1))"
  using client_connected_once [OF page_run.event [OF page_run.load], of demo_page demo_env "OnConnect 0" None]
  by (simp add: demo_page_def Let_def)

text \<open>
  C17. The client has no such promise: two submissions at once can both find \<open>state.client\<close> empty and connect. The page keeps
  the client of the first, and when the second is connected it replaces it.
\<close>

theorem double_connect_race:
  "\<exists>ms s ms' s'. weave double_env demo_page ms s \<and> fresh_page demo_page \<and> st_client s = Some 11
     \<and> (page_step double_env)\<^sup>*\<^sup>* (ms, s) (ms', s') \<and> st_client s' = Some 12 \<and> length (filter client_ok (tr s')) = 2"
  by (rule double_weave) (use demo_fresh in blast)

text \<open>
  C18. Registrations under every interleaving: as long as the extension reports one account only, a broadcast
  \<open>MsgRegisterPublisher\<close> is sent from that account and owned by it, and the site had confirmed the badge of the
  registered domain for that account before.
\<close>

theorem one_account_registration:
  assumes "weave E s0 ms s" "fresh_page s0" "one_account E x"
    and "tr s = before @ SignAndBroadcast c a [m] fee memo r # after" "intended (msgValue m) = CRegisterPublisher p"
  shows "a = x \<and> rp_owner p = x \<and> (\<exists>ev q. ev \<in> set before \<and> asked ev (rp_domain p) x q \<and> verified q)"
  using assms by (rule weave_registration)

theorem one_account_registration_witness:
  "\<exists>ms s before c a m fee memo r after ev q. weave demo_env demo_page ms s
     \<and> tr s = before @ SignAndBroadcast c a [m] fee memo r # after \<and> ev \<in> set before
     \<and> asked ev (lit ''example.org'') demo_addr q \<and> verified q"
proof -
  obtain ms s before ev after where run: "weave demo_env demo_page ms s" "tr s = before @ ev # after" and "registers demo_addr ev"
    using schedule_reaches [OF registration_run] by blast
  then obtain c m fee memo r where ev: "ev = SignAndBroadcast c demo_addr [m] fee memo r" "m = registerMsg demo_addr (lit ''example.org'') []"
    by (auto elim: registers.elims)
  have "\<exists>p. intended (msgValue m) = CRegisterPublisher p \<and> rp_domain p = lit ''example.org''"
    by (simp add: ev(2) registerMsg_def intended_def MsgRegisterPublisher_fromPartial_def orEmpty_def)
  with one_account_registration [OF run(1) demo_fresh demo_one_account run(2) [unfolded ev(1)]] run ev(1) show ?thesis by metis
qed

text \<open>
  C19. Polling ends. When a timer has fired once later sleeps add up to its delay, \<open>signAndBroadcast\<close> returns, whatever the
  node and the signer answer, after at most twenty sleeps of three seconds. A result carries the code and log the
  node reported, in the last call, for the hash it had given to the transaction it accepted.
\<close>

theorem broadcast_returns:
  assumes "timers_in_order N 60000 3000"
  shows "\<exists>r s' es. signAndBroadcast N reg a msgs fee memo s = Some (r, s') \<and> cl_tr s' = cl_tr s @ es
    \<and> length (filter is_sleep es) \<le> 20 \<and> call_outcome r es"
  using assms by (rule call_returns)

theorem broadcast_returns_witness:
  "\<exists>r s' es. signAndBroadcast (demo_net\<lparr>n_search := (\<lambda>_ _. Inr [])\<rparr>) (walletRegistry []) demo_addr [demo_msg] demo_tx_fee [] demo_client = Some (r, s')
     \<and> cl_tr s' = cl_tr demo_client @ es \<and> length (filter is_sleep es) \<le> 20"
proof -
  have "timers_in_order (demo_net\<lparr>n_search := (\<lambda>_ _. Inr [])\<rparr>) 60000 3000" by (simp add: timers_in_order_def demo_net_def)
  from broadcast_returns [OF this, of "walletRegistry []" demo_addr "[demo_msg]" demo_tx_fee "[]" demo_client] show ?thesis by blast
qed

text \<open>
  C20. The account the chain sends is the account the client uses. The node answers the query for the address with the bytes
  of a response that holds a plain, module or vesting account (base, continuous, delayed or periodic) with no key, a
  secp256k1 key, an ed25519 key or a multisignature key. Then \<open>getAccount\<close> finds the base account inside, however deep, and
  returns its address, its key, its account number and its sequence, provided the two numbers are below 2 ^ 53.
\<close>

theorem chain_account_read:
  assumes "account_readable x" "base_of x = Some b" "base_account_readable b" "ba_pubKey b = key_any k" "key_valid k"
    and "ba_accountNumber b < 2 ^ 53" "ba_sequence b < 2 ^ 53"
    and "deliverable any_readable any_fields (account_any x)" "height \<noteq> 0"
    and "n_abci N (cl_tr s) accountPath (accountRequest a) = Inr (chain_reply x height)"
  shows "run (getAccount N a) s =
    (Inr (Some \<lparr>account_address = ba_address b, account_pubkey = key_pubkey k,
                account_number = ba_accountNumber b, account_sequence = ba_sequence b\<rparr>),
     s\<lparr>cl_tr := cl_tr s @ [AccountQuery a (Inr (chain_reply x height))]\<rparr>)"
  using run_getAccount [OF assms(10) chain_reply_answered [OF assms(8,9)]] accountFromAny_reads [OF assms(1-5)] assms(6,7)
  by (simp add: cl_log_def)

theorem chain_account_read_witness:
  "map_sum id (map_option account_sequence)
     (fst (run (getAccount (demo_net\<lparr>n_abci := (\<lambda>_ _ _. Inr (chain_reply (PeriodicVesting demo_periodic) 7))\<rparr>) demo_addr) demo_client)) = Inr (Some 9)"
proof -
  let ?N = "demo_net\<lparr>n_abci := (\<lambda>_ _ _. Inr (chain_reply (PeriodicVesting demo_periodic) 7))\<rparr>"
  have b: "base_of (PeriodicVesting demo_periodic) = Some demo_base" "ba_pubKey demo_base = key_any (SingleKey (SecpKey (2 # replicate 32 7)))"
    "ba_accountNumber demo_base < 2 ^ 53" "ba_sequence demo_base < 2 ^ 53" "ba_sequence demo_base = 9"
    by (simp_all add: demo_periodic_def demo_vesting_def, simp_all add: demo_base_def)
  have "account_readable (PeriodicVesting demo_periodic)" by (simp add: demo_periodic_readable)
  from chain_account_read [OF this b(1) demo_base_readable b(2) _ b(3,4) demo_deliverable(2), of 7 ?N demo_client demo_addr] b(5)
  show ?thesis by simp
qed

text \<open>
  C21. An account whose number or sequence is 2 ^ 53 or more is refused, not rounded: the call fails with the error of the
  conversion after the account query, before the signer is asked for anything.
\<close>

theorem account_over_2_53_refused:
  assumes "account_readable x" "base_of x = Some b" "base_account_readable b" "ba_pubKey b = key_any k" "key_valid k"
    and "2 ^ 53 \<le> ba_accountNumber b \<or> 2 ^ 53 \<le> ba_sequence b" "answered rep (account_any x)"
    and "n_abci N (cl_tr s) accountPath (accountRequest a) = Inr rep"
  shows "signAndBroadcast N reg a msgs fee memo s =
    Some (Inl (newError (lit ''Number can only safely store up to 53 bits'')),
      s\<lparr>cl_tr := cl_tr s @ [AccountQuery a (Inr rep)]\<rparr>)"
proof -
  have "accountFromAny (account_any x) = Inl (newError (lit ''Number can only safely store up to 53 bits''))"
    using accountFromAny_reads [OF assms(1-5)] assms(6) by auto
  then show ?thesis using account_error [OF assms(8,7)] by (simp add: not_found_53 cl_log_def)
qed

theorem account_over_2_53_refused_witness:
  "\<exists>s'. signAndBroadcast (demo_net\<lparr>n_abci := (\<lambda>_ _ _. Inr (chain_reply (PlainAccount (demo_base\<lparr>ba_sequence := 2 ^ 53\<rparr>)) 7))\<rparr>)
     (walletRegistry []) demo_addr [demo_msg] demo_tx_fee [] demo_client
     = Some (Inl (newError (lit ''Number can only safely store up to 53 bits'')), s')"
proof -
  let ?b = "demo_base\<lparr>ba_sequence := 2 ^ 53\<rparr>"
  have "base_account_readable ?b" using demo_base_readable by (simp add: base_account_readable_def u64_def)
  moreover have "answered (chain_reply (PlainAccount ?b) 7) (account_any (PlainAccount ?b))"
    by (rule chain_reply_answered [OF demo_deliverable(3)]) simp
  ultimately show ?thesis
    using account_over_2_53_refused [of "PlainAccount ?b" ?b "SingleKey (SecpKey (2 # replicate 32 7))" "chain_reply (PlainAccount ?b) 7"]
    by (simp add: demo_base_def)
qed

text \<open>
  C22. An account the chain does not know: the query fails with a code and a log that contains the words of the gRPC status,
  in upper or lower case, whatever stands around them. The client turns this into "no account" and the call fails with the message that asks the
  user to send some tokens there, before anything is signed.
\<close>

theorem unknown_account_reported:
  assumes "n_abci N (cl_tr s) accountPath (accountRequest a) = Inr rep" "abci_code rep \<noteq> 0"
    and "abci_log rep = pre @ words @ post" "map ascii_lower words = lit ''rpc error: code = notfound''"
  shows "signAndBroadcast N reg a msgs fee memo s =
    Some (Inl (newError (lit ''Account '' @ 39 # a @ 39 #
        lit '' does not exist on chain. Send some tokens there before trying to query sequence.'')),
      s\<lparr>cl_tr := cl_tr s @ [AccountQuery a (Inr rep)]\<rparr>)"
  using account_unknown [OF assms] by (simp add: unknown_account_def cl_log_def)

theorem unknown_account_reported_witness:
  "\<exists>e s'. signAndBroadcast (demo_net\<lparr>n_abci := (\<lambda>_ _ _. Inr \<lparr>abci_code = 22, abci_log = lit ''RPC Error: code = NotFound desc = account'',
       abci_value = [], abci_height = 0\<rparr>)\<rparr>) (walletRegistry []) (lit ''cg1x'') [demo_msg] demo_tx_fee [] demo_client = Some (Inl e, s')
     \<and> ex_string e = lit ''Error: Account '' @ 39 # lit ''cg1x'' @ 39 # lit '' does not exist on chain. Send some tokens there before trying to query sequence.''"
proof -
  let ?rep = "\<lparr>abci_code = 22, abci_log = lit ''RPC Error: code = NotFound desc = account'', abci_value = [], abci_height = 0\<rparr>"
  have "map ascii_lower (lit ''RPC Error: code = NotFound'') = lit ''rpc error: code = notfound''" by code_simp
  moreover have "lit ''RPC Error: code = NotFound desc = account'' = [] @ lit ''RPC Error: code = NotFound'' @ lit '' desc = account''" by (simp add: lit_def)
  ultimately show ?thesis
    using unknown_account_reported [where pre = "[]" and words = "lit ''RPC Error: code = NotFound''" and post = "lit '' desc = account''"
        and rep = ?rep and N = "demo_net\<lparr>n_abci := (\<lambda>_ _ _. Inr ?rep)\<rparr>" and a = "lit ''cg1x''" and s = demo_client]
    by (simp add: newError_def) (simp add: lit_def)
qed

text \<open>
  C23. End to end: the registry built by \<open>loadWalletDeps\<close> encodes every object whose type URL matches its shape,
  whatever default types it started from, and a reader of the wire format with the field numbers of
  \<open>tx.proto\<close> gets exactly the completed message back.
\<close>

theorem registry_reaches_chain:
  assumes "well_typed obj" "sendable (msgValue obj)"
  shows "\<exists>bs. registry_encode (walletRegistry ds) obj = Inr bs
    \<and> chain_decode (typeUrl obj) bs = Some (intended (msgValue obj))"
  using assms by (rule registry_chain)

theorem registry_reaches_chain_witness:
  "\<exists>bs. registry_encode (walletRegistry []) (updateStatusMsg (lit ''congrid1x'') (lit ''slot-1'') 2) = Inr bs
    \<and> chain_decode url_UpdateSlotStatus bs
        = Some (CUpdateSlotStatus \<lparr>us_publisher = lit ''congrid1x'', us_slotId = lit ''slot-1'', us_status = 2\<rparr>)"
proof -
  let ?o = "updateStatusMsg (lit ''congrid1x'') (lit ''slot-1'') 2"
  have "short (lit ''congrid1x'')" "short (lit ''slot-1'')" by (simp_all add: short_def lit_def)
  then have "well_typed ?o" "sendable (msgValue ?o)"
    by (simp_all add: updateStatusMsg_def well_typed_def sendable_def encodable_UpdateSlotStatus_def
        MsgUpdateSlotStatus_fromPartial_def orEmpty_def)
  from registry_reaches_chain [OF this, of "[]"] show ?thesis
    by (simp add: updateStatusMsg_def intended_def MsgUpdateSlotStatus_fromPartial_def orEmpty_def)
qed

text \<open>
  C24. What one account excludes: the form names \<open>alice\<close>, the badge is verified for \<open>alice\<close> and for nobody else, and the
  broadcast registers the domain for \<open>bob\<close>, because the owner is read from \<open>state.address\<close> after the answer.
\<close>

theorem register_race:
  "\<exists>ms s c fee memo r. weave register_env demo_page ms s \<and> fresh_page demo_page
     \<and> SignAndBroadcast c bob [registerMsg bob (lit ''example.org'') []] fee memo r \<in> set (tr s)
     \<and> (\<nexists>ev domain w q. ev \<in> set (tr s) \<and> asked ev domain w q \<and> w \<noteq> alice) \<and> alice \<noteq> bob"
proof -
  obtain ms s where r: "fold (perform register_env) register_schedule ([], page_load register_env demo_page) = (ms, s)" by force
  with register_run obtain ev where ev: "ev \<in> set (tr s)" "registers bob ev" and only: "list_all (verified_only_for alice) (tr s)"
    by (auto simp: list_ex_iff)
  then obtain c fee memo res where "SignAndBroadcast c bob [registerMsg bob (lit ''example.org'') []] fee memo res \<in> set (tr s)"
    by (auto elim: registers.elims)
  moreover have "alice \<noteq> bob" by (simp add: alice_def bob_def)
  ultimately show ?thesis using perform_weave [OF r] demo_fresh verified_only [OF only] by blast
qed

text \<open>
  C25. On a deployment with signing disabled nothing ever happens: no handler starts, no call is made, and the page
  stays as it was; the history holds only what happened outside.
\<close>

theorem disabled_page_does_nothing:
  assumes "weave E s0 ms s" "\<not> cfg_enabled (cfg E)" "fresh_page s0"
  shows "ms = [] \<and> (\<exists>es. s = s0\<lparr>tr := es\<rparr> \<and> (\<forall>ev \<in> set es. \<exists>n. ev = Outside n))"
  using assms by (rule weave_disabled)

theorem disabled_page_does_nothing_witness:
  "\<exists>es. page_load (demo_env\<lparr>cfg := demo_config\<lparr>cfg_enabled := False\<rparr>\<rparr>) demo_page = demo_page\<lparr>tr := es\<rparr>"
  using disabled_page_does_nothing [OF weave_load _ demo_fresh, of "demo_env\<lparr>cfg := demo_config\<lparr>cfg_enabled := False\<rparr>\<rparr>"] by auto

text \<open>
  C26. The bytes of an encoded \<open>MsgCreateSlot\<close>, read with the field numbers of \<open>tx.proto\<close>, give the message back:
  every string (lone surrogates included), every 64-bit duration and every tag in order. The strings are
  shorter than 4 GiB in UTF-8, the range of the length prefix the writer computes with 32-bit arithmetic.
\<close>

theorem create_slot_roundtrip:
  assumes "encodable_CreateSlot m"
  shows "decode_CreateSlot (finish (MsgCreateSlot_encode m create)) = Some m"
  using assms by (rule create_slot.decode_encode)

theorem create_slot_roundtrip_witness:
  "\<exists>m. cs_label m = lit ''Header'' \<and> cs_unitSeconds m = - 1 \<and> cs_tags m = [[], lit ''a'']
     \<and> decode_CreateSlot (finish (MsgCreateSlot_encode m create)) = Some m"
proof -
  let ?m = "\<lparr>cs_publisher = [], cs_domain = lit ''d'', cs_label = lit ''Header'', cs_summary = [], cs_category = [],
    cs_placement = [], cs_size = [], cs_rateDenom = lit ''ucongrid'', cs_rateAmount = lit ''250'', cs_unitSeconds = - 1,
    cs_minDurationSeconds = 0, cs_maxDurationSeconds = 1, cs_tags = [[], lit ''a'']\<rparr>"
  have "encodable_CreateSlot ?m" by (simp add: encodable_CreateSlot_def short_def lit_def)
  from create_slot_roundtrip [OF this] show ?thesis by (intro exI [of _ ?m]) simp
qed

text \<open>
  C27. Transactions: body, auth info and signatures, encoded and then read with the field numbers of
  \<open>cosmos/tx/v1beta1/tx.proto\<close>, are given back through all levels of nesting (fees, coins, signer infos, keys,
  messages). One bound on the length of the whole is enough for all its parts.
\<close>

theorem transaction_roundtrip:
  assumes "q = \<lparr>raw_bodyBytes = finish (TxBody_encode b bcreate), raw_authInfoBytes = finish (AuthInfo_encode i bcreate), raw_signatures = sigs\<rparr>"
    and "small (finish (TxRaw_encode q bcreate))" "u64_ok (tb_timeoutHeight b)" "auth_numbers i"
  shows "read_tx (finish (TxRaw_encode q bcreate)) = Some (b, i, sigs)"
  using read_tx_back [OF assms] by blast

theorem transaction_roundtrip_witness:
  "read_tx (made_tx demo_doc demo_signature)
     = Some (tx_body_of [demo_any] [], auth_of (sa_pubkey demo_signer) 9 demo_tx_fee 140000, [demo_signature])"
proof -
  let ?q = "\<lparr>raw_bodyBytes = finish (TxBody_encode (tx_body_of [demo_any] []) bcreate),
    raw_authInfoBytes = finish (AuthInfo_encode (auth_of (sa_pubkey demo_signer) 9 demo_tx_fee 140000) bcreate), raw_signatures = [demo_signature]\<rparr>"
  have m: "made_tx demo_doc demo_signature = finish (TxRaw_encode ?q bcreate)"
    by (simp add: made_tx_def demo_doc_def made_doc_def makeSignDoc_def demo_account_def)
  moreover have "u64_ok 9" "u64_ok 140000" "u64_ok (tb_timeoutHeight (tx_body_of [demo_any] []))"
    by (simp_all add: u64_ok_def tx_body_of_def)
  ultimately show ?thesis using transaction_roundtrip [OF refl, of "tx_body_of [demo_any] []"] demo_small by (simp add: auth_of_numbers)
qed

text \<open>
  C28. The body of the badge verification request says exactly which domain and wallet are asked about: a quoted JSON
  string reads back as the string, whatever characters it has, and requests with equal bodies are equal.
\<close>

theorem verify_request_exact:
  "json_read (tl (json_quote s) @ rest) = Some (s, rest)
   \<and> (fetch_body (verifyRequest d a) = fetch_body (verifyRequest d' a') \<longleftrightarrow> d = d' \<and> a = a')"
proof -
  have "fetch_body (verifyRequest d a) = verify_body d a" for d a
    by (simp add: verifyRequest_def verify_body_def json_object_def lit_def)
  then show ?thesis using json_read_chars [of s rest] by (simp add: verify_body_inj json_quote_def)
qed

text \<open>
  C29. The optimised 64-bit varint: the loop over two 32-bit halves writes the base-128 expansion of the value, and
  the length ladder that sizes the buffer counts exactly the bytes the loop writes.
\<close>

theorem varint64_is_base128:
  "writeVarint64 (LongBits_from v) = varint (uint v)
   \<and> LongBits_length (LongBits_from v) = length (writeVarint64 (LongBits_from v))"
  by (simp add: writeVarint64_varint longbits_val_from LongBits_length_correct)

text \<open>
  C30. The 64-bit encoder of transactions, exactly: a value below 2 ^ 64 is passed through its decimal string and two
  halves and written as its base-128 expansion, except from 2 ^ 31 to 2 ^ 32 - 1. There the low half is negative, the loop
  writes one byte where five are announced, and the field holds the low byte and four zeros.
\<close>

theorem uint64_gap:
  assumes "0 \<le> v" "v < 18446744073709551616"
  shows "finish (bin_int64 v bcreate) = (if 2147483648 \<le> v \<and> v < 4294967296 then [of_int v, 0, 0, 0, 0] else varint v)"
proof (cases "2147483648 \<le> v \<and> v < 4294967296")
  case True
  then have "bin_int64 v bcreate = push [of_int v] 5 bcreate" by (intro bin_int64_gap) simp_all
  then show ?thesis using True by (simp add: finish_def push_def bcreate_def eval_nat_numeral)
next
  case False
  then have "u64_ok v" using assms by (auto simp: u64_ok_def)
  then have "finish (bin_int64 v bcreate) = varint v" by (simp add: finish_bytes_of wf_bin_int64 bytes_of_bin_int64)
  then show ?thesis unfolding if_not_P [OF False] .
qed

theorem uint64_gap_witness:
  "finish (bin_int64 3000000000 bcreate) = [0, 0, 0, 0, 0] \<and> finish (bin_int64 220000 bcreate) = varint 220000"
  using uint64_gap [of 3000000000] uint64_gap [of 220000] by simp

text \<open>
  C31. The number readers on every buffer, malformed ones included, against the reference reader of base-128 numbers: let \<open>v\<close> be
  the number at \<open>p\<close> and \<open>k\<close> the number of its bytes, where a buffer that ends within the number is taken to go on with a
  zero byte. If \<open>k\<close> exceeds ten, all three readers throw; if the number runs off the end, they throw too; otherwise they
  return \<open>v\<close> modulo 2 ^ 32, \<open>v\<close> modulo 2 ^ 64, and its two's complement, and stand behind the number. This covers the decimal
  strings through which the 64-bit readers pass.
\<close>

theorem reader_numbers_exact:
  assumes "p \<le> length buf" "read_varint (drop p buf @ [0]) = Some (v, r)" "k = length (drop p buf @ [0]) - length r"
  shows "if 10 < k then r_uint32 buf p = Inl (newError (lit ''invalid varint''))
      \<and> r_uint64 buf p = Inl (newError (lit ''invalid varint'')) \<and> r_int64 buf p = Inl (newError (lit ''invalid varint''))
    else if length buf < p + k then r_uint32 buf p = Inl (rangeError (lit ''premature EOF''))
      \<and> r_uint64 buf p = Inl (rangeError (lit ''premature EOF'')) \<and> r_int64 buf p = Inl (rangeError (lit ''premature EOF''))
    else r_uint32 buf p = Inr (of_int v, p + k)
      \<and> r_uint64 buf p = Inr (v mod 2 ^ 64, p + k) \<and> r_int64 buf p = Inr (signed64 (v mod 2 ^ 64), p + k)"
proof -
  have s: "sees buf p (drop p buf @ [0])" using assms(1) by (simp add: sees_def)
  show ?thesis unfolding r_uint32_def r_uint64_exact [OF s assms(2)] r_int64_exact [OF s assms(2)] varint32read_exact [OF s assms(2)]
    assms(3) [symmetric] assertBounds_def by simp
qed

theorem reader_numbers_exact_witness:
  "r_uint64 [255, 255, 255, 255, 255, 255, 255, 255, 255, 1] 0 = Inr (18446744073709551615, 10)
   \<and> r_int64 [255, 255, 255, 255, 255, 255, 255, 255, 255, 1] 0 = Inr (- 1, 10)"
proof -
  have v: "read_varint ([255, 255, 255, 255, 255, 255, 255, 255, 255, 1] @ [0]) = Some (18446744073709551615, [0])" by code_simp
  from reader_numbers_exact [of 0 "[255, 255, 255, 255, 255, 255, 255, 255, 255, 1]" 18446744073709551615 "[0]" 10] v
  show ?thesis by (simp add: signed64_def)
qed

text \<open>
  C32. Text: \<open>utf8Read\<close> of the reader inverts the writer on every string of fewer than 8192 units, surrogate pairs and lone
  surrogates included, and on strings of any length without high surrogates. (A pair across the end of a chunk spoils
  a longer one: \<open>utf8Read_stale\<close>.)
\<close>

theorem text_read_back:
  assumes "length s < 8192 \<or> list_all (\<lambda>c. \<not> is_high_surrogate c) s"
  shows "utf8Read (utf8_write s) = s"
  using assms by (intro utf8Read_write) (simp add: plain_def)

theorem text_read_back_witness: "utf8Read (utf8_write [71, 8364, 55357, 56832, 57000]) = [71, 8364, 55357, 56832, 57000]"
  by (rule text_read_back) simp

text \<open>
  C33. A chain that is newer than the client: a base account followed by any fields whose numbers the client does not know is
  read as the account.
\<close>

theorem unknown_fields_skipped:
  assumes "base_account_readable b" "list_all wire_ok gs" "list_all (\<lambda>x. 4 < fst x) gs"
  shows "decode_msg BaseAccount_decode base_account_blank (wire_bytes (base_account_fields b @ gs)) = Inr b"
  using assms by (rule base_account_unknown)

theorem unknown_fields_skipped_witness:
  "decode_msg BaseAccount_decode base_account_blank (wire_bytes (base_account_fields demo_base @ [(7, WBytes [1, 2]), (9, WVarint 300)]))
     = Inr demo_base"
  by (rule unknown_fields_skipped [OF demo_base_readable]) (simp_all add: small_def)

text \<open>
  C34. The fee: for every gas price that parses and every gas limit in the safe integer range, \<open>calculateFee\<close>
  succeeds, names the price's denom and the gas limit, and its amount is the least whole number that pays
  price times gas (the price is kept with 18 decimals).
\<close>

theorem fee_covers_gas:
  assumes "GasPrice_fromString p = Inr gp" "0 \<le> n" "n < 2 ^ 53"
  shows "\<exists>fee. calculateFee (Fin (of_int n)) gp = Inr fee \<and> fee_denom fee = gp_denom gp \<and> fee_gas fee = dec_digits n
     \<and> atomics (gp_amount gp) * n \<le> dec_val (fee_amount fee) * 10 ^ 18
     \<and> (dec_val (fee_amount fee) - 1) * 10 ^ 18 < atomics (gp_amount gp) * n"
proof -
  have "0 \<le> atomics (gp_amount gp)" "fractionalDigits (gp_amount gp) = 18"
    using GasPrice_fromString_wf [OF assms(1)] .
  with calculateFee_spec [OF assms(2,3), of gp] obtain fee where
    "calculateFee (Fin (of_int n)) gp = Inr fee" "fee_denom fee = gp_denom gp" "fee_gas fee = dec_digits n"
    "atomics (gp_amount gp) * n \<le> dec_val (fee_amount fee) * 10 ^ 18"
    "dec_val (fee_amount fee) * 10 ^ 18 < atomics (gp_amount gp) * n + 10 ^ 18" by auto
  then show ?thesis by (intro exI [of _ fee]) (simp add: left_diff_distrib)
qed

theorem fee_covers_gas_witness:
  "\<exists>fee. calculateFee (Fin 220001) \<lparr>gp_amount = \<lparr>atomics = 2500000000000000, fractionalDigits = 18\<rparr>, gp_denom = lit ''ucongrid''\<rparr> = Inr fee
     \<and> 2500000000000000 * 220001 \<le> dec_val (fee_amount fee) * 10 ^ 18"
  using fee_covers_gas [OF demo_gas, of 220001] by auto



text \<open>
  C36. A lease duration typed as the decimal numeral of a positive whole number below 2 ^ 53 - 1 is accepted, and the
  message carries that number as a 64-bit integer.
\<close>

theorem lease_duration_exact:
  assumes "0 < n" "n + 1 < 2 ^ 53"
  shows "validDuration (toNumber (dec_digits n))
    \<and> (\<exists>p. msgValue (leaseMsg a data start (toNumber (dec_digits n))) = LeaseSlotValue p
        \<and> sint (ls_durationSeconds (MsgLeaseSlot_fromPartial p)) = n)"
proof -
  have "toNumber (dec_digits n) = Fin (of_int n)" using assms by (simp add: toNumber_dec_digits)
  then show ?thesis using assms Long_small [of n]
    by (auto simp: validDuration_iff leaseMsg_def MsgLeaseSlot_fromPartial_def long_or_zero_def Long_fromValue_def)
qed

theorem lease_duration_exact_witness: "validDuration (toNumber (lit ''86400''))"
proof -
  have "dec_digits 86400 = lit ''86400''" by code_simp
  then show ?thesis using lease_duration_exact [of 86400] by simp
qed

text \<open>
  C37. A start date written year-month-day in decimal digits, leading zeros allowed, that is not before now, becomes
  the Unix time of midnight UTC of that day; \<open>make_day\<close> counts the days since the epoch.
\<close>

theorem start_date_reads_calendar:
  assumes "numeral_of py y" "numeral_of pm m" "numeral_of pd d"
    and "100 \<le> y" "y \<le> 9999" "1 \<le> m" "m \<le> 12" "1 \<le> d" "d \<le> 31"
    and "e_now E (tr s) \<le> make_day y (m - 1) d * 86400000"
  shows "run (parseStartDate E (py @ 45 # pm @ 45 # pd)) s = (Inr (make_day y (m - 1) d * 86400), s)"
  using parseStartDate_run [OF utc_date_ymd [OF assms(1-9)], of E s] assms(10) by simp

theorem start_date_reads_calendar_witness:
  "run (parseStartDate demo_env (lit ''2024-03-01'')) demo_page = (Inr 1709251200, demo_page)"
proof -
  have s: "lit ''2024-03-01'' = lit ''2024'' @ 45 # lit ''03'' @ 45 # lit ''01''" by (simp add: lit_def)
  have "numeral_of (lit ''2024'') 2024" "numeral_of (lit ''03'') 3" "numeral_of (lit ''01'') 1" by code_simp+
  moreover have "make_day 2024 (3 - 1) 1 = 19783" by code_simp
  moreover have "e_now demo_env (tr demo_page) = 1709200000000" by (simp add: demo_env_def)
  ultimately show ?thesis unfolding s
    using start_date_reads_calendar [of "lit ''2024''" 2024 "lit ''03''" 3 "lit ''01''" 1 demo_env demo_page] by simp
qed

text \<open>
  C38. The check that a start date is today or later compares with a full day before now. For a date before today this refuses
  it, with one exception: at exactly midnight UTC the date of the day before passes, and the lease is requested for five
  minutes from now.
\<close>

theorem yesterday_accepted_at_midnight:
  assumes "numeral_of py y" "numeral_of pm m" "numeral_of pd d"
    and "100 \<le> y" "y \<le> 9999" "1 \<le> m" "m \<le> 12" "1 \<le> d" "d \<le> 31"
    and "now = e_now E (tr s)" "make_day y (m - 1) d < now div 86400000"
  shows "run (parseStartDate E (py @ 45 # pm @ 45 # pd)) s =
    (if make_day y (m - 1) d = now div 86400000 - 1 \<and> now mod 86400000 = 0 then (Inr (now div 1000 + 300), s)
     else run (throwT E (lit ''Start date must be today or later.'') []) s)"
proof -
  define j q r where "j = make_day y (m - 1) d" and "q = now div 86400000" and "r = now mod 86400000"
  have now: "now = 86400000 * q + r" "0 \<le> r" "r < 86400000" by (simp_all add: q_def r_def)
  have j: "j < q" using assms(11) by (simp add: j_def q_def)
  then have "j * 86400000 < now - 86400000 \<longleftrightarrow> \<not> (j = q - 1 \<and> r = 0)" "j * 86400000 < now" using now by auto
  moreover have "(now + 300000) div 1000 = now div 1000 + 300" by simp
  ultimately show ?thesis
    using parseStartDate_run [OF utc_date_ymd [OF assms(1-9)], of E s]
    unfolding assms(10) [symmetric] j_def [symmetric] q_def [symmetric] r_def [symmetric] by simp
qed

theorem yesterday_accepted_at_midnight_witness:
  "run (parseStartDate (demo_env\<lparr>e_now := (\<lambda>_. 1709251200000)\<rparr>) (lit ''2024-02-29'')) demo_page = (Inr 1709251500, demo_page)"
proof -
  have s: "lit ''2024-02-29'' = lit ''2024'' @ 45 # lit ''02'' @ 45 # lit ''29''" by (simp add: lit_def)
  have "numeral_of (lit ''2024'') 2024" "numeral_of (lit ''02'') 2" "numeral_of (lit ''29'') 29" by code_simp+
  moreover have "make_day 2024 (2 - 1) 29 = 19782" by code_simp
  ultimately show ?thesis unfolding s
    using yesterday_accepted_at_midnight [of "lit ''2024''" 2024 "lit ''02''" 2 "lit ''29''" 29 1709251200000
        "demo_env\<lparr>e_now := (\<lambda>_. 1709251200000)\<rparr>" demo_page] by simp
qed

text \<open>
  C39. An error the user never sees. The \<open>try\<close> block of a form throws a value whose text is the name of a member of
  \<open>Object.prototype\<close> (a node may send such a log), and the page has a catalog without that key. Then \<open>t\<close> finds the inherited
  member, which is not a string, and throws inside the \<open>catch\<close>: the handler ends with that TypeError, and the notice
  elements are as they were when the error was thrown.
\<close>

theorem prototype_error_unseen:
  assumes "run (form_try E f sub) (log_event PreventDefault s) = (Inl e, s1)" "\<not> ex_nullish e"
    and "e_messages E = Some cat" "orElse (ex_message e) (ex_string e) \<in> set object_prototype"
    and "cat (orElse (ex_message e) (ex_string e)) = None"
  shows "run (handler E (OnSubmit f) sub) s = (Inl (e_typeError E (lit ''text.replace'')), console f e s1)
    \<and> flashes (snd (run (handler E (OnSubmit f) sub) s)) = flashes s1"
  using unshown_error [OF assms] by simp

theorem prototype_error_unseen_witness:
  "\<exists>x. fst (run (handler (demo_env\<lparr>e_messages := Some (\<lambda>_. None),
        e_broadcast := (\<lambda>_ _ _ _ _. Inr \<lparr>tx_code = 5, rawLog = lit ''constructor'', transactionHash = []\<rparr>)\<rparr>)
      (OnSubmit (StatusForm 0)) None) ready_page) = Inl x"
proof -
  let ?E = "demo_env\<lparr>e_messages := Some (\<lambda>_. None),
    e_broadcast := (\<lambda>_ _ _ _ _. Inr \<lparr>tx_code = 5, rawLog = lit ''constructor'', transactionHash = []\<rparr>)\<rparr>"
  have "case fst (run (form_try ?E (StatusForm 0) None) (log_event PreventDefault ready_page)) of
      Inl e \<Rightarrow> \<not> ex_nullish e \<and> orElse (ex_message e) (ex_string e) = lit ''constructor'' | Inr _ \<Rightarrow> False" by code_simp
  then obtain e s1 where "run (form_try ?E (StatusForm 0) None) (log_event PreventDefault ready_page) = (Inl e, s1)"
      "\<not> ex_nullish e" "orElse (ex_message e) (ex_string e) = lit ''constructor''"
    by (cases "run (form_try ?E (StatusForm 0) None) (log_event PreventDefault ready_page)") (auto split: sum.splits)
  with prototype_error_unseen [of ?E "StatusForm 0" None ready_page e s1 "\<lambda>_. None"] show ?thesis
    by (simp add: object_prototype_def)
qed

text \<open>
  C40. A click outside the language menu, or the Escape key, closes it, and it stays closed over any further events
  until the user toggles it.
\<close>

theorem menu_closes_and_stays_closed:
  assumes "closes e" "Toggle \<notin> set es"
  shows "\<exists>m'. fold menu_step (e # es) (Some m) = Some m' \<and> \<not> menu_open m'"
proof -
  obtain m1 where "menu_step e (Some m) = Some m1" by (simp add: menu_step_def)
  with menu_step_closes [OF assms(1) this] menu_stays_closed [OF _ assms(2), of m1] show ?thesis by simp
qed

theorem menu_closes_and_stays_closed_witness:
  "\<exists>m'. fold menu_step [Click False, Keydown (lit ''Escape''), Click True]
     (Some \<lparr>menu_open = True, summary_focused = False, has_summary = True\<rparr>) = Some m' \<and> \<not> menu_open m'"
  by (rule menu_closes_and_stays_closed) simp_all

section \<open>Further facts\<close>

text \<open>The RPC endpoint is never \<open>tcp://\<close>, and an endpoint of another scheme is only trimmed.\<close>

lemma rpc_endpoint_normal_form:
  "\<not> startsWith (toHttpRPC r) (lit ''tcp://'') \<and> toHttpRPC (toHttpRPC r) = toHttpRPC r
   \<and> (startsWith (trim r) (lit ''tcp://'') \<or> toHttpRPC r = trim r)"
  using toHttpRPC_not_tcp toHttpRPC_idem toHttpRPC_other by blast

text \<open>The address check accepts \<open>congrid1\<close> followed by 12 to 82 lower-case letters and digits.\<close>

lemma grid_address_shape:
  "isLikelyGridAddress a \<longleftrightarrow>
     (\<exists>tail. trim a = lit ''congrid1'' @ tail \<and> list_all is_lower_alnum tail \<and> 12 \<le> length tail \<and> length tail \<le> 82)"
  by (rule isLikelyGridAddress_iff)

text \<open>A notice that was rendered already stays as it is unless it is a catalog key or a name of \<open>Object.prototype\<close>.\<close>

lemma notice_rerender:
  assumes "\<forall>m. msgs = Some m \<longrightarrow> m text = None \<and> text \<notin> set object_prototype"
  shows "i18n_t msgs text [] = Inr text"
  using assms by (auto simp: i18n_t_def lookup_text_def replace_no_args split: option.splits)

text \<open>Loading an enabled page gives every connect button and every wallet form one listener, kind by kind.\<close>

lemma page_load_binds:
  assumes "cfg_enabled (cfg E)" "listeners s = []"
  shows "uiReady (page_load E s) \<and>
    listeners (page_load E s) = map OnConnect [0..<connect_buttons s] @ map OnSubmit
       (filter is_create (page_forms s) @ filter is_status (page_forms s) @ filter is_lease (page_forms s)
         @ filter is_register (page_forms s))"
  using page_load_listeners [OF assms] by simp

text \<open>Equal bytes mean equal lease messages, and equal sign bytes mean equal documents.\<close>

lemma lease_encoding_canonical:
  assumes "encodable_LeaseSlot m" "encodable_LeaseSlot m'"
  shows "finish (MsgLeaseSlot_encode m create) = finish (MsgLeaseSlot_encode m' create) \<longleftrightarrow> m = m'"
  using assms by (rule lease_slot.encode_inject)

lemma sign_bytes_canonical:
  assumes "doc_ok d" "doc_ok d'"
  shows "makeSignBytes d = makeSignBytes d' \<longleftrightarrow> d = d'"
  unfolding makeSignBytes_def using assms by (rule sign_doc.encode_inject)

text \<open>An accepted non-empty start date is not before the current second.\<close>

lemma start_never_past:
  assumes "run (parseStartDate E value) s = (Inr v, s')" "value \<noteq> []"
  shows "e_now E (tr s) div 1000 \<le> v \<and> s' = s"
  using wp_run [OF wp_parseStartDate assms(1)] start_ok_not_past [OF _ assms(2)] by blast

text \<open>\<open>finish\<close> returns the concatenation of what was pushed when the announced lengths are right.\<close>

lemma finish_is_concatenation:
  assumes "\<forall>(bs, n) \<in> set xs. length bs = n"
  shows "finish (fold (\<lambda>(bs, n). push bs n) xs create) = concat (map fst xs)"
proof -
  have "wf_writer (fold (\<lambda>(bs, n). push bs n) xs w) \<and> bytes_of (fold (\<lambda>(bs, n). push bs n) xs w) = bytes_of w @ concat (map fst xs)"
    if "wf_writer w" for w
    using assms that by (induction xs arbitrary: w) (auto simp: wf_push)
  from this [of create] show ?thesis by (simp add: finish_bytes_of)
qed

text \<open>
  The sequential reading of the page refines the event loop: every state reached by running handlers one after the
  other is reached by an interleaving in which all handlers have finished.
\<close>

lemma sequential_is_interleaving:
  assumes "page_run E s0 s"
  shows "\<exists>ms. weave E s0 ms s \<and> list_all finished ms"
  using assms by (rule page_run_weave)

lemma sequential_is_interleaving_witness:
  "\<exists>ms. weave demo_env demo_page ms (dispatch demo_env (OnConnect 0) None (page_load demo_env demo_page)) \<and> list_all finished ms"
  by (rule sequential_is_interleaving [OF page_run.event [OF page_run.load]])

text \<open>
  UTF-8: for every JavaScript string, surrogate pairs and lone surrogates included, the writer emits as many
  bytes as \<open>utf8.length\<close> announces, and decoding them gives the string back.
\<close>

lemma utf8_exact: "utf8_decode (utf8_write s) = Some s \<and> length (utf8_write s) = utf8_length s"
  by (simp add: utf8_length_correct)

text \<open>
  The day count behind \<open>Date.UTC\<close> is the Gregorian calendar: it is 0 on the first of January 1970, each day adds
  one, and from the first of a month to the first of the next it advances by the length of that month, for
  every year.
\<close>

lemma calendar_months:
  assumes "0 \<le> m" "m < 12"
  shows "make_day 1970 0 1 = 0 \<and> make_day y m (d + 1) = make_day y m d + 1
    \<and> make_day y (m + 1) 1 = make_day y m 1 + days_in_month y m"
  using make_day_month_step [OF assms] make_day_epoch by (simp add: make_day_def Let_def)

lemma calendar_months_witness: "make_day 2100 2 1 = make_day 2100 1 1 + 28 \<and> make_day 2000 2 1 = make_day 2000 1 1 + 29"
  using calendar_months [of 1 2100] calendar_months [of 1 2000] by (simp add: days_in_month_def leap_year_def)

text \<open>
  A date that does not exist is accepted: a day past the end of its month, up to 31, is the corresponding day of the
  next month.
\<close>

lemma nonexistent_date_rolls_over:
  assumes "numeral_of py y" "numeral_of pm m" "numeral_of pd d"
    and "100 \<le> y" "y \<le> 9999" "1 \<le> m" "m \<le> 12" "days_in_month y (m - 1) < d" "d \<le> 31"
    and "k = d - days_in_month y (m - 1)" "e_now E (tr s) \<le> make_day y m k * 86400000"
  shows "run (parseStartDate E (py @ 45 # pm @ 45 # pd)) s = (Inr (make_day y m k * 86400), s) \<and> 1 \<le> k \<and> k \<le> 3"
proof -
  have "28 \<le> days_in_month y (m - 1)" by (simp add: days_in_month_def)
  moreover have "make_day y (m - 1) d = make_day y m k" using nonexistent_day [of "m - 1" y d] assms(6,7,10) by simp
  ultimately show ?thesis
    using parseStartDate_run [OF utc_date_ymd [OF assms(1-7) _ assms(9)], of E s] assms(8-11) by simp
qed

lemma nonexistent_date_example: "utc_date (lit ''2024-02-31'') = utc_date (lit ''2024-03-02'') \<and> utc_date (lit ''2024-13-45'') = utc_date (lit ''2025-02-14'')"
  by code_simp

text \<open>Rates above 2 ^ 53: the digits that are sent for two typed rates that pass the check.\<close>

lemma large_rates:
  "validRate (toNumber (lit ''9007199254740993'')) \<and> numToString (toNumber (lit ''9007199254740993'')) = lit ''9007199254740992''"
  "validRate (toNumber (lit ''1000000000000000000000'')) \<and> numToString (toNumber (lit ''1000000000000000000000'')) = lit ''1e+21''"
  by code_simp+

text \<open>
  Loading the bundle: after a failure no promise is cached and only setup calls were made, so the next attempt
  starts with a new import; after a success every further call returns the same registry and touches nothing.
\<close>

lemma failed_load_is_retried:
  assumes "live_promise s"
  shows "case run (loadWalletDeps E) s of
      (Inl e, s') \<Rightarrow> walletDepsPromise s' = None \<and> kept s s'
        \<and> (\<exists>es. tr (snd (run (loadWalletDeps E) s')) = tr s' @ ImportBundle walletBundleURL (e_import E (tr s') walletBundleURL) # es)
    | (Inr r, s') \<Rightarrow> run (loadWalletDeps E) s' = (Inr r, s')"
proof -
  obtain r s' where r: "run (loadWalletDeps E) s = (r, s')" by force
  show ?thesis
  proof (cases r)
    case (Inl e)
    with load_failed [OF assms, of E] r have "walletDepsPromise s' = None" "kept s s'" by (simp_all add: wp_def)
    with load_imports [of s' E] Inl r show ?thesis by simp
  next
    case (Inr x)
    with load_again [of E s x s'] r show ?thesis by simp
  qed
qed

lemma failed_load_is_retried_witness:
  "walletDepsPromise (snd (run (loadWalletDeps (demo_env\<lparr>e_import := (\<lambda>_ _. Inl (newError (lit ''offline'')))\<rparr>)) demo_page)) = None"
proof -
  let ?E = "demo_env\<lparr>e_import := (\<lambda>_ _. Inl (newError (lit ''offline'')))\<rparr>"
  have "live_promise demo_page" by (simp add: live_promise_def demo_page_def)
  moreover have "case fst (run (loadWalletDeps ?E) demo_page) of Inl e \<Rightarrow> True | Inr r \<Rightarrow> False" by code_simp
  then have "\<exists>e s'. run (loadWalletDeps ?E) demo_page = (Inl e, s')"
    by (cases "run (loadWalletDeps ?E) demo_page") (auto split: sum.splits)
  ultimately show ?thesis using failed_load_is_retried [of demo_page ?E] by auto
qed

text \<open>
  Substitution in a notice: text without braces is kept, the placeholder of an index in range becomes its
  argument, and the argument is taken literally (a placeholder inside it is not substituted).
\<close>

lemma notice_substitution:
  assumes "lookup_text msgs message = Inr (pre @ 123 # dec_digits (int i) @ 125 # post)" "123 \<notin> set pre"
    and "i < length args" "int (length args) < 2 ^ 53"
  shows "i18n_t msgs message args = Inr (pre @ args ! i @ replace_placeholders args post)"
proof -
  have "dec_digits (int i) \<noteq> [] \<and> list_all is_digit (dec_digits (int i))" using dec_digits_spec [of "int i"] by simp
  then have "replace_placeholders args (123 # dec_digits (int i) @ 125 # post)
      = substitute args (dec_digits (int i)) @ replace_placeholders args post"
    by (intro replace_placeholder) simp_all
  then show ?thesis using assms by (simp add: i18n_t_def replace_no_brace substitute_in_range del: replace_placeholders.simps)
qed

lemma notice_substitution_witness:
  "i18n_t None (lit ''Connected: {0}'') [lit ''{1}'', lit ''value''] = Inr (lit ''Connected: {1}'')"
proof -
  have "dec_digits (int 0) = lit ''0''" by code_simp
  then have "lookup_text None (lit ''Connected: {0}'') = Inr (lit ''Connected: '' @ 123 # dec_digits (int 0) @ 125 # [])"
    by (simp add: lookup_text_def lit_def)
  from notice_substitution [OF this] show ?thesis by (simp add: lit_def)
qed

end
